(* ===== verification/Umtp_Prelude.thy ===== *)
theory Umtp_Prelude
  imports Main "HOL-Library.Word"
begin

unbundle bit_operations_syntax

text \<open>
  What every component of the development shares.

  \<^item> The machine integers of the C code (\<open>u8\<close>, \<open>u16\<close>, \<open>u32\<close>, \<open>u64\<close>): words, so that
    arithmetic wraps as the unsigned types of C do.
  \<^item> \<open>fault\<close> and the result type \<open>'a res\<close>: a run of a C function either returns a value
    (\<open>Inr\<close>) or stops being defined by the C standard (\<open>Inl\<close>): a dereference of a pointer that
    is NULL or dangling, an access outside an object, a division by zero, a signed overflow, a
    shift by a negative amount, the use of an uninitialised variable, or a loop that never returns.
  \<^item> The flat byte memory \<open>mem\<close> (an address that maps to \<open>None\<close> is not allocated) with the
    loops that copy bytes, and the little-endian representation of a 32-bit integer.
  \<^item> The error numbers of \<open>errno.h\<close> that the code returns, as on Linux.
\<close>

section \<open>Machine integers and error numbers\<close>

type_synonym u8 = "8 word"
type_synonym u16 = "16 word"
type_synonym u32 = "32 word"
type_synonym u64 = "64 word"

abbreviation (input) ENOENT :: int where "ENOENT \<equiv> 2"
abbreviation (input) EBADF :: int where "EBADF \<equiv> 9"
abbreviation (input) ENOMEM :: int where "ENOMEM \<equiv> 12"
abbreviation (input) EEXIST :: int where "EEXIST \<equiv> 17"
abbreviation (input) EINVAL :: int where "EINVAL \<equiv> 22"
abbreviation (input) EPROTO :: int where "EPROTO \<equiv> 71"
abbreviation (input) ETIMEDOUT :: int where "ETIMEDOUT \<equiv> 110"

abbreviation (input) INT_MAX :: int where "INT_MAX \<equiv> 2147483647"

section \<open>Results that may be undefined\<close>

datatype fault =
    Bad_pointer      \<comment> \<open>a NULL or dangling pointer is dereferenced\<close>
  | Out_of_bounds    \<comment> \<open>an array is accessed outside its bounds\<close>
  | Div_by_zero
  | Signed_overflow
  | Bad_shift        \<comment> \<open>a shift by a negative or too large amount\<close>
  | Uninit           \<comment> \<open>an indeterminate value is used\<close>
  | No_return        \<comment> \<open>a loop runs forever\<close>

type_synonym 'a res = "fault + 'a"

definition bindE :: "'a res \<Rightarrow> ('a \<Rightarrow> 'b res) \<Rightarrow> 'b res" where
  "bindE m f = (case m of Inl e \<Rightarrow> Inl e | Inr x \<Rightarrow> f x)"

lemma bindE_Inl [simp]: "bindE (Inl e) f = Inl e"
  by (simp add: bindE_def)

lemma bindE_Inr [simp]: "bindE (Inr x) f = f x"
  by (simp add: bindE_def)

lemma bindE_eq_Inr: "bindE m f = Inr y \<longleftrightarrow> (\<exists>x. m = Inr x \<and> f x = Inr y)"
  by (cases m) auto

lemma bindE_assoc: "bindE (bindE m f) g = bindE m (\<lambda>x. bindE (f x) g)"
  by (cases m) simp_all

lemma bindE_cong [fundef_cong]:
  "m = m' \<Longrightarrow> (\<And>x. m' = Inr x \<Longrightarrow> f x = f' x) \<Longrightarrow> bindE m f = bindE m' f'"
  by (cases m') auto

text \<open>The facts about results of fallible calls, for \<open>simp\<close> and \<open>auto\<close>.\<close>

named_theorems res_simps

declare bindE_eq_Inr [res_simps]

lemma option_eqI: "(\<And>b. x = Some b \<longleftrightarrow> y = Some b) \<Longrightarrow> x = y"
  by (cases x; cases y) auto

text \<open>A \<open>for\<close> loop over known indices.\<close>

fun foldE :: "('a \<Rightarrow> 's \<Rightarrow> 's res) \<Rightarrow> 'a list \<Rightarrow> 's \<Rightarrow> 's res" where
  "foldE f [] s = Inr s"
| "foldE f (x # xs) s = bindE (f x s) (foldE f xs)"

lemma foldE_append: "foldE f (xs @ ys) s = bindE (foldE f xs s) (foldE f ys)"
  by (induction xs arbitrary: s) (auto simp: bindE_def split: sum.split)

section \<open>Byte memory\<close>

type_synonym mem = "nat \<rightharpoonup> u8"

abbreviation (input) NULL :: nat where "NULL \<equiv> 0"

definition load8 :: "mem \<Rightarrow> nat \<Rightarrow> u8 res" where
  "load8 m a = (case m a of None \<Rightarrow> Inl Bad_pointer | Some v \<Rightarrow> Inr v)"

definition store8 :: "mem \<Rightarrow> nat \<Rightarrow> u8 \<Rightarrow> mem res" where
  "store8 m a v = (case m a of None \<Rightarrow> Inl Bad_pointer | Some _ \<Rightarrow> Inr (m(a \<mapsto> v)))"

text \<open>\<open>for (i = 0; i < n; i++) dst[i] = src[i];\<close>, one byte after the other.\<close>

fun copy_loop :: "mem \<Rightarrow> nat \<Rightarrow> nat \<Rightarrow> nat \<Rightarrow> mem res" where
  "copy_loop m dst src 0 = Inr m"
| "copy_loop m dst src (Suc n) =
     bindE (load8 m src) (\<lambda>v. bindE (store8 m dst v) (\<lambda>m'. copy_loop m' (Suc dst) (Suc src) n))"

fun store_bytes :: "mem \<Rightarrow> nat \<Rightarrow> u8 list \<Rightarrow> mem res" where
  "store_bytes m a [] = Inr m"
| "store_bytes m a (v # vs) = bindE (store8 m a v) (\<lambda>m'. store_bytes m' (Suc a) vs)"

fun load_bytes :: "mem \<Rightarrow> nat \<Rightarrow> nat \<Rightarrow> u8 list res" where
  "load_bytes m a 0 = Inr []"
| "load_bytes m a (Suc n) =
     bindE (load8 m a) (\<lambda>v. bindE (load_bytes m (Suc a) n) (\<lambda>vs. Inr (v # vs)))"

text \<open>The vocabulary of the specifications: allocated blocks, their contents, block updates.\<close>

definition mem_valid :: "mem \<Rightarrow> nat \<Rightarrow> nat \<Rightarrow> bool" where
  "mem_valid m a n \<longleftrightarrow> (\<forall>i < n. m (a + i) \<noteq> None)"

definition mem_bytes :: "mem \<Rightarrow> nat \<Rightarrow> nat \<Rightarrow> u8 list" where
  "mem_bytes m a n = map (\<lambda>i. the (m (a + i))) [0..<n]"

definition mem_put :: "mem \<Rightarrow> nat \<Rightarrow> u8 list \<Rightarrow> mem" where
  "mem_put m a bs = (\<lambda>x. if a \<le> x \<and> x < a + length bs then Some (bs ! (x - a)) else m x)"

lemma length_mem_bytes [simp]: "length (mem_bytes m a n) = n"
  by (simp add: mem_bytes_def)

lemma mem_valid_0 [simp]: "mem_valid m a 0"
  by (simp add: mem_valid_def)

lemma mem_valid_Suc: "mem_valid m a (Suc n) \<longleftrightarrow> m a \<noteq> None \<and> mem_valid m (Suc a) n"
  by (auto simp: mem_valid_def less_Suc_eq_0_disj)

lemma mem_valid_sub: "mem_valid m a n \<Longrightarrow> k + l \<le> n \<Longrightarrow> mem_valid m (a + k) l"
  by (simp add: mem_valid_def add.assoc)

lemma mem_valid_upd [simp]: "mem_valid m a n \<Longrightarrow> mem_valid (m(x \<mapsto> v)) a n"
  by (simp add: mem_valid_def)

lemma mem_valid_put [simp]: "mem_valid m a n \<Longrightarrow> mem_valid (mem_put m b bs) a n"
  by (simp add: mem_valid_def mem_put_def)

lemma mem_put_Nil [simp]: "mem_put m a [] = m"
  by (rule ext) (auto simp: mem_put_def)

lemma mem_put_Cons: "mem_put (m(a \<mapsto> v)) (Suc a) vs = mem_put m a (v # vs)"
proof
  fix x
  show "mem_put (m(a \<mapsto> v)) (Suc a) vs x = mem_put m a (v # vs) x"
    by (cases "x = a") (auto simp: mem_put_def nth_Cons' )
qed

lemma mem_bytes_0 [simp]: "mem_bytes m a 0 = []"
  by (simp add: mem_bytes_def)

lemma mem_bytes_Suc: "mem_bytes m a (Suc n) = the (m a) # mem_bytes m (Suc a) n"
  by (simp add: mem_bytes_def upt_conv_Cons map_Suc_upt [symmetric] del: upt_Suc)

lemma mem_bytes_put_same [simp]: "mem_bytes (mem_put m a bs) a (length bs) = bs"
  by (rule nth_equalityI) (auto simp: mem_bytes_def mem_put_def)

lemma mem_bytes_put_other:
  "a + n \<le> b \<or> b + length bs \<le> a \<Longrightarrow> mem_bytes (mem_put m b bs) a n = mem_bytes m a n"
  by (auto simp: mem_bytes_def mem_put_def)

lemma mem_bytes_upd_other: "x < a \<or> a + n \<le> x \<Longrightarrow> mem_bytes (m(x \<mapsto> v)) a n = mem_bytes m a n"
  by (auto simp: mem_bytes_def)

lemma store_bytes_ok: "mem_valid m a (length bs) \<Longrightarrow> store_bytes m a bs = Inr (mem_put m a bs)"
proof (induction bs arbitrary: m a)
  case Nil
  then show ?case by simp
next
  case (Cons v vs)
  then obtain w where w: "m a = Some w" and rest: "mem_valid m (Suc a) (length vs)"
    by (auto simp: mem_valid_Suc)
  from rest have "mem_valid (m(a \<mapsto> v)) (Suc a) (length vs)" by simp
  then have "store_bytes (m(a \<mapsto> v)) (Suc a) vs = Inr (mem_put (m(a \<mapsto> v)) (Suc a) vs)"
    by (rule Cons.IH)
  with w show ?case by (simp add: store8_def mem_put_Cons)
qed

lemma store8_Inr: "store8 m a v = Inr m' \<longleftrightarrow> m a \<noteq> None \<and> m' = m(a \<mapsto> v)"
  by (auto simp: store8_def split: option.splits)

lemma store_bytes_Inr:
  "store_bytes m a bs = Inr m' \<longleftrightarrow> mem_valid m a (length bs) \<and> m' = mem_put m a bs"
proof
  assume "store_bytes m a bs = Inr m'"
  then have "mem_valid m a (length bs)"
  proof (induction bs arbitrary: m a)
    case (Cons v vs)
    then have "m a \<noteq> None" "mem_valid (m(a \<mapsto> v)) (Suc a) (length vs)"
      by (auto simp: res_simps store8_Inr)
    then show ?case by (auto simp: mem_valid_Suc) (auto simp: mem_valid_def split: if_splits)
  qed simp
  with \<open>store_bytes m a bs = Inr m'\<close> show "mem_valid m a (length bs) \<and> m' = mem_put m a bs"
    by (simp add: store_bytes_ok)
qed (simp add: store_bytes_ok)

lemma load_bytes_ok: "mem_valid m a n \<Longrightarrow> load_bytes m a n = Inr (mem_bytes m a n)"
  by (induction n arbitrary: a) (auto simp: mem_valid_Suc mem_bytes_Suc load8_def)

lemma copy_loop_ok:
  assumes "mem_valid m dst n" and "mem_valid m src n" and "dst + n \<le> src \<or> src + n \<le> dst"
  shows "copy_loop m dst src n = Inr (mem_put m dst (mem_bytes m src n))"
  using assms
proof (induction n arbitrary: m dst src)
  case 0
  then show ?case by simp
next
  case (Suc n)
  obtain v where v: "m src = Some v" and src: "mem_valid m (Suc src) n"
    using Suc.prems(2) by (auto simp: mem_valid_Suc)
  obtain w where w: "m dst = Some w" and dst: "mem_valid m (Suc dst) n"
    using Suc.prems(1) by (auto simp: mem_valid_Suc)
  let ?m = "m(dst \<mapsto> v)"
  have "copy_loop ?m (Suc dst) (Suc src) n
      = Inr (mem_put ?m (Suc dst) (mem_bytes ?m (Suc src) n))"
    using Suc.prems(3) src dst by (intro Suc.IH mem_valid_upd) auto
  moreover have "mem_bytes ?m (Suc src) n = mem_bytes m (Suc src) n"
    using Suc.prems(3) by (intro mem_bytes_upd_other) auto
  ultimately show ?case
    using v w by (simp add: load8_def store8_def mem_put_Cons mem_bytes_Suc)
qed

section \<open>Arrays\<close>

text \<open>
  Arrays that no pointer arithmetic leaves are lists. \<open>arr_read\<close> and \<open>arr_write\<close> are \<open>memcpy\<close> from
  and to an array: the whole range must lie inside it. \<open>memcpy\<close> takes its length as \<open>size_t\<close>, so a
  negative \<open>int\<close> length is a range no array has.
\<close>

definition arr_get :: "'a list \<Rightarrow> nat \<Rightarrow> 'a res" where
  "arr_get a i = (if i < length a then Inr (a ! i) else Inl Out_of_bounds)"

definition arr_set :: "'a list \<Rightarrow> nat \<Rightarrow> 'a \<Rightarrow> 'a list res" where
  "arr_set a i x = (if i < length a then Inr (a[i := x]) else Inl Out_of_bounds)"

definition arr_read :: "'a list \<Rightarrow> nat \<Rightarrow> int \<Rightarrow> 'a list res" where
  "arr_read a off len =
     (if 0 \<le> len \<and> off + nat len \<le> length a then Inr (take (nat len) (drop off a))
      else Inl Out_of_bounds)"

definition arr_write :: "'a list \<Rightarrow> nat \<Rightarrow> 'a list \<Rightarrow> 'a list res" where
  "arr_write a off xs =
     (if off + length xs \<le> length a then Inr (take off a @ xs @ drop (off + length xs) a)
      else Inl Out_of_bounds)"

lemma arr_get_Inr [simp]: "i < length a \<Longrightarrow> arr_get a i = Inr (a ! i)"
  by (simp add: arr_get_def)

lemma arr_set_Inr [simp]: "i < length a \<Longrightarrow> arr_set a i x = Inr (a[i := x])"
  by (simp add: arr_set_def)

lemma arr_read_all [simp]: "arr_read a 0 (int (length a)) = Inr a"
  by (simp add: arr_read_def)

lemma arr_read_ok:
  "0 \<le> len \<Longrightarrow> off + nat len \<le> length a \<Longrightarrow> arr_read a off len = Inr (take (nat len) (drop off a))"
  by (simp add: arr_read_def)

lemma arr_write_ok:
  "off + length xs \<le> length a \<Longrightarrow>
   arr_write a off xs = Inr (take off a @ xs @ drop (off + length xs) a)"
  by (simp add: arr_write_def)

lemma arr_write_Inr:
  "arr_write a off xs = Inr b \<longleftrightarrow>
   off + length xs \<le> length a \<and> b = take off a @ xs @ drop (off + length xs) a"
  by (auto simp: arr_write_def)

lemma arr_write_length: "arr_write a off xs = Inr b \<Longrightarrow> length b = length a"
  by (auto simp: arr_write_Inr)

section \<open>The little-endian representation of integers\<close>

definition u16_bytes :: "u16 \<Rightarrow> u8 list" where
  "u16_bytes w = [ucast w, ucast (drop_bit 8 w)]"

definition bytes_u16 :: "u8 list \<Rightarrow> u16" where
  "bytes_u16 bs = ucast (bs ! 0) OR push_bit 8 (ucast (bs ! 1))"

text \<open>\<open>htons\<close> on a little-endian host swaps the bytes; \<open>ntohs\<close> is the same function.\<close>

definition htons :: "u16 \<Rightarrow> u16" where
  "htons w = push_bit 8 w OR drop_bit 8 w"

lemma length_u16_bytes [simp]: "length (u16_bytes w) = 2"
  by (simp add: u16_bytes_def)

lemma bytes_u16_u16_bytes [simp]: "bytes_u16 (u16_bytes w) = w"
proof (rule bit_word_eqI)
  fix n assume "n < LENGTH(16)"
  then consider "n < 8" | "8 \<le> n" "n < 16" by fastforce
  then show "bit (bytes_u16 (u16_bytes w)) n = bit w n"
    by cases (auto simp: u16_bytes_def bytes_u16_def bit_simps)
qed

lemma htons_htons [simp]: "htons (htons w) = w"
proof (rule bit_word_eqI)
  fix n assume "n < LENGTH(16)"
  then consider "n < 8" | "8 \<le> n" "n < 16" by fastforce
  then show "bit (htons (htons w)) n = bit w n"
    by cases (auto simp: htons_def bit_simps)
qed

definition u32_bytes :: "u32 \<Rightarrow> u8 list" where
  "u32_bytes w = [ucast w, ucast (drop_bit 8 w), ucast (drop_bit 16 w), ucast (drop_bit 24 w)]"

definition bytes_u32 :: "u8 list \<Rightarrow> u32" where
  "bytes_u32 bs =
     ucast (bs ! 0) OR push_bit 8 (ucast (bs ! 1))
       OR push_bit 16 (ucast (bs ! 2)) OR push_bit 24 (ucast (bs ! 3))"

lemma length_u32_bytes [simp]: "length (u32_bytes w) = 4"
  by (simp add: u32_bytes_def)

lemma bytes_u32_u32_bytes [simp]: "bytes_u32 (u32_bytes w) = w"
proof (rule bit_word_eqI)
  fix n assume "n < LENGTH(32)"
  then consider "n < 8" | "8 \<le> n" "n < 16" | "16 \<le> n" "n < 24" | "24 \<le> n" "n < 32"
    by fastforce
  then show "bit (bytes_u32 (u32_bytes w)) n = bit w n"
    by cases (auto simp: u32_bytes_def bytes_u32_def bit_simps)
qed

definition store_u32 :: "mem \<Rightarrow> nat \<Rightarrow> u32 \<Rightarrow> mem res" where
  "store_u32 m a w = store_bytes m a (u32_bytes w)"

definition load_u32 :: "mem \<Rightarrow> nat \<Rightarrow> u32 res" where
  "load_u32 m a = bindE (load_bytes m a 4) (\<lambda>bs. Inr (bytes_u32 bs))"

lemma store_u32_ok: "mem_valid m a 4 \<Longrightarrow> store_u32 m a w = Inr (mem_put m a (u32_bytes w))"
  by (simp add: store_u32_def store_bytes_ok)

lemma load_u32_put [simp]:
  assumes "mem_valid m a 4"
  shows "load_u32 (mem_put m a (u32_bytes w)) a = Inr w"
proof -
  have "load_bytes (mem_put m a (u32_bytes w)) a 4 = Inr (u32_bytes w)"
    using assms mem_bytes_put_same [of m a "u32_bytes w"] by (simp add: load_bytes_ok)
  then show ?thesis by (simp add: load_u32_def)
qed

lemma load_u32_valid: "mem_valid m a 4 \<Longrightarrow> load_u32 m a = Inr (bytes_u32 (mem_bytes m a 4))"
  by (simp add: load_u32_def load_bytes_ok)

section \<open>Words as counters\<close>

lemma unat_add_of_nat_mod:
  fixes x c :: "'a::len word"
  assumes "unat c dvd 2 ^ LENGTH('a)"
  shows "unat ((x + of_nat i) mod c) = (unat x + i) mod unat c"
proof -
  have "unat (x + of_nat i) = (unat x + i) mod 2 ^ LENGTH('a)"
    by (simp add: unat_word_ariths unat_of_nat mod_simps)
  then show ?thesis
    using assms by (simp add: unat_mod mod_mod_cancel)
qed

lemma unat_succ: "x \<noteq> (- 1 :: 'a::len word) \<Longrightarrow> unat (x + 1) = Suc (unat x)"
  using unatSuc [of x] by (metis add.commute add_eq_0_iff)

lemma mod_add_inj:
  fixes i j t c :: nat
  assumes "(t + i) mod c = (t + j) mod c" and "i < c" and "j < c"
  shows "i = j"
proof -
  have "(int t + int i) mod int c = (int t + int j) mod int c"
    using assms(1) by (metis of_nat_add zmod_int)
  then have "int i mod int c = int j mod int c"
    by (metis add_diff_cancel_left' mod_diff_left_eq)
  with assms(2,3) show ?thesis by simp
qed

end
