(* ===== verification/List_Head.thy ===== *)
theory List_Head
  imports Umtp_Prelude
begin

text \<open>
  The intrusive doubly linked list of \<open>core/list.c\<close> and \<open>include/list.h\<close>.

  A node is a \<open>struct list_head\<close>; the store \<open>'p links\<close> maps the addresses of the allocated nodes
  to their contents, so a pointer outside its domain (NULL, or a dangling one) faults when it is
  followed. \<open>dlist h head xs\<close> is the abstraction: the nodes of the circular list behind \<open>head\<close> are
  \<open>xs\<close>, in the order of the \<open>next\<close> pointers. The lemmas show that insertion at either end,
  removal and the iteration macros do to \<open>xs\<close> what the comments in the code promise.
\<close>

section \<open>Nodes and the operations\<close>

record 'p list_head =
  lnext :: 'p
  lprev :: 'p

type_synonym 'p links = "'p \<rightharpoonup> 'p list_head"

definition get_next :: "'p links \<Rightarrow> 'p \<Rightarrow> 'p res" where
  "get_next h p = (case h p of None \<Rightarrow> Inl Bad_pointer | Some n \<Rightarrow> Inr (lnext n))"

definition get_prev :: "'p links \<Rightarrow> 'p \<Rightarrow> 'p res" where
  "get_prev h p = (case h p of None \<Rightarrow> Inl Bad_pointer | Some n \<Rightarrow> Inr (lprev n))"

definition set_next :: "'p links \<Rightarrow> 'p \<Rightarrow> 'p \<Rightarrow> 'p links res" where
  "set_next h p q =
     (case h p of None \<Rightarrow> Inl Bad_pointer | Some n \<Rightarrow> Inr (h(p \<mapsto> n\<lparr>lnext := q\<rparr>)))"

definition set_prev :: "'p links \<Rightarrow> 'p \<Rightarrow> 'p \<Rightarrow> 'p links res" where
  "set_prev h p q =
     (case h p of None \<Rightarrow> Inl Bad_pointer | Some n \<Rightarrow> Inr (h(p \<mapsto> n\<lparr>lprev := q\<rparr>)))"

definition list_is_first :: "'p links \<Rightarrow> 'p \<Rightarrow> 'p \<Rightarrow> bool res" where
  "list_is_first h list head = bindE (get_prev h list) (\<lambda>p. Inr (p = head))"

definition list_is_last :: "'p links \<Rightarrow> 'p \<Rightarrow> 'p \<Rightarrow> bool res" where
  "list_is_last h list head = bindE (get_next h list) (\<lambda>p. Inr (p = head))"

definition INIT_LIST_HEAD :: "'p links \<Rightarrow> 'p \<Rightarrow> 'p links res" where
  "INIT_LIST_HEAD h list =
     bindE (set_next h list list) (\<lambda>h1. set_prev h1 list list)"

text \<open>\<open>LIST_HEAD (name)\<close> declares a head that is initialised so. \<open>list_entry\<close> is the object that a node is a member of; objects
  are named by their nodes here, so it is the identity and the entry macros are the node they follow to.\<close>

definition LIST_HEAD_INIT :: "'p \<Rightarrow> 'p list_head" where
  "LIST_HEAD_INIT name = \<lparr>lnext = name, lprev = name\<rparr>"

definition LIST_HEAD :: "'p links \<Rightarrow> 'p \<Rightarrow> 'p links" where
  "LIST_HEAD h name = h(name \<mapsto> LIST_HEAD_INIT name)"

definition list_first_entry :: "'p links \<Rightarrow> 'p \<Rightarrow> 'p res" where
  "list_first_entry h p = get_next h p"

definition list_last_entry :: "'p links \<Rightarrow> 'p \<Rightarrow> 'p res" where
  "list_last_entry h p = get_prev h p"

definition list_add_between :: "'p links \<Rightarrow> 'p \<Rightarrow> 'p \<Rightarrow> 'p \<Rightarrow> 'p links res" where
  "list_add_between h new prev next =
     bindE (set_prev h next new) (\<lambda>h1.
     bindE (set_next h1 new next) (\<lambda>h2.
     bindE (set_prev h2 new prev) (\<lambda>h3.
     set_next h3 prev new)))"

definition list_add :: "'p links \<Rightarrow> 'p \<Rightarrow> 'p \<Rightarrow> 'p links res" where
  "list_add h new head = bindE (get_next h head) (\<lambda>n. list_add_between h new head n)"

definition list_add_tail :: "'p links \<Rightarrow> 'p \<Rightarrow> 'p \<Rightarrow> 'p links res" where
  "list_add_tail h new head = bindE (get_prev h head) (\<lambda>p. list_add_between h new p head)"

definition list_empty :: "'p links \<Rightarrow> 'p \<Rightarrow> bool res" where
  "list_empty h head = bindE (get_next h head) (\<lambda>n. Inr (n = head))"

definition list_del :: "'p links \<Rightarrow> 'p \<Rightarrow> 'p links res" where
  "list_del h entry =
     bindE (get_next h entry) (\<lambda>list_next.
     bindE (get_prev h entry) (\<lambda>list_prev.
     bindE (set_prev h list_next list_prev) (\<lambda>h1.
     set_next h1 list_prev list_next)))"

text \<open>
  \<open>list_for_each (pos, head) body\<close>: the cursor starts at \<open>head->next\<close> and follows \<open>next\<close> until it
  is \<open>head\<close> again; \<open>list_for_each_prev\<close> follows \<open>prev\<close>. The body works on a state \<open>'s\<close>; \<open>Some r\<close> is
  a \<open>return r\<close> out of the enclosing function, \<open>None\<close> falls through or continues. A walk that never
  meets \<open>head\<close> again does not return: \<open>None\<close> of the partial function, \<open>No_return\<close> of the macro.
\<close>

partial_function (option) list_walk ::
  "('p \<Rightarrow> 'p res) \<Rightarrow> 'p \<Rightarrow> ('p \<Rightarrow> 's \<Rightarrow> ('s \<times> 'r option) res) \<Rightarrow> 'p \<Rightarrow> 's \<Rightarrow> ('s \<times> 'r option) res option"
where
  "list_walk step head body pos s =
     (if pos = head then Some (Inr (s, None))
      else case body pos s of
        Inl e \<Rightarrow> Some (Inl e)
      | Inr sr \<Rightarrow>
          (if snd sr \<noteq> None then Some (Inr sr)
           else case step pos of
             Inl e \<Rightarrow> Some (Inl e)
           | Inr q \<Rightarrow> list_walk step head body q (fst sr)))"

definition list_for_each ::
  "'p links \<Rightarrow> 'p \<Rightarrow> ('p \<Rightarrow> 's \<Rightarrow> ('s \<times> 'r option) res) \<Rightarrow> 's \<Rightarrow> ('s \<times> 'r option) res"
where
  "list_for_each h head body s =
     bindE (get_next h head) (\<lambda>pos.
       case list_walk (get_next h) head body pos s of None \<Rightarrow> Inl No_return | Some r \<Rightarrow> r)"

definition list_for_each_prev ::
  "'p links \<Rightarrow> 'p \<Rightarrow> ('p \<Rightarrow> 's \<Rightarrow> ('s \<times> 'r option) res) \<Rightarrow> 's \<Rightarrow> ('s \<times> 'r option) res"
where
  "list_for_each_prev h head body s =
     bindE (get_prev h head) (\<lambda>pos.
       case list_walk (get_prev h) head body pos s of None \<Rightarrow> Inl No_return | Some r \<Rightarrow> r)"

text \<open>
  \<open>list_for_each_safe\<close> and \<open>list_for_each_prev_safe\<close>: a second cursor \<open>n\<close> is one node ahead, so the body, which may
  change the links here, can remove the node it is called for. It is read on before the loop's condition
  is tested, also when \<open>pos\<close> becomes \<open>head\<close>.
\<close>

partial_function (option) list_walk_safe ::
  "('p links \<Rightarrow> 'p \<Rightarrow> 'p res) \<Rightarrow> 'p \<Rightarrow> ('p \<Rightarrow> 'p links \<times> 's \<Rightarrow> (('p links \<times> 's) \<times> 'r option) res)
   \<Rightarrow> 'p \<Rightarrow> 'p \<Rightarrow> 'p links \<times> 's \<Rightarrow> (('p links \<times> 's) \<times> 'r option) res option"
where
  "list_walk_safe step head body pos n hs =
     (if pos = head then Some (Inr (hs, None))
      else case body pos hs of
        Inl e \<Rightarrow> Some (Inl e)
      | Inr sr \<Rightarrow>
          (if snd sr \<noteq> None then Some (Inr sr)
           else case step (fst (fst sr)) n of
             Inl e \<Rightarrow> Some (Inl e)
           | Inr q \<Rightarrow> list_walk_safe step head body n q (fst sr)))"

definition list_for_each_safe ::
  "'p \<Rightarrow> ('p \<Rightarrow> 'p links \<times> 's \<Rightarrow> (('p links \<times> 's) \<times> 'r option) res) \<Rightarrow> 'p links \<times> 's \<Rightarrow> (('p links \<times> 's) \<times> 'r option) res"
where
  "list_for_each_safe head body hs =
     bindE (get_next (fst hs) head) (\<lambda>pos. bindE (get_next (fst hs) pos) (\<lambda>n.
       case list_walk_safe get_next head body pos n hs of None \<Rightarrow> Inl No_return | Some r \<Rightarrow> r))"

definition list_for_each_prev_safe ::
  "'p \<Rightarrow> ('p \<Rightarrow> 'p links \<times> 's \<Rightarrow> (('p links \<times> 's) \<times> 'r option) res) \<Rightarrow> 'p links \<times> 's \<Rightarrow> (('p links \<times> 's) \<times> 'r option) res"
where
  "list_for_each_prev_safe head body hs =
     bindE (get_prev (fst hs) head) (\<lambda>pos. bindE (get_prev (fst hs) pos) (\<lambda>n.
       case list_walk_safe get_prev head body pos n hs of None \<Rightarrow> Inl No_return | Some r \<Rightarrow> r))"

text \<open>What a loop with early return does over a list that is known.\<close>

fun each_until :: "('p \<Rightarrow> 's \<Rightarrow> ('s \<times> 'r option) res) \<Rightarrow> 'p list \<Rightarrow> 's \<Rightarrow> ('s \<times> 'r option) res" where
  "each_until body [] s = Inr (s, None)"
| "each_until body (x # xs) s =
     bindE (body x s) (\<lambda>sr. if snd sr \<noteq> None then Inr sr else each_until body xs (fst sr))"

section \<open>The abstraction\<close>

fun chained :: "'p links \<Rightarrow> 'p list \<Rightarrow> bool" where
  "chained h (a # b # xs) \<longleftrightarrow>
     get_next h a = Inr b \<and> get_prev h b = Inr a \<and> chained h (b # xs)"
| "chained h _ \<longleftrightarrow> True"

definition dlist :: "'p links \<Rightarrow> 'p \<Rightarrow> 'p list \<Rightarrow> bool" where
  "dlist h head xs \<longleftrightarrow> distinct (head # xs) \<and> chained h (head # xs @ [head])"

named_theorems link_defs

declare get_next_def [link_defs] get_prev_def [link_defs] set_next_def [link_defs]
  set_prev_def [link_defs]

lemma get_next_Inr: "get_next h p = Inr q \<longleftrightarrow> (\<exists>n. h p = Some n \<and> lnext n = q)"
  by (auto simp: link_defs split: option.splits)

lemma get_prev_Inr: "get_prev h p = Inr q \<longleftrightarrow> (\<exists>n. h p = Some n \<and> lprev n = q)"
  by (auto simp: link_defs split: option.splits)

lemma chained_append:
  "chained h (xs @ a # ys) \<longleftrightarrow> chained h (xs @ [a]) \<and> chained h (a # ys)"
proof (induction xs)
  case Nil
  then show ?case by (cases ys) auto
next
  case (Cons x xs)
  then show ?case by (cases xs) auto
qed

lemmas chained_suffix = chained_append [THEN iffD1, THEN conjunct2]
lemmas chained_prefix = chained_append [THEN iffD1, THEN conjunct1]

text \<open>
  A store that agrees with \<open>h\<close> on the fields a chain reads keeps the chain: the \<open>next\<close> fields of
  all nodes but the last, the \<open>prev\<close> fields of all but the first.
\<close>

lemma chained_cong:
  "chained h ys \<Longrightarrow>
   (\<And>p. p \<in> set (butlast ys) \<Longrightarrow> get_next h' p = get_next h p) \<Longrightarrow>
   (\<And>p. p \<in> set (tl ys) \<Longrightarrow> get_prev h' p = get_prev h p) \<Longrightarrow> chained h' ys"
proof (induction h ys rule: chained.induct)
  case (1 h a b xs)
  have "chained h' (b # xs)"
  proof (rule "1.IH")
    show "chained h (b # xs)" using "1.prems"(1) by simp
    show "get_next h' p = get_next h p" if "p \<in> set (butlast (b # xs))" for p
      by (rule "1.prems"(2)) (use that in simp)
    show "get_prev h' p = get_prev h p" if "p \<in> set (tl (b # xs))" for p
      by (rule "1.prems"(3)) (use that in simp)
  qed
  moreover have "get_next h' a = get_next h a" by (rule "1.prems"(2)) simp
  moreover have "get_prev h' b = get_prev h b" by (rule "1.prems"(3)) simp
  ultimately show ?case using "1.prems"(1) by simp
qed simp_all

lemma dlist_nodes: "dlist h head xs \<Longrightarrow> p \<in> set (head # xs) \<Longrightarrow> h p \<noteq> None"
proof -
  assume d: "dlist h head xs" and p: "p \<in> set (head # xs)"
  from split_list [OF p] obtain us vs where "head # xs = us @ p # vs" by blast
  then have eq: "head # xs @ [head] = us @ p # (vs @ [head])" by simp
  have "chained h (us @ p # (vs @ [head]))"
    using d unfolding dlist_def eq [symmetric] by simp
  then have "chained h (p # (vs @ [head]))" by (rule chained_suffix)
  then show "h p \<noteq> None" by (cases vs) (auto simp: get_next_Inr)
qed

section \<open>The writes, by their effect on every node\<close>

lemma list_add_between_effect:
  assumes "h new \<noteq> None" and "h p \<noteq> None" and "h n \<noteq> None" and "new \<noteq> p" and "new \<noteq> n"
  obtains h' where "list_add_between h new p n = Inr h'"
    and "\<And>q. get_next h' q = (if q = p then Inr new else if q = new then Inr n else get_next h q)"
    and "\<And>q. get_prev h' q = (if q = n then Inr new else if q = new then Inr p else get_prev h q)"
    and "dom h' = dom h" and "\<And>q. q \<notin> {new, p, n} \<Longrightarrow> h' q = h q"
proof -
  from assms obtain a b c where abc: "h new = Some a" "h p = Some b" "h n = Some c" by auto
  let ?h1 = "h(n \<mapsto> c\<lparr>lprev := new\<rparr>, new \<mapsto> a\<lparr>lnext := n, lprev := p\<rparr>)"
  let ?h' = "?h1(p \<mapsto> the (?h1 p)\<lparr>lnext := new\<rparr>)"
  have "list_add_between h new p n = Inr ?h'"
    using abc assms(4,5) by (cases "p = n") (auto simp: list_add_between_def link_defs)
  then show ?thesis
    by (rule that) (use abc assms(4,5) in \<open>auto simp: link_defs\<close>)
qed

lemma list_del_effect:
  assumes "get_next h x = Inr n" and "get_prev h x = Inr p" and "h n \<noteq> None" and "h p \<noteq> None"
  obtains h' where "list_del h x = Inr h'"
    and "\<And>q. get_next h' q = (if q = p then Inr n else get_next h q)"
    and "\<And>q. get_prev h' q = (if q = n then Inr p else get_prev h q)"
    and "dom h' = dom h" and "\<And>q. q \<notin> {p, n} \<Longrightarrow> h' q = h q"
proof -
  from assms(3,4) obtain b c where bc: "h n = Some c" "h p = Some b" by auto
  let ?h1 = "h(n \<mapsto> c\<lparr>lprev := p\<rparr>)"
  let ?h' = "?h1(p \<mapsto> the (?h1 p)\<lparr>lnext := n\<rparr>)"
  have "set_prev h n p = Inr ?h1" using bc by (simp add: link_defs)
  moreover have "set_next ?h1 p n = Inr ?h'" using bc by (simp add: link_defs)
  ultimately have "list_del h x = Inr ?h'" using assms(1,2) by (simp add: list_del_def)
  then show ?thesis
    by (rule that) (use bc in \<open>auto simp: link_defs\<close>)
qed

section \<open>Insertion and removal on the abstract list\<close>

text \<open>
  The cycle \<open>head # xs @ [head]\<close> with an edge \<open>p \<rightarrow> n\<close> in it: inserting between the two, or taking
  out the node between the two, leaves the rest of the cycle as it was.
\<close>

lemma chained_insert:
  assumes ch: "chained h (us @ p # n # vs)" and new: "h new \<noteq> None" "new \<notin> set (us @ p # n # vs)"
    and d: "distinct (butlast (us @ p # n # vs))" "distinct (tl (us @ p # n # vs))"
  obtains h' where "list_add_between h new p n = Inr h'" and "chained h' (us @ p # new # n # vs)"
    and "dom h' = dom h" and "\<And>q. q \<notin> {new, p, n} \<Longrightarrow> h' q = h q"
proof -
  have pn: "get_next h p = Inr n" "get_prev h n = Inr p" and chn: "chained h (n # vs)"
    using chained_suffix [OF ch] by auto
  have ch_us: "chained h (us @ [p])" using chained_prefix [OF ch] .
  have "h p \<noteq> None" "h n \<noteq> None" "new \<noteq> p" "new \<noteq> n"
    using pn new by (auto simp: get_next_Inr get_prev_Inr)
  with new(1) obtain h' where h': "list_add_between h new p n = Inr h'"
    and nx: "\<And>q. get_next h' q = (if q = p then Inr new else if q = new then Inr n else get_next h q)"
    and pv: "\<And>q. get_prev h' q = (if q = n then Inr new else if q = new then Inr p else get_prev h q)"
    and fr: "dom h' = dom h" "\<And>q. q \<notin> {new, p, n} \<Longrightarrow> h' q = h q"
    by (rule list_add_between_effect) blast
  have us: "p \<notin> set us" "n \<notin> set (tl (us @ [p]))" and vs: "p \<notin> set (butlast (n # vs))" "n \<notin> set vs"
    using d by (auto simp: butlast_append tl_append split: list.splits if_splits)
  have "chained h' (us @ [p])"
    using ch_us by (rule chained_cong) (use us new(2) in \<open>auto simp: nx pv tl_append split: list.splits\<close>)
  moreover have "chained h' (n # vs)"
    using chn by (rule chained_cong) (use vs new(2) in \<open>auto simp: nx pv split: if_splits dest: in_set_butlastD\<close>)
  moreover have "new \<noteq> p" "new \<noteq> n" using new(2) by auto
  ultimately have "chained h' (us @ p # new # n # vs)"
    using chained_append [of h' us p "new # n # vs"] by (simp add: nx pv)
  then show ?thesis using that h' fr by blast
qed

lemma chained_remove:
  assumes ch: "chained h (us @ p # x # n # vs)"
    and d: "distinct (butlast (us @ p # x # n # vs))" "distinct (tl (us @ p # x # n # vs))"
  obtains h' where "list_del h x = Inr h'" and "chained h' (us @ p # n # vs)"
    and "dom h' = dom h" and "\<And>q. q \<notin> {p, n} \<Longrightarrow> h' q = h q"
proof -
  have px: "get_next h x = Inr n" "get_prev h x = Inr p" "get_next h p = Inr x" "get_prev h n = Inr x"
    and chn: "chained h (n # vs)" using chained_suffix [OF ch] by auto
  have ch_us: "chained h (us @ [p])" using chained_prefix [OF ch] .
  have "h n \<noteq> None" "h p \<noteq> None" using px by (auto simp: get_next_Inr get_prev_Inr)
  with px(1,2) obtain h' where h': "list_del h x = Inr h'"
    and nx: "\<And>q. get_next h' q = (if q = p then Inr n else get_next h q)"
    and pv: "\<And>q. get_prev h' q = (if q = n then Inr p else get_prev h q)"
    and fr: "dom h' = dom h" "\<And>q. q \<notin> {p, n} \<Longrightarrow> h' q = h q"
    by (rule list_del_effect) blast
  have us: "p \<notin> set us" "n \<notin> set (tl (us @ [p]))" and vs: "p \<notin> set (butlast (n # vs))" "n \<notin> set vs"
    using d by (auto simp: butlast_append tl_append split: list.splits if_splits)
  have "chained h' (us @ [p])"
    using ch_us by (rule chained_cong) (use us in \<open>auto simp: nx pv tl_append split: list.splits\<close>)
  moreover have "chained h' (n # vs)"
    using chn by (rule chained_cong) (use vs in \<open>auto simp: nx pv split: if_splits\<close>)
  ultimately have "chained h' (us @ p # n # vs)"
    using chained_append [of h' us p "n # vs"] by (simp add: nx pv)
  then show ?thesis using that h' fr by blast
qed

lemma dlist_cycle:
  "dlist h head xs \<Longrightarrow> distinct (butlast (head # xs @ [head])) \<and> distinct (tl (head # xs @ [head]))
     \<and> chained h (head # xs @ [head])"
  by (auto simp: dlist_def butlast_append)

lemma dlist_next: "dlist h head xs \<Longrightarrow> get_next h head = Inr (hd (xs @ [head]))"
  by (cases xs) (auto simp: dlist_def)

lemma dlist_prev: "dlist h head xs \<Longrightarrow> get_prev h head = Inr (last (head # xs))"
proof -
  assume "dlist h head xs"
  then have "chained h (head # xs @ [head])" by (simp add: dlist_def)
  moreover have "head # xs @ [head] = butlast (head # xs) @ last (head # xs) # [head]"
    by (metis append_Cons append_butlast_last_id append_eq_Cons_conv append_assoc list.distinct(1))
  ultimately have "chained h (last (head # xs) # [head])"
    by (metis chained_suffix)
  then show "get_prev h head = Inr (last (head # xs))" by simp
qed

lemma dlist_add:
  assumes "dlist h head xs" and "h new \<noteq> None" and "new \<notin> set (head # xs)"
  obtains h' where "list_add h new head = Inr h'" and "dlist h' head (new # xs)"
    and "dom h' = dom h" and "\<And>q. q \<notin> set (new # head # xs) \<Longrightarrow> h' q = h q"
proof -
  obtain n vs where nvs: "xs @ [head] = n # vs" by (cases "xs @ [head]") auto
  have cyc: "head # xs @ [head] = [] @ head # n # vs" by (simp add: nvs)
  note c = dlist_cycle [OF assms(1), unfolded cyc]
  have new: "new \<notin> set ([] @ head # n # vs)" unfolding cyc [symmetric] using assms(3) by simp
  obtain h' where h': "list_add_between h new head n = Inr h'" "chained h' ([] @ head # new # n # vs)"
    "dom h' = dom h" and fr: "\<And>q. q \<notin> {new, head, n} \<Longrightarrow> h' q = h q"
    by (rule chained_insert [of h "[]" head n vs new]) (use c new assms(2) in blast)+
  have "n \<in> set (xs @ [head])" unfolding nvs by simp
  then have "\<And>q. q \<notin> set (new # head # xs) \<Longrightarrow> h' q = h q" by (intro fr) auto
  moreover have "list_add h new head = Inr h'"
    using dlist_next [OF assms(1)] nvs h'(1) by (simp add: list_add_def)
  moreover have "dlist h' head (new # xs)"
    using h'(2) assms(1,3) by (auto simp: dlist_def nvs)
  ultimately show ?thesis using that h'(3) by blast
qed

lemma dlist_add_tail:
  assumes "dlist h head xs" and "h new \<noteq> None" and "new \<notin> set (head # xs)"
  obtains h' where "list_add_tail h new head = Inr h'" and "dlist h' head (xs @ [new])"
    and "dom h' = dom h" and "\<And>q. q \<notin> set (new # head # xs) \<Longrightarrow> h' q = h q"
proof -
  obtain us p where usp: "head # xs = us @ [p]" by (cases "head # xs" rule: rev_cases) auto
  have cyc: "head # xs @ [head] = us @ p # head # []" using usp by simp
  note c = dlist_cycle [OF assms(1), unfolded cyc]
  have new: "new \<notin> set (us @ p # head # [])" unfolding cyc [symmetric] using assms(3) by simp
  obtain h' where h': "list_add_between h new p head = Inr h'" "chained h' (us @ p # new # head # [])"
    "dom h' = dom h" and fr: "\<And>q. q \<notin> {new, p, head} \<Longrightarrow> h' q = h q"
    by (rule chained_insert [of h us p head "[]" new]) (use c new assms(2) in blast)+
  have p: "p = last (head # xs)" using usp by simp
  then have "p \<in> set (head # xs)" by (metis last_in_set list.distinct(1))
  then have "\<And>q. q \<notin> set (new # head # xs) \<Longrightarrow> h' q = h q" by (intro fr) auto
  moreover have "list_add_tail h new head = Inr h'"
    using dlist_prev [OF assms(1)] p h'(1) by (simp add: list_add_tail_def)
  moreover have "dlist h' head (xs @ [new])"
  proof -
    have "us @ p # new # head # [] = head # (xs @ [new]) @ [head]"
      using usp by (metis append.assoc append_Cons append_Nil)
    with h'(2) assms(1,3) show ?thesis by (auto simp: dlist_def)
  qed
  ultimately show ?thesis using that h'(3) by blast
qed

lemma dlist_del:
  assumes "dlist h head (ys @ x # zs)"
  obtains h' where "list_del h x = Inr h'" and "dlist h' head (ys @ zs)"
    and "dom h' = dom h" and "\<And>q. q \<notin> set (head # ys @ zs) \<Longrightarrow> h' q = h q"
proof -
  obtain us p where usp: "head # ys = us @ [p]" by (cases "head # ys" rule: rev_cases) auto
  obtain n vs where nvs: "zs @ [head] = n # vs" by (cases "zs @ [head]") auto
  have app: "head # ys @ w = us @ p # w" for w using usp by (metis append.assoc append_Cons append_Nil)
  have cyc: "head # (ys @ x # zs) @ [head] = us @ p # x # n # vs"
    using app [of "x # zs @ [head]"] by (simp add: nvs)
  obtain h' where h': "list_del h x = Inr h'" "chained h' (us @ p # n # vs)"
    "dom h' = dom h" and fr: "\<And>q. q \<notin> {p, n} \<Longrightarrow> h' q = h q"
    by (rule chained_remove [of h us p x n vs]) (use dlist_cycle [OF assms, unfolded cyc] in blast)+
  have "p \<in> set (head # ys)" using usp by (metis in_set_conv_decomp)
  moreover have "n \<in> set (zs @ [head])" unfolding nvs by simp
  ultimately have "\<And>q. q \<notin> set (head # ys @ zs) \<Longrightarrow> h' q = h q" by (intro fr) auto
  moreover have "chained h' (head # ys @ zs @ [head])" using h'(2) unfolding app nvs .
  with assms have "dlist h' head (ys @ zs)" by (simp add: dlist_def)
  ultimately show ?thesis using that h'(1,3) by blast
qed

lemma dlist_node_links:
  assumes "dlist h head (ys @ x # zs)"
  shows "get_next h x = Inr (hd (zs @ [head]))" and "get_prev h x = Inr (last (head # ys))"
proof -
  have ch: "chained h ((head # ys) @ x # zs @ [head])" using assms by (simp add: dlist_def)
  show "get_next h x = Inr (hd (zs @ [head]))" using chained_suffix [OF ch] by (cases zs) auto
  have "(head # ys) @ [x] = butlast (head # ys) @ last (head # ys) # [x]"
    by (metis append.assoc append_Cons append_Nil append_butlast_last_id list.distinct(1))
  then show "get_prev h x = Inr (last (head # ys))"
    using chained_prefix [OF ch] chained_suffix [of h "butlast (head # ys)" "last (head # ys)" "[x]"] by simp
qed

lemma dlist_frame:
  "dlist h head xs \<Longrightarrow> (\<And>q. q \<in> set (head # xs) \<Longrightarrow> h' q = h q) \<Longrightarrow> dlist h' head xs"
  unfolding dlist_def
  by (auto intro!: chained_cong [of h "head # xs @ [head]"] simp: link_defs butlast_append)

lemma dlist_init:
  assumes "h head \<noteq> None"
  obtains h' where "INIT_LIST_HEAD h head = Inr h'" and "dlist h' head []"
    and "dom h' = dom h" and "\<And>q. q \<noteq> head \<Longrightarrow> h' q = h q"
proof -
  from assms obtain n where n: "h head = Some n" by auto
  let ?h' = "h(head \<mapsto> n\<lparr>lnext := head, lprev := head\<rparr>)"
  have "INIT_LIST_HEAD h head = Inr ?h'"
    using n by (simp add: INIT_LIST_HEAD_def link_defs)
  then show ?thesis
    by (rule that) (use n in \<open>auto simp: dlist_def link_defs\<close>)
qed

lemma dlist_LIST_HEAD: "dlist (LIST_HEAD h name) name []"
  by (simp add: dlist_def LIST_HEAD_def LIST_HEAD_INIT_def link_defs)

lemma dlist_entries:
  assumes "dlist h head xs" and "xs \<noteq> []"
  shows "list_first_entry h head = Inr (hd xs)" and "list_last_entry h head = Inr (last xs)"
  using dlist_next [OF assms(1)] dlist_prev [OF assms(1)] assms(2) by (simp_all add: list_first_entry_def list_last_entry_def)

lemma dlist_empty_iff: "dlist h head xs \<Longrightarrow> list_empty h head = Inr (xs = [])"
  using dlist_next [of h head xs] by (cases xs) (auto simp: list_empty_def dlist_def)

section \<open>Iteration\<close>

fun stepped :: "('p \<Rightarrow> 'p res) \<Rightarrow> 'p list \<Rightarrow> bool" where
  "stepped step (a # b # xs) \<longleftrightarrow> step a = Inr b \<and> stepped step (b # xs)"
| "stepped step _ \<longleftrightarrow> True"

lemma stepped_snoc: "stepped step (xs @ [a, b]) \<longleftrightarrow> stepped step (xs @ [a]) \<and> step a = Inr b"
  by (induction step xs rule: stepped.induct) auto

lemma chained_stepped: "chained h xs \<Longrightarrow> stepped (get_next h) xs"
  by (induction h xs rule: chained.induct) auto

lemma chained_stepped_rev: "chained h xs \<Longrightarrow> stepped (get_prev h) (rev xs)"
  by (induction h xs rule: chained.induct) (auto simp: stepped_snoc)

lemma list_walk_stepped:
  "stepped step (zs @ [head]) \<Longrightarrow> head \<notin> set zs \<Longrightarrow>
   list_walk step head body (hd (zs @ [head])) s = Some (each_until body zs s)"
proof (induction zs arbitrary: s)
  case Nil
  then show ?case by (simp add: list_walk.simps)
next
  case (Cons z zs)
  from Cons.prems have nx: "step z = Inr (hd (zs @ [head]))" and st: "stepped step (zs @ [head])"
    by (cases zs; auto)+
  have "list_walk step head body (hd (zs @ [head])) s' = Some (each_until body zs s')" for s'
    using Cons.prems st by (intro Cons.IH) auto
  with nx Cons.prems(2) show ?case
    by (auto simp: list_walk.simps [of step head body z] bindE_def split: sum.splits)
qed

text \<open>On a well-formed list the macros visit exactly the nodes of the list, in order, and return.\<close>

lemma list_for_each_dlist:
  assumes "dlist h head xs"
  shows "list_for_each h head body s = each_until body xs s"
proof -
  have "chained h (xs @ [head])"
    using assms by (cases xs) (auto simp: dlist_def)
  then have "list_walk (get_next h) head body (hd (xs @ [head])) s = Some (each_until body xs s)"
    using assms by (intro list_walk_stepped chained_stepped) (auto simp: dlist_def)
  then show ?thesis by (simp add: list_for_each_def dlist_next [OF assms])
qed

lemma list_for_each_prev_dlist:
  assumes "dlist h head xs"
  shows "list_for_each_prev h head body s = each_until body (rev xs) s"
proof -
  have "chained h (head # xs)"
    using assms chained_prefix [of h "head # butlast xs" "last xs" "[head]"]
    by (cases xs rule: rev_cases) (auto simp: dlist_def)
  then have "stepped (get_prev h) (rev xs @ [head])"
    using chained_stepped_rev [of h "head # xs"] by simp
  then have "list_walk (get_prev h) head body (hd (rev xs @ [head])) s = Some (each_until body (rev xs) s)"
    using assms by (intro list_walk_stepped) (auto simp: dlist_def)
  moreover have "hd (rev xs @ [head]) = last (head # xs)"
    by (cases xs rule: rev_cases) auto
  ultimately show ?thesis by (simp add: list_for_each_prev_def dlist_prev [OF assms])
qed

text \<open>A body that removes the nodes that satisfy \<open>P\<close> and notes them.\<close>

definition del_if :: "('p \<Rightarrow> bool) \<Rightarrow> 'p \<Rightarrow> 'p links \<times> 'p list \<Rightarrow> (('p links \<times> 'p list) \<times> unit option) res" where
  "del_if P p hs = (if P p then bindE (list_del (fst hs) p) (\<lambda>h'. Inr ((h', snd hs @ [p]), None)) else Inr (hs, None))"

lemma dlist_next_any: "dlist h head xs \<Longrightarrow> p \<in> set (head # xs) \<Longrightarrow> \<exists>q. get_next h p = Inr q"
  using dlist_nodes by (fastforce simp: get_next_Inr)

lemma dlist_prev_any: "dlist h head xs \<Longrightarrow> p \<in> set (head # xs) \<Longrightarrow> \<exists>q. get_prev h p = Inr q"
  using dlist_nodes by (fastforce simp: get_prev_Inr)

text \<open>One round of the loop at the node \<open>z\<close>.\<close>

lemma walk_safe_round:
  assumes "dlist h head (ys @ z # zs)" and "n \<in> set (head # ys @ zs)"
    and "\<And>h'. dlist h' head (if P z then ys @ zs else ys @ z # zs) \<Longrightarrow> \<exists>q. step h' n = Inr q"
  obtains h1 n1 where "dlist h1 head (if P z then ys @ zs else ys @ z # zs)" and "step h1 n = Inr n1"
    and "list_walk_safe step head (del_if P) z n (h, s) = list_walk_safe step head (del_if P) n n1 (h1, s @ (if P z then [z] else []))"
proof -
  have z: "z \<noteq> head" using assms(1) by (auto simp: dlist_def)
  obtain h1 where h1: "del_if P z (h, s) = Inr ((h1, s @ (if P z then [z] else [])), None)" "dlist h1 head (if P z then ys @ zs else ys @ z # zs)"
  proof (cases "P z")
    case True
    obtain h' where "list_del h z = Inr h'" "dlist h' head (ys @ zs)" by (rule dlist_del [OF assms(1)])
    then show ?thesis using that True by (simp add: del_if_def)
  qed (use that assms(1) in \<open>simp add: del_if_def\<close>)
  moreover obtain n1 where "step h1 n = Inr n1" using assms(3) [OF h1(2)] by blast
  ultimately show ?thesis using that z by (simp add: list_walk_safe.simps [of step head "del_if P" z])
qed

lemma walk_safe_next:
  "dlist h head (ys @ zs) \<Longrightarrow> get_next h (hd (zs @ [head])) = Inr n \<Longrightarrow>
   \<exists>h'. list_walk_safe get_next head (del_if P) (hd (zs @ [head])) n (h, s) = Some (Inr ((h', s @ filter P zs), None))
     \<and> dlist h' head (ys @ filter (\<lambda>z. \<not> P z) zs)"
proof (induction zs arbitrary: ys h n s)
  case Nil
  then show ?case by (simp add: list_walk_safe.simps [of get_next head "del_if P" head])
next
  case (Cons z zs)
  have n: "n = hd (zs @ [head])" using dlist_node_links(1) [OF Cons.prems(1)] Cons.prems(2) by simp
  then have n_in: "n \<in> set (head # ys @ zs)" by (cases zs) auto
  let ?ys = "if P z then ys else ys @ [z]" and ?s = "s @ (if P z then [z] else [])"
  have eq: "(if P z then ys @ zs else ys @ z # zs) = ?ys @ zs" by simp
  obtain h1 n1 where h1: "dlist h1 head (?ys @ zs)" "get_next h1 n = Inr n1"
    "list_walk_safe get_next head (del_if P) z n (h, s) = list_walk_safe get_next head (del_if P) n n1 (h1, ?s)"
    by (rule walk_safe_round [OF Cons.prems(1) n_in, where P = P and step = get_next and s = s, unfolded eq])
      (use n_in in \<open>auto intro!: dlist_next_any split: if_splits\<close>)
  have "get_next h1 (hd (zs @ [head])) = Inr n1" using h1(2) n by simp
  from Cons.IH [OF h1(1) this, of ?s] show ?case
    by (simp add: h1(3) n [symmetric]) (cases "P z"; simp)
qed

lemma walk_safe_prev:
  "dlist h head (zs @ ys) \<Longrightarrow> get_prev h (last (head # zs)) = Inr n \<Longrightarrow>
   \<exists>h'. list_walk_safe get_prev head (del_if P) (last (head # zs)) n (h, s) = Some (Inr ((h', s @ filter P (rev zs)), None))
     \<and> dlist h' head (filter (\<lambda>z. \<not> P z) zs @ ys)"
proof (induction zs arbitrary: ys h n s rule: rev_induct)
  case Nil
  then show ?case by (simp add: list_walk_safe.simps [of get_prev head "del_if P" head])
next
  case (snoc z zs)
  have d: "dlist h head (zs @ z # ys)" using snoc.prems(1) by simp
  have n: "n = last (head # zs)" using dlist_node_links(2) [OF d] snoc.prems(2) by simp
  then have n_in: "n \<in> set (head # zs @ ys)" by (cases zs rule: rev_cases) auto
  let ?ys = "if P z then ys else z # ys" and ?s = "s @ (if P z then [z] else [])"
  have eq: "(if P z then zs @ ys else zs @ z # ys) = zs @ ?ys" by simp
  obtain h1 n1 where h1: "dlist h1 head (zs @ ?ys)" "get_prev h1 n = Inr n1"
    "list_walk_safe get_prev head (del_if P) z n (h, s) = list_walk_safe get_prev head (del_if P) n n1 (h1, ?s)"
    by (rule walk_safe_round [OF d n_in, where P = P and step = get_prev and s = s, unfolded eq])
      (use n_in in \<open>auto intro!: dlist_prev_any split: if_splits\<close>)
  have "get_prev h1 (last (head # zs)) = Inr n1" using h1(2) n by simp
  from snoc.IH [OF h1(1) this, of ?s] show ?case
    unfolding n [symmetric] using h1(3) by (cases "P z") simp_all
qed

section \<open>Properties\<close>

definition ex_links :: "nat links" where
  "ex_links = [0 \<mapsto> \<lparr>lnext = 1, lprev = 2\<rparr>, 1 \<mapsto> \<lparr>lnext = 2, lprev = 0\<rparr>, 2 \<mapsto> \<lparr>lnext = 0, lprev = 1\<rparr>,
     3 \<mapsto> \<lparr>lnext = 0, lprev = 0\<rparr>]"

lemma ex_links_dlist: "dlist ex_links 0 [1, 2]" "ex_links 3 \<noteq> None" "3 \<notin> set [0, 1, 2 :: nat]"
  by (simp_all add: ex_links_def dlist_def link_defs)

text \<open>C31. Insertion. Whenever \<open>head\<close> heads a well-formed list and \<open>new\<close> is an allocated node outside
  it, \<open>list_add\<close> puts \<open>new\<close> in front of the list and \<open>list_add_tail\<close> behind its last node, both
  without a fault; the result is well formed again and nodes outside the list keep their links.\<close>

theorem list_add_inserts:
  assumes "dlist h head xs" and "h new \<noteq> None" and "new \<notin> set (head # xs)"
  shows "(\<exists>h'. list_add h new head = Inr h' \<and> dlist h' head (new # xs) \<and> dom h' = dom h
      \<and> (\<forall>q. q \<notin> set (new # head # xs) \<longrightarrow> h' q = h q))
    \<and> (\<exists>h'. list_add_tail h new head = Inr h' \<and> dlist h' head (xs @ [new]) \<and> dom h' = dom h
      \<and> (\<forall>q. q \<notin> set (new # head # xs) \<longrightarrow> h' q = h q))"
  using dlist_add [OF assms] dlist_add_tail [OF assms] by metis

theorem list_add_inserts_witness:
  "(\<exists>h'. list_add ex_links 3 0 = Inr h' \<and> dlist h' 0 [3, 1, 2])
   \<and> (\<exists>h'. list_add_tail ex_links 3 0 = Inr h' \<and> dlist h' 0 [1, 2, 3])"
  using list_add_inserts [OF ex_links_dlist] by auto

text \<open>Removal. \<open>list_del\<close> of a node anywhere in a well-formed list takes exactly that node out:
  the nodes before and after it stay, in their order, and the list stays well formed. The removed
  node keeps its own pointers into the list (it is not reinitialised).\<close>

theorem list_del_removes:
  assumes "dlist h head (ys @ x # zs)"
  shows "\<exists>h'. list_del h x = Inr h' \<and> dlist h' head (ys @ zs) \<and> dom h' = dom h
    \<and> get_next h' x = Inr (hd (zs @ [head])) \<and> get_prev h' x = Inr (last (head # ys))
    \<and> (\<forall>q. q \<notin> set (head # ys @ zs) \<longrightarrow> h' q = h q)"
proof -
  obtain h' where h': "list_del h x = Inr h'" "dlist h' head (ys @ zs)" "dom h' = dom h"
    and fr: "\<And>q. q \<notin> set (head # ys @ zs) \<Longrightarrow> h' q = h q"
    by (rule dlist_del [OF assms]) blast
  note dlist_node_links [OF assms]
  moreover have "h' x = h x" using assms by (intro fr) (auto simp: dlist_def)
  ultimately show ?thesis using h' fr by (auto simp: get_next_def get_prev_def)
qed

theorem list_del_removes_witness: "\<exists>h'. list_del ex_links 1 = Inr h' \<and> dlist h' 0 [2]"
  using list_del_removes [of ex_links 0 "[]" 1 "[2]"] ex_links_dlist(1) by auto

text \<open>C32. Removal while iterating. On a well-formed list a \<open>list_for_each_safe\<close> whose body deletes the nodes that satisfy \<open>P\<close>
  visits every node once, in order, deletes exactly those nodes, and ends with the well-formed list of the
  others; \<open>list_for_each_prev_safe\<close> does the same from the last node to the first.\<close>

theorem list_safe_deletes:
  assumes "dlist h head xs"
  shows "(\<exists>h'. list_for_each_safe head (del_if P) (h, []) = Inr ((h', filter P xs), None) \<and> dlist h' head (filter (\<lambda>x. \<not> P x) xs))
    \<and> (\<exists>h'. list_for_each_prev_safe head (del_if P) (h, []) = Inr ((h', filter P (rev xs)), None) \<and> dlist h' head (filter (\<lambda>x. \<not> P x) xs))"
proof
  have "hd (xs @ [head]) \<in> set (head # xs)" by (cases xs) auto
  then obtain n where n: "get_next h (hd (xs @ [head])) = Inr n" using dlist_next_any [OF assms] by blast
  then show "\<exists>h'. list_for_each_safe head (del_if P) (h, []) = Inr ((h', filter P xs), None) \<and> dlist h' head (filter (\<lambda>x. \<not> P x) xs)"
    using walk_safe_next [of h head "[]" xs n P "[]"] assms
    by (auto simp: list_for_each_safe_def dlist_next [OF assms])
  obtain m where m: "get_prev h (last (head # xs)) = Inr m" using dlist_prev_any [OF assms last_in_set] by blast
  then show "\<exists>h'. list_for_each_prev_safe head (del_if P) (h, []) = Inr ((h', filter P (rev xs)), None) \<and> dlist h' head (filter (\<lambda>x. \<not> P x) xs)"
    using walk_safe_prev [of h head xs "[]" m P "[]"] assms
    by (auto simp: list_for_each_prev_safe_def dlist_prev [OF assms] simp del: last.simps)
qed

theorem list_safe_deletes_witness:
  "\<exists>h'. list_for_each_safe 0 (del_if (\<lambda>x. x = 1)) (ex_links, []) = Inr ((h', [1]), None) \<and> dlist h' 0 [2]"
  using list_safe_deletes [OF ex_links_dlist(1), of "\<lambda>x. x = 1"] by simp

text \<open>Iteration. On a well-formed list \<open>list_for_each\<close> runs its body on every node of the list
  once, from the first to the last, until the body returns; \<open>list_for_each_prev\<close> does so from the
  last to the first. Both loops end. \<open>list_empty\<close>, \<open>list_is_first\<close> and \<open>list_is_last\<close> answer
  according to the same list.\<close>

theorem list_iteration:
  assumes "dlist h head xs"
  shows "list_for_each h head body s = each_until body xs s
    \<and> list_for_each_prev h head body s = each_until body (rev xs) s
    \<and> list_empty h head = Inr (xs = [])
    \<and> (\<forall>x \<in> set xs. list_is_first h x head = Inr (x = hd xs) \<and> list_is_last h x head = Inr (x = last xs))"
proof -
  have "list_is_first h x head = Inr (x = hd xs) \<and> list_is_last h x head = Inr (x = last xs)"
    if x: "x \<in> set xs" for x
  proof -
    from split_list [OF x] obtain ys zs where xs: "xs = ys @ x # zs" by blast
    note links = dlist_node_links [OF assms [unfolded xs]]
    have d: "distinct (head # ys @ x # zs)" using assms by (simp add: dlist_def xs)
    have "(last (head # ys) = head) = (x = hd xs)"
      using d by (cases ys) (auto simp: xs)
    moreover have "(hd (zs @ [head]) = head) = (x = last xs)"
      using d by (cases zs) (auto simp: xs)
    ultimately show ?thesis by (simp add: list_is_first_def list_is_last_def links)
  qed
  then show ?thesis
    by (simp add: list_for_each_dlist [OF assms] list_for_each_prev_dlist [OF assms]
        dlist_empty_iff [OF assms])
qed

theorem list_iteration_witness:
  "list_for_each ex_links 0 (\<lambda>p s. Inr (s @ [p], None :: unit option)) [] = Inr ([1, 2], None)
   \<and> list_for_each_prev ex_links 0 (\<lambda>p s. Inr (s @ [p], if p = 2 then Some () else None)) [] = Inr ([2], Some ())"
  using list_iteration [OF ex_links_dlist(1), of "\<lambda>p s. Inr (s @ [p], None :: unit option)" "[]"]
    list_iteration [OF ex_links_dlist(1), of "\<lambda>p s. Inr (s @ [p], if p = 2 then Some () else None)" "[]"]
  by simp

end
