(* ===== verification/Hook.thy ===== *)
theory Hook
  imports List_Head
begin

text \<open>
  The hook table of \<open>core/hook.c\<close> and \<open>include/hook.h\<close>: callbacks per layer and priority, kept in
  intrusive lists whose heads lie in the static array \<open>hooks\<close>.

  A node is the list head of a slot or the \<open>list\<close> member of a caller's \<open>struct umtp_hook\<close>; the
  hooks themselves are the caller's objects (\<open>hook_mem\<close>). A hook function may change the message
  and a world \<open>'w\<close>, but not the table. \<open>hook_rel S slots\<close> relates the table to its abstraction,
  the hooks of each slot in order.
\<close>

section \<open>State and operations\<close>

abbreviation (input) MAX_HOOK_PRIORITY :: nat where "MAX_HOOK_PRIORITY \<equiv> 3"
abbreviation (input) HOOK_MAX_LAYER :: nat where "HOOK_MAX_LAYER \<equiv> 3"

datatype hook_node = Hook_head nat nat | Hook_list nat | Hook_nil

type_synonym 'w hook_fun = "u8 list \<Rightarrow> int \<Rightarrow> bool \<Rightarrow> 'w \<Rightarrow> (int \<times> u8 list \<times> 'w) res"

record 'w umtp_hook =
  in_and_out :: bool
  priority :: int
  hook_point :: int
  hook_func :: "'w hook_fun option"

record 'w hook_state =
  hook_layer_flag :: u32
  pri_flag :: "u32 list"        \<comment> \<open>\<open>hooks[i].pri_flag\<close>\<close>
  hook_links :: "hook_node links"   \<comment> \<open>\<open>hooks[i].head[j]\<close> and the \<open>list\<close> members\<close>
  hook_mem :: "nat \<rightharpoonup> 'w umtp_hook"
  init_done :: bool

text \<open>\<open>1 << n\<close> on a 32-bit \<open>int\<close>.\<close>

definition shift_one :: "int \<Rightarrow> u32 res" where
  "shift_one n = (if 0 \<le> n \<and> n < 31 then Inr (push_bit (nat n) 1) else Inl Bad_shift)"

definition umtp_hook_init :: "'w hook_state \<Rightarrow> 'w hook_state res" where
  "umtp_hook_init S =
     bindE (foldE (\<lambda>i S.
         bindE (arr_set (pri_flag S) i 0) (\<lambda>flags.
         foldE (\<lambda>j S. bindE (INIT_LIST_HEAD (hook_links S) (Hook_head i j)) (\<lambda>h. Inr (S\<lparr>hook_links := h\<rparr>)))
           [0..<MAX_HOOK_PRIORITY] (S\<lparr>pri_flag := flags\<rparr>)))
       [0..<HOOK_MAX_LAYER] S) (\<lambda>S. Inr (S\<lparr>init_done := True\<rparr>))"

definition has_hooks :: "'w hook_state \<Rightarrow> int \<Rightarrow> bool res" where
  "has_hooks S hook_layer =
     (if hook_layer \<ge> int HOOK_MAX_LAYER then Inr False
      else bindE (shift_one hook_layer) (\<lambda>b. Inr (hook_layer_flag S AND b \<noteq> 0)))"

text \<open>The state of the loops: \<open>ret\<close> (\<open>None\<close> while it is not initialised), the message, the world.\<close>

definition hook_body ::
  "'w hook_state \<Rightarrow> int \<Rightarrow> bool \<Rightarrow> hook_node \<Rightarrow> int option \<times> u8 list \<times> 'w
   \<Rightarrow> ((int option \<times> u8 list \<times> 'w) \<times> int option) res"
where
  "hook_body S data_len dir pos st =
     (case pos of
        Hook_list a \<Rightarrow>
          (case hook_mem S a of
             None \<Rightarrow> Inl Bad_pointer
           | Some hook \<Rightarrow>
               if dir \<noteq> in_and_out hook then Inr (st, None)
               else case hook_func hook of
                 None \<Rightarrow> Inl Bad_pointer
               | Some f \<Rightarrow> bindE (f (fst (snd st)) data_len dir (snd (snd st))) (\<lambda>(ret, data, w).
                   Inr ((Some ret, data, w), if ret \<noteq> 0 then Some ret else None)))
      | _ \<Rightarrow> Inl Bad_pointer)"

fun hook_loop ::
  "'w hook_state \<Rightarrow> nat \<Rightarrow> int \<Rightarrow> bool \<Rightarrow> nat list \<Rightarrow> int option \<times> u8 list \<times> 'w
   \<Rightarrow> (int \<times> u8 list \<times> 'w) res"
where
  "hook_loop S layer data_len dir [] (ret, data, w) =
     (case ret of None \<Rightarrow> Inl Uninit | Some r \<Rightarrow> Inr (r, data, w))"
| "hook_loop S layer data_len dir (i # is) st =
     bindE (arr_get (pri_flag S) layer) (\<lambda>flag.
     bindE (shift_one (int i)) (\<lambda>b.
       if b AND flag = 0 then hook_loop S layer data_len dir is st
       else bindE (list_for_each (hook_links S) (Hook_head layer i) (hook_body S data_len dir) st) (\<lambda>(st', r).
         case r of Some ret \<Rightarrow> Inr (ret, fst (snd st'), snd (snd st'))
         | None \<Rightarrow> hook_loop S layer data_len dir is st')))"

definition umtp_do_hooks ::
  "'w hook_state \<Rightarrow> int \<Rightarrow> u8 list option \<Rightarrow> int \<Rightarrow> bool \<Rightarrow> 'w \<Rightarrow> (int \<times> u8 list option \<times> 'w) res"
where
  "umtp_do_hooks S hook_layer data data_len dir w =
     bindE (has_hooks S hook_layer) (\<lambda>has.
       if \<not> has then Inr (0, data, w)
       else case data of
         None \<Rightarrow> Inr (0, data, w)
       | Some bs \<Rightarrow>
           if data_len \<le> 0 then Inr (0, data, w)
           else bindE (hook_loop S (nat hook_layer) data_len dir [0..<MAX_HOOK_PRIORITY] (None, bs, w))
             (\<lambda>(ret, bs', w'). Inr (ret, Some bs', w')))"

fun registered_loop :: "'w hook_state \<Rightarrow> nat \<Rightarrow> nat \<Rightarrow> nat list \<Rightarrow> bool res" where
  "registered_loop S layer hook [] = Inr False"
| "registered_loop S layer hook (i # is) =
     bindE (list_for_each (hook_links S) (Hook_head layer i)
         (\<lambda>pos s. Inr (s, if pos = Hook_list hook then Some True else None)) ()) (\<lambda>(_, r).
       case r of Some b \<Rightarrow> Inr b | None \<Rightarrow> registered_loop S layer hook is)"

definition hook_is_registered :: "'w hook_state \<Rightarrow> nat \<Rightarrow> bool res" where
  "hook_is_registered S hook =
     (case hook_mem S hook of
        None \<Rightarrow> Inl Bad_pointer
      | Some hk \<Rightarrow>
          if hook_point hk < 0 \<or> hook_point hk \<ge> int HOOK_MAX_LAYER then Inl Out_of_bounds
          else registered_loop S (nat (hook_point hk)) hook [0..<MAX_HOOK_PRIORITY])"

definition hook_invalid :: "'w umtp_hook \<Rightarrow> bool" where
  "hook_invalid hk \<longleftrightarrow> priority hk > int MAX_HOOK_PRIORITY \<or> hook_point hk \<ge> int HOOK_MAX_LAYER
     \<or> hook_func hk = None"

text \<open>
  The head of the list is the first argument of \<open>list_add_tail\<close>, the node the second. A head with
  index 3 or above is outside the array \<open>head\<close>: no node of the store.
\<close>

definition umtp_hook_register :: "'w hook_state \<Rightarrow> nat option \<Rightarrow> (int \<times> 'w hook_state) res" where
  "umtp_hook_register S0 hook =
     bindE (if init_done S0 then Inr S0 else umtp_hook_init S0) (\<lambda>S.
     case hook of
       None \<Rightarrow> Inr (- EINVAL, S)
     | Some a \<Rightarrow>
         (case hook_mem S a of
            None \<Rightarrow> Inl Bad_pointer
          | Some hk \<Rightarrow>
              if hook_invalid hk then Inr (- EINVAL, S)
              else bindE (hook_is_registered S a) (\<lambda>reg.
                if reg then Inr (- EEXIST, S)
                else bindE (shift_one (hook_point hk)) (\<lambda>lb.
                     bindE (arr_get (pri_flag S) (nat (hook_point hk))) (\<lambda>flag.
                     bindE (shift_one (priority hk)) (\<lambda>pb.
                     bindE (list_add_tail (hook_links S)
                         (Hook_head (nat (hook_point hk)) (nat (priority hk))) (Hook_list a)) (\<lambda>h.
                     Inr (0, S\<lparr>hook_layer_flag := hook_layer_flag S OR lb,
                       pri_flag := (pri_flag S)[nat (hook_point hk) := flag OR pb], hook_links := h\<rparr>))))))))"

definition umtp_hook_unregister :: "'w hook_state \<Rightarrow> nat option \<Rightarrow> (int \<times> 'w hook_state) res" where
  "umtp_hook_unregister S hook =
     (case hook of
       None \<Rightarrow> Inr (- EINVAL, S)
     | Some a \<Rightarrow>
         (case hook_mem S a of
            None \<Rightarrow> Inl Bad_pointer
          | Some hk \<Rightarrow>
              if hook_invalid hk then Inr (0, S)
              else bindE (hook_is_registered S a) (\<lambda>reg.
                if \<not> reg then Inr (- ENOENT, S)
                else bindE (shift_one (hook_point hk)) (\<lambda>lb.
                     bindE (arr_get (pri_flag S) (nat (hook_point hk))) (\<lambda>flag.
                     bindE (shift_one (priority hk)) (\<lambda>pb.
                     bindE (list_del (hook_links S) (Hook_list a)) (\<lambda>h.
                     Inr (0, S\<lparr>hook_layer_flag := hook_layer_flag S AND NOT lb,
                       pri_flag := (pri_flag S)[nat (hook_point hk) := flag AND NOT pb], hook_links := h\<rparr>))))))))"

section \<open>The abstraction\<close>

type_synonym slots = "nat \<Rightarrow> nat \<Rightarrow> nat list"

definition slot_hook :: "'w hook_state \<Rightarrow> nat \<Rightarrow> nat \<Rightarrow> nat \<Rightarrow> bool" where
  "slot_hook S l p a \<longleftrightarrow> (\<exists>hk. hook_mem S a = Some hk \<and> hook_point hk = int l \<and> priority hk = int p
     \<and> hook_func hk \<noteq> None)"

definition hook_rel :: "'w hook_state \<Rightarrow> slots \<Rightarrow> bool" where
  "hook_rel S slots \<longleftrightarrow> init_done S \<and> length (pri_flag S) = HOOK_MAX_LAYER
     \<and> (\<forall>l < HOOK_MAX_LAYER. \<forall>p < MAX_HOOK_PRIORITY.
          dlist (hook_links S) (Hook_head l p) (map Hook_list (slots l p))
          \<and> (\<forall>a \<in> set (slots l p). slot_hook S l p a))"

text \<open>What \<open>umtp_do_hooks\<close> is to do with the hooks of a layer.\<close>

definition layer_hooks :: "'w hook_state \<Rightarrow> slots \<Rightarrow> nat \<Rightarrow> bool \<Rightarrow> nat list" where
  "layer_hooks S slots l dir =
     concat (map (\<lambda>p. if bit (pri_flag S ! l) p then filter (\<lambda>a. in_and_out (the (hook_mem S a)) = dir) (slots l p)
                      else []) [0..<MAX_HOOK_PRIORITY])"

fun run_hooks ::
  "'w hook_state \<Rightarrow> int \<Rightarrow> bool \<Rightarrow> nat list \<Rightarrow> int option \<times> u8 list \<times> 'w
   \<Rightarrow> ((int option \<times> u8 list \<times> 'w) \<times> int option) res"
where
  "run_hooks S len dir [] st = Inr (st, None)"
| "run_hooks S len dir (a # as) (r, data, w) =
     bindE (the (hook_func (the (hook_mem S a))) data len dir w) (\<lambda>(ret, data', w').
       if ret \<noteq> 0 then Inr ((Some ret, data', w'), Some ret) else run_hooks S len dir as (Some ret, data', w'))"

lemma run_hooks_append:
  "run_hooks S len dir (xs @ ys) st =
     bindE (run_hooks S len dir xs st) (\<lambda>(st', r). if r \<noteq> None then Inr (st', r) else run_hooks S len dir ys st')"
proof (induction S len dir xs st rule: run_hooks.induct)
  case (2 S len dir a as r data w)
  then show ?case
    by (cases "the (hook_func (the (hook_mem S a))) data len dir w") auto
qed simp

lemma shift_one_small: "n < 31 \<Longrightarrow> shift_one (int n) = Inr (2 ^ n)"
  by (simp add: shift_one_def push_bit_of_1)

lemma flag_test: "(2 ^ n AND f = 0) = (\<not> bit f n)" if "n < 32" for f :: u32
proof -
  have "2 ^ n AND f = (if bit f n then 2 ^ n else 0)"
    using that by (intro bit_word_eqI) (auto simp: bit_simps)
  moreover have "2 ^ n \<noteq> (0 :: u32)"
    using that by (simp add: exp_eq_zero_iff)
  ultimately show ?thesis by simp
qed

lemma each_until_hooks:
  assumes "\<And>a. a \<in> set as \<Longrightarrow> slot_hook S l p a"
  shows "each_until (hook_body S len dir) (map Hook_list as) st =
    run_hooks S len dir (filter (\<lambda>a. in_and_out (the (hook_mem S a)) = dir) as) st"
  using assms
proof (induction as arbitrary: st)
  case (Cons a as)
  from Cons.prems [of a] obtain hk f where hk: "hook_mem S a = Some hk" "hook_func hk = Some f"
    by (auto simp: slot_hook_def)
  obtain r data w where st: "st = (r, data, w)" by (cases st)
  show ?case
  proof (cases "in_and_out hk = dir")
    case True
    have IH: "each_until (hook_body S len dir) (map Hook_list as) st' =
        run_hooks S len dir (filter (\<lambda>a. in_and_out (the (hook_mem S a)) = dir) as) st'" for st'
      using Cons by simp
    have body: "hook_body S len dir (Hook_list a) (r, data, w) = bindE (f data len dir w) (\<lambda>(ret, data, w).
        Inr ((Some ret, data, w), if ret \<noteq> 0 then Some ret else None))"
      using hk True by (simp add: hook_body_def)
    show ?thesis
      using hk True by (cases "f data len dir w") (simp_all add: st body IH split: prod.split)
  next
    case False
    then show ?thesis using hk Cons by (simp add: hook_body_def)
  qed
qed simp

lemma hook_rel_slot:
  assumes "hook_rel S slots" and "l < HOOK_MAX_LAYER" and "p < MAX_HOOK_PRIORITY"
  shows "dlist (hook_links S) (Hook_head l p) (map Hook_list (slots l p))"
    and "a \<in> set (slots l p) \<Longrightarrow> slot_hook S l p a"
  using assms by (auto simp: hook_rel_def)

lemma hook_loop_run:
  assumes rel: "hook_rel S slots" and l: "l < HOOK_MAX_LAYER" and "\<forall>i \<in> set is. i < MAX_HOOK_PRIORITY"
  shows "hook_loop S l len dir is st =
    bindE (run_hooks S len dir (concat (map (\<lambda>p. if bit (pri_flag S ! l) p
        then filter (\<lambda>a. in_and_out (the (hook_mem S a)) = dir) (slots l p) else []) is)) st)
      (\<lambda>(st', r). case fst st' of None \<Rightarrow> Inl Uninit | Some r \<Rightarrow> Inr (r, snd st'))"
  using assms(3)
proof (induction "is" arbitrary: st)
  case Nil
  then show ?case by (cases st) (simp add: split: option.split)
next
  case (Cons i "is")
  then have i: "i < MAX_HOOK_PRIORITY" by simp
  let ?as = "filter (\<lambda>a. in_and_out (the (hook_mem S a)) = dir) (slots l i)"
  have len: "length (pri_flag S) = HOOK_MAX_LAYER" using rel by (simp add: hook_rel_def)
  have each: "list_for_each (hook_links S) (Hook_head l i) (hook_body S len dir) st = run_hooks S len dir ?as st"
    using list_for_each_dlist [OF hook_rel_slot(1) [OF rel l i]] each_until_hooks [OF hook_rel_slot(2) [OF rel l i]]
    by metis
  have ret: "run_hooks S len dir as st = Inr (st', Some v) \<Longrightarrow> fst st' = Some v" for as st st' v
    by (induction S len dir as st rule: run_hooks.induct) (auto simp: res_simps split: if_splits)
  show ?case
  proof (cases "bit (pri_flag S ! l) i")
    case False
    then show ?thesis using Cons l i len by (simp add: shift_one_small flag_test)
  next
    case True
    have "hook_loop S l len dir (i # is) st = bindE (run_hooks S len dir ?as st) (\<lambda>(st', r).
        case r of Some ret \<Rightarrow> Inr (ret, snd st') | None \<Rightarrow> hook_loop S l len dir is st')"
      using True l i len by (simp add: shift_one_small flag_test each cong: option.case_cong)
    then show ?thesis using Cons True ret [of ?as st]
      by (cases "run_hooks S len dir ?as st") (auto simp: run_hooks_append split: option.split)
  qed
qed

lemma has_hooks_bit: "l < HOOK_MAX_LAYER \<Longrightarrow> has_hooks S (int l) = Inr (bit (hook_layer_flag S) l)"
  using flag_test [of l "hook_layer_flag S"] by (simp add: has_hooks_def shift_one_small and.commute)

lemma registered_loop_slots:
  assumes rel: "hook_rel S slots" and l: "l < HOOK_MAX_LAYER" and "\<forall>i \<in> set is. i < MAX_HOOK_PRIORITY"
  shows "registered_loop S l a is = Inr (\<exists>p \<in> set is. a \<in> set (slots l p))"
  using assms(3)
proof (induction "is")
  case (Cons i "is")
  then have i: "i < MAX_HOOK_PRIORITY" by simp
  have "each_until (\<lambda>pos s. Inr (s, if pos = Hook_list a then Some True else None)) (map Hook_list as) ()
      = Inr ((), if a \<in> set as then Some True else None)" for as
    by (induction as) auto
  with Cons show ?case
    by (simp add: list_for_each_dlist [OF hook_rel_slot(1) [OF rel l i]])
qed simp

lemma hook_is_registered_slots:
  assumes rel: "hook_rel S slots" and hk: "hook_mem S a = Some hk" "hook_point hk = int l" "priority hk = int p"
    and l: "l < HOOK_MAX_LAYER" and p: "p < MAX_HOOK_PRIORITY"
  shows "hook_is_registered S a = Inr (a \<in> set (slots l p))"
proof -
  have "q \<noteq> p \<Longrightarrow> q < MAX_HOOK_PRIORITY \<Longrightarrow> a \<notin> set (slots l q)" for q
    using hook_rel_slot(2) [OF rel l, of q a] hk by (auto simp: slot_hook_def)
  then have "(\<exists>q \<in> set [0..<MAX_HOOK_PRIORITY]. a \<in> set (slots l q)) = (a \<in> set (slots l p))"
    using p by (metis atLeastLessThan_iff le0 set_upt)
  moreover have "registered_loop S l a [0..<MAX_HOOK_PRIORITY]
      = Inr (\<exists>q \<in> set [0..<MAX_HOOK_PRIORITY]. a \<in> set (slots l q))"
    by (rule registered_loop_slots [OF rel l]) simp
  moreover have "\<not> (int l < 0 \<or> int HOOK_MAX_LAYER \<le> int l)" using l by simp
  ultimately show ?thesis
    unfolding hook_is_registered_def hk(1) option.case hk(2) nat_int by simp
qed

section \<open>The operations on the abstraction\<close>

lemma INIT_LIST_HEAD_ok:
  "h p \<noteq> None \<Longrightarrow> INIT_LIST_HEAD h p = Inr (h(p \<mapsto> \<lparr>lnext = p, lprev = p\<rparr>))"
  by (cases "h p"; cases "the (h p)") (auto simp: INIT_LIST_HEAD_def link_defs)

lemma less_3: "(n :: nat) < 3 \<longleftrightarrow> n = 0 \<or> n = 1 \<or> n = 2"
  by auto

lemma upto_3: "[0..<3] = [0, 1, 2]"
  by (simp add: upt_rec)

lemma dlist_self: "h x = Some \<lparr>lnext = x, lprev = x\<rparr> \<Longrightarrow> dlist h x []"
  by (simp add: dlist_def link_defs)

lemma dlist_rotate: "dlist h x [y] \<Longrightarrow> dlist h y [x]"
  by (auto simp: dlist_def)

lemma umtp_hook_init_ok:
  assumes "length (pri_flag S) = 3" and "\<And>l p. l < 3 \<Longrightarrow> p < 3 \<Longrightarrow> hook_links S (Hook_head l p) \<noteq> None"
  obtains S' where "umtp_hook_init S = Inr S'" and "hook_rel S' (\<lambda>_ _. [])" and "pri_flag S' = [0, 0, 0]"
    and "hook_layer_flag S' = hook_layer_flag S" and "hook_mem S' = hook_mem S"
    and "\<And>a. hook_links S' (Hook_list a) = hook_links S (Hook_list a)"
proof -
  obtain x y z where f: "pri_flag S = [x, y, z]"
    using assms(1) by (auto simp: numeral_3_eq_3 length_Suc_conv)
  obtain links where init: "umtp_hook_init S = Inr (S\<lparr>pri_flag := [0, 0, 0], hook_links := links, init_done := True\<rparr>)"
    and heads: "\<And>l p. l < 3 \<Longrightarrow> p < 3 \<Longrightarrow> links (Hook_head l p) = Some \<lparr>lnext = Hook_head l p, lprev = Hook_head l p\<rparr>"
    and nodes: "\<And>a. links (Hook_list a) = hook_links S (Hook_list a)"
  proof -
    let ?up = "\<lambda>h n. h(n \<mapsto> \<lparr>lnext = n, lprev = n\<rparr>)"
    let ?links = "foldl ?up (hook_links S) (concat (map (\<lambda>l. map (Hook_head l) [0, 1, 2]) [0, 1, 2]))"
    have "umtp_hook_init S = Inr (S\<lparr>pri_flag := [0, 0, 0], hook_links := ?links, init_done := True\<rparr>)"
      using assms(2) by (simp add: umtp_hook_init_def upto_3 f INIT_LIST_HEAD_ok)
    then show ?thesis by (rule that) (auto simp: less_3)
  qed
  show ?thesis
    by (rule that [OF init]) (auto simp: hook_rel_def heads nodes intro!: dlist_self)
qed

text \<open>A change of the links that touches only one slot and nodes outside the table.\<close>

lemma hook_rel_upd:
  assumes rel: "hook_rel S slots" and lp: "l < 3" "p < 3"
    and S': "S' = S\<lparr>hook_layer_flag := f, pri_flag := fs, hook_links := h'\<rparr>" "length fs = 3"
    and as: "dlist h' (Hook_head l p) (map Hook_list as)" "\<And>a. a \<in> set as \<Longrightarrow> slot_hook S l p a"
    and fr: "\<And>q. q \<noteq> Hook_head l p \<Longrightarrow> (\<And>a. slot_hook S l p a \<Longrightarrow> q \<noteq> Hook_list a) \<Longrightarrow> h' q = hook_links S q"
  shows "hook_rel S' (slots(l := (slots l)(p := as)))"
proof -
  have slot: "slot_hook S' = slot_hook S" by (simp add: S'(1) slot_hook_def fun_eq_iff)
  have other: "dlist h' (Hook_head l' p') (map Hook_list (slots l' p'))"
    if "l' < 3" "p' < 3" "l' \<noteq> l \<or> p' \<noteq> p" for l' p'
  proof (rule dlist_frame)
    show "dlist (hook_links S) (Hook_head l' p') (map Hook_list (slots l' p'))"
      using hook_rel_slot(1) [OF rel] that by simp
    have "slot_hook S l p a \<Longrightarrow> a \<notin> set (slots l' p')" for a
      using hook_rel_slot(2) [OF rel that(1,2), of a] that(3) by (auto simp: slot_hook_def)
    then show "h' q = hook_links S q" if "q \<in> set (Hook_head l' p' # map Hook_list (slots l' p'))" for q
      using that \<open>l' \<noteq> l \<or> p' \<noteq> p\<close> by (intro fr) auto
  qed
  have flds: "init_done S'" "length (pri_flag S') = 3" "hook_links S' = h'"
    using rel by (simp_all add: S' hook_rel_def)
  show ?thesis
    unfolding hook_rel_def flds slot
    using flds(1) other as hook_rel_slot(2) [OF rel] by auto
qed

lemma umtp_hook_register_ok:
  assumes rel: "hook_rel S slots" and a: "slot_hook S l p a" and lp: "l < 3" "p < 3"
    and self: "hook_links S (Hook_list a) = Some \<lparr>lnext = Hook_list a, lprev = Hook_list a\<rparr>"
  obtains h' where "umtp_hook_register S (Some a) = Inr (0, S\<lparr>hook_layer_flag := hook_layer_flag S OR 2 ^ l,
      pri_flag := (pri_flag S)[l := (pri_flag S ! l) OR 2 ^ p], hook_links := h'\<rparr>)"
    and "dlist h' (Hook_head l p) [Hook_list a]"
    and "\<And>q. q \<noteq> Hook_head l p \<Longrightarrow> q \<noteq> Hook_list a \<Longrightarrow> h' q = hook_links S q"
proof -
  from a obtain hk where hk: "hook_mem S a = Some hk" "hook_point hk = int l" "priority hk = int p" "hook_func hk \<noteq> None"
    by (auto simp: slot_hook_def)
  have init: "init_done S" "length (pri_flag S) = 3" using rel by (simp_all add: hook_rel_def)
  have d: "dlist (hook_links S) (Hook_head l p) (map Hook_list (slots l p))" using hook_rel_slot(1) [OF rel] lp by simp
  have "a \<notin> set (slots l p)"
  proof
    assume "a \<in> set (slots l p)"
    then have "Hook_list a \<in> set (map Hook_list (slots l p))" by simp
    from split_list [OF this] obtain ys zs where yz: "map Hook_list (slots l p) = ys @ Hook_list a # zs" by blast
    from dlist_node_links(1) [OF d [unfolded yz]] d self show False unfolding yz
      by (cases zs) (auto simp: dlist_def get_next_def)
  qed
  then have reg: "hook_is_registered S a = Inr False"
    using hook_is_registered_slots [OF rel hk(1,2,3)] lp by simp
  have "hook_links S (Hook_head l p) \<noteq> None" using dlist_nodes [OF d] by simp
  then obtain h' where h': "list_add_tail (hook_links S) (Hook_head l p) (Hook_list a) = Inr h'"
    "dlist h' (Hook_list a) ([] @ [Hook_head l p])"
    and fr: "\<And>q. q \<notin> set [Hook_head l p, Hook_list a] \<Longrightarrow> h' q = hook_links S q"
    by (rule dlist_add_tail [OF dlist_self [of "hook_links S", OF self]]) simp_all
  have inv: "\<not> hook_invalid hk" using hk lp by (simp add: hook_invalid_def)
  have "umtp_hook_register S (Some a) = Inr (0, S\<lparr>hook_layer_flag := hook_layer_flag S OR 2 ^ l,
      pri_flag := (pri_flag S)[l := (pri_flag S ! l) OR 2 ^ p], hook_links := h'\<rparr>)"
    unfolding umtp_hook_register_def
    using init hk lp inv reg h'(1) by (simp add: shift_one_small)
  moreover have "dlist h' (Hook_head l p) [Hook_list a]"
    using h'(2) by (simp add: dlist_rotate)
  moreover have "\<And>q. q \<noteq> Hook_head l p \<Longrightarrow> q \<noteq> Hook_list a \<Longrightarrow> h' q = hook_links S q"
    by (rule fr) simp
  ultimately show ?thesis by (rule that)
qed

lemma umtp_hook_unregister_ok:
  assumes rel: "hook_rel S slots" and a: "a \<in> set (slots l p)" and lp: "l < 3" "p < 3"
  obtains h' where "umtp_hook_unregister S (Some a) = Inr (0, S\<lparr>hook_layer_flag := hook_layer_flag S AND NOT (2 ^ l),
      pri_flag := (pri_flag S)[l := (pri_flag S ! l) AND NOT (2 ^ p)], hook_links := h'\<rparr>)"
    and "dlist h' (Hook_head l p) (map Hook_list (remove1 a (slots l p)))"
    and "\<And>q. q \<notin> set (Hook_head l p # map Hook_list (slots l p)) \<Longrightarrow> h' q = hook_links S q"
proof -
  from hook_rel_slot(2) [OF rel, of l p a] a lp obtain hk where
    hk: "hook_mem S a = Some hk" "hook_point hk = int l" "priority hk = int p" "hook_func hk \<noteq> None"
    by (auto simp: slot_hook_def)
  have len: "length (pri_flag S) = 3" using rel by (simp add: hook_rel_def)
  have d: "dlist (hook_links S) (Hook_head l p) (map Hook_list (slots l p))" using hook_rel_slot(1) [OF rel] lp by simp
  from split_list [OF a] obtain ys zs where yz: "slots l p = ys @ a # zs" by blast
  have "a \<notin> set ys" using d by (auto simp: yz dlist_def)
  then have rem: "remove1 a (slots l p) = ys @ zs" by (simp add: yz remove1_append)
  obtain h' where h': "list_del (hook_links S) (Hook_list a) = Inr h'"
    "dlist h' (Hook_head l p) (map Hook_list ys @ map Hook_list zs)"
    and fr: "\<And>q. q \<notin> set (Hook_head l p # map Hook_list ys @ map Hook_list zs) \<Longrightarrow> h' q = hook_links S q"
    by (rule dlist_del [of "hook_links S" "Hook_head l p" "map Hook_list ys" "Hook_list a" "map Hook_list zs"])
      (use d in \<open>simp_all add: yz\<close>)
  have reg: "hook_is_registered S a = Inr True"
    using hook_is_registered_slots [OF rel hk(1,2,3)] lp a by simp
  have inv: "\<not> hook_invalid hk" using hk lp by (simp add: hook_invalid_def)
  have "umtp_hook_unregister S (Some a) = Inr (0, S\<lparr>hook_layer_flag := hook_layer_flag S AND NOT (2 ^ l),
      pri_flag := (pri_flag S)[l := (pri_flag S ! l) AND NOT (2 ^ p)], hook_links := h'\<rparr>)"
    unfolding umtp_hook_unregister_def
    using hk lp inv reg h'(1) len by (simp add: shift_one_small)
  moreover have "dlist h' (Hook_head l p) (map Hook_list (remove1 a (slots l p)))"
    using h'(2) by (simp add: rem)
  moreover have "\<And>q. q \<notin> set (Hook_head l p # map Hook_list (slots l p)) \<Longrightarrow> h' q = hook_links S q"
    by (intro fr) (auto simp: yz)
  ultimately show ?thesis by (rule that)
qed

section \<open>Properties\<close>

definition ex_hook :: "nat \<Rightarrow> bool \<Rightarrow> unit umtp_hook" where
  "ex_hook p dir = \<lparr>in_and_out = dir, priority = int p, hook_point = 1,
     hook_func = Some (\<lambda>data len d w. Inr (int p, data @ [of_nat p], w))\<rparr>"

text \<open>Hooks 0 and 1 belong to the same slot, 2 to the next priority; all heads and nodes are initialised.\<close>

definition ex_table :: "unit hook_state" where
  "ex_table = \<lparr>hook_layer_flag = 0, pri_flag = [0, 0, 0],
     hook_links = (\<lambda>n. if n = Hook_nil \<or> n = Hook_list 7 then None else Some \<lparr>lnext = n, lprev = n\<rparr>),
     hook_mem = [0 \<mapsto> ex_hook 0 True, 1 \<mapsto> ex_hook 0 True, 2 \<mapsto> ex_hook 1 True], init_done = True\<rparr>"

lemma ex_table_rel: "hook_rel ex_table (\<lambda>_ _. [])"
  by (simp add: hook_rel_def ex_table_def dlist_def link_defs)

lemma ex_table_slot: "slot_hook ex_table 1 0 0" "slot_hook ex_table 1 0 1" "slot_hook ex_table 1 1 2"
  by (simp_all add: slot_hook_def ex_table_def ex_hook_def)

text \<open>Initialisation. \<open>umtp_hook_init\<close> on a table whose heads are allocated makes every slot an
  empty list and clears the priority flags; the layer flags are kept.\<close>

theorem umtp_hook_init_empty:
  assumes "length (pri_flag S) = 3" and "\<And>l p. l < 3 \<Longrightarrow> p < 3 \<Longrightarrow> hook_links S (Hook_head l p) \<noteq> None"
  shows "\<exists>S'. umtp_hook_init S = Inr S' \<and> hook_rel S' (\<lambda>_ _. []) \<and> pri_flag S' = [0, 0, 0]
    \<and> hook_layer_flag S' = hook_layer_flag S \<and> hook_mem S' = hook_mem S"
  using umtp_hook_init_ok [OF assms] by metis

theorem umtp_hook_init_empty_witness: "\<exists>S'. umtp_hook_init ex_table = Inr S' \<and> hook_rel S' (\<lambda>_ _. [])"
  using umtp_hook_init_empty [of ex_table] by (auto simp: ex_table_def)

text \<open>C36. Registration. A valid hook with an initialised list node is registered with result 0 and the
  flags of its layer and priority are set; the table stays well formed and the other slots keep
  their hooks. Since the node is passed where \<open>list_add_tail\<close> takes the list's head, the slot then
  holds this hook alone: hooks registered there before are no longer in the table.\<close>

theorem umtp_hook_register_slot:
  assumes "hook_rel S slots" and "slot_hook S l p a" and "l < 3" and "p < 3"
    and "hook_links S (Hook_list a) = Some \<lparr>lnext = Hook_list a, lprev = Hook_list a\<rparr>"
  shows "\<exists>S'. umtp_hook_register S (Some a) = Inr (0, S') \<and> hook_rel S' (slots(l := (slots l)(p := [a])))
    \<and> bit (hook_layer_flag S') l \<and> bit (pri_flag S' ! l) p \<and> hook_mem S' = hook_mem S
    \<and> (\<forall>k. bit (hook_layer_flag S) k \<longrightarrow> bit (hook_layer_flag S') k)"
proof -
  obtain h' where r: "umtp_hook_register S (Some a) = Inr (0, S\<lparr>hook_layer_flag := hook_layer_flag S OR 2 ^ l,
      pri_flag := (pri_flag S)[l := (pri_flag S ! l) OR 2 ^ p], hook_links := h'\<rparr>)"
    and d: "dlist h' (Hook_head l p) [Hook_list a]"
    and fr: "\<And>q. q \<noteq> Hook_head l p \<Longrightarrow> q \<noteq> Hook_list a \<Longrightarrow> h' q = hook_links S q"
    by (rule umtp_hook_register_ok [OF assms]) blast
  have len: "length (pri_flag S) = 3" using assms(1) by (simp add: hook_rel_def)
  have "hook_rel (S\<lparr>hook_layer_flag := hook_layer_flag S OR 2 ^ l,
      pri_flag := (pri_flag S)[l := (pri_flag S ! l) OR 2 ^ p], hook_links := h'\<rparr>) (slots(l := (slots l)(p := [a])))"
    by (rule hook_rel_upd [OF assms(1,3,4) refl]) (use len d fr assms(2) in auto)
  with r len assms(3,4) show ?thesis by (auto simp: bit_simps)
qed

theorem umtp_hook_register_slot_witness:
  "\<exists>S S'. umtp_hook_register ex_table (Some 0) = Inr (0, S)
     \<and> umtp_hook_register S (Some 1) = Inr (0, S')
     \<and> hook_rel S' ((\<lambda>_ _. [])(1 := (\<lambda>_. [])(0 := [1])))"
proof -
  obtain h' where r: "umtp_hook_register ex_table (Some 0) = Inr (0, ex_table\<lparr>hook_layer_flag := hook_layer_flag ex_table OR 2 ^ 1,
      pri_flag := (pri_flag ex_table)[1 := (pri_flag ex_table ! 1) OR 2 ^ 0], hook_links := h'\<rparr>)"
    (is "_ = Inr (0, ?S)")
    and fr: "\<And>q. q \<noteq> Hook_head 1 0 \<Longrightarrow> q \<noteq> Hook_list 0 \<Longrightarrow> h' q = hook_links ex_table q"
    by (rule umtp_hook_register_ok [OF ex_table_rel ex_table_slot(1)]) (simp_all add: ex_table_def)
  obtain S where S: "umtp_hook_register ex_table (Some 0) = Inr (0, S)"
    and rel: "hook_rel S ((\<lambda>_ _. [])(1 := (\<lambda>_. [])(0 := [0])))" and mem: "hook_mem S = hook_mem ex_table"
    using umtp_hook_register_slot [OF ex_table_rel ex_table_slot(1)] by (auto simp: ex_table_def)
  have SS: "S = ?S" using S r by simp
  have "slot_hook S 1 0 1" using ex_table_slot(2) by (simp add: slot_hook_def mem)
  moreover have "hook_links S (Hook_list 1) = Some \<lparr>lnext = Hook_list 1, lprev = Hook_list 1\<rparr>"
    unfolding SS using fr [of "Hook_list 1"] by (simp add: ex_table_def)
  ultimately show ?thesis
    using umtp_hook_register_slot [OF rel, of 1 0 1] S by auto
qed

text \<open>C35. Running the hooks. On a well-formed table \<open>umtp_do_hooks\<close> runs, for a layer whose flag is set
  and a message of positive length, the hooks of the layer whose direction matches, in the order of
  the flagged priorities 0, 1, 2 and within one in list order, each on the message the previous one
  left, up to the first that returns nonzero; that value, or 0, is the result. If no hook of the
  layer has the direction, \<open>ret\<close> is returned without ever being set. Without the flag, or without a
  message, nothing runs and the result is 0.\<close>

theorem umtp_do_hooks_runs:
  assumes "hook_rel S slots" and "l < 3"
  shows "umtp_do_hooks S (int l) (Some bs) len dir w =
      (if \<not> bit (hook_layer_flag S) l \<or> len \<le> 0 then Inr (0, Some bs, w)
       else bindE (run_hooks S len dir (layer_hooks S slots l dir) (None, bs, w))
         (\<lambda>(st, _). case fst st of None \<Rightarrow> Inl Uninit | Some r \<Rightarrow> Inr (r, Some (fst (snd st)), snd (snd st))))
    \<and> (bit (hook_layer_flag S) l \<and> 0 < len \<and> layer_hooks S slots l dir = [] \<longrightarrow>
        umtp_do_hooks S (int l) (Some bs) len dir w = Inl Uninit)
    \<and> umtp_do_hooks S (int l) None len dir w = Inr (0, None, w)"
proof -
  have "hook_loop S l len dir [0..<3] (None, bs, w) =
    bindE (run_hooks S len dir (layer_hooks S slots l dir) (None, bs, w))
      (\<lambda>(st', r). case fst st' of None \<Rightarrow> Inl Uninit | Some r \<Rightarrow> Inr (r, snd st'))"
    unfolding layer_hooks_def by (rule hook_loop_run [OF assms]) simp
  then have "umtp_do_hooks S (int l) (Some bs) len dir w =
      (if \<not> bit (hook_layer_flag S) l \<or> len \<le> 0 then Inr (0, Some bs, w)
       else bindE (run_hooks S len dir (layer_hooks S slots l dir) (None, bs, w))
         (\<lambda>(st, _). case fst st of None \<Rightarrow> Inl Uninit | Some r \<Rightarrow> Inr (r, Some (fst (snd st)), snd (snd st))))"
    unfolding umtp_do_hooks_def has_hooks_bit [OF assms(2)]
    by (cases "run_hooks S len dir (layer_hooks S slots l dir) (None, bs, w)")
      (auto simp del: upt.simps split: option.split)
  moreover have "umtp_do_hooks S (int l) None len dir w = Inr (0, None, w)"
    by (simp add: umtp_do_hooks_def has_hooks_bit [OF assms(2)])
  ultimately show ?thesis by simp
qed

text \<open>The table with hook 0 registered, as \<open>umtp_hook_register_slot\<close> leaves it.\<close>

definition ex_one :: "unit hook_state" where
  "ex_one = ex_table\<lparr>hook_layer_flag := 2, pri_flag := [0, 1, 0],
     hook_links := (hook_links ex_table)(Hook_head 1 0 \<mapsto> \<lparr>lnext = Hook_list 0, lprev = Hook_list 0\<rparr>,
       Hook_list 0 \<mapsto> \<lparr>lnext = Hook_head 1 0, lprev = Hook_head 1 0\<rparr>)\<rparr>"

definition ex_slots :: slots where
  "ex_slots = (\<lambda>l p. if l = 1 \<and> p = 0 then [0] else [])"

lemma ex_one_rel: "hook_rel ex_one ex_slots"
  by (auto simp: hook_rel_def ex_one_def ex_table_def ex_slots_def dlist_def link_defs slot_hook_def ex_hook_def)

theorem umtp_do_hooks_runs_witness:
  "umtp_do_hooks ex_one 1 (Some [5]) 1 True () = Inr (0, Some [5, 0], ())
   \<and> umtp_do_hooks ex_one 1 (Some [5]) 1 False () = Inl Uninit
   \<and> umtp_do_hooks ex_one 0 (Some [5]) 1 True () = Inr (0, Some [5], ())"
proof -
  have flags: "bit (hook_layer_flag ex_one) 1" "\<not> bit (hook_layer_flag ex_one) 0"
    by (simp_all add: ex_one_def bit_numeral_rec bit_0)
  have "layer_hooks ex_one ex_slots 1 True = [0]" "layer_hooks ex_one ex_slots 1 False = []"
    by (simp_all add: layer_hooks_def upto_3 ex_one_def ex_table_def ex_slots_def ex_hook_def bit_1_iff)
  with umtp_do_hooks_runs [OF ex_one_rel, of 1 "[5]" 1 True "()"] umtp_do_hooks_runs [OF ex_one_rel, of 1 "[5]" 1 False "()"]
    umtp_do_hooks_runs [OF ex_one_rel, of 0 "[5]" 1 True "()"] flags
  show ?thesis by (simp add: ex_one_def ex_table_def ex_hook_def)
qed

text \<open>Unregistration takes exactly that hook out of its slot, with result 0, and keeps the table well
  formed. It also clears the flags of the layer and of the priority: afterwards \<open>umtp_do_hooks\<close> runs
  nothing on that layer, whatever hooks are still in its slots.\<close>

theorem umtp_hook_unregister_slot:
  assumes "hook_rel S slots" and "a \<in> set (slots l p)" and "l < 3" and "p < 3"
  shows "\<exists>S'. umtp_hook_unregister S (Some a) = Inr (0, S')
    \<and> hook_rel S' (slots(l := (slots l)(p := remove1 a (slots l p))))
    \<and> hook_mem S' = hook_mem S \<and> \<not> bit (pri_flag S' ! l) p
    \<and> umtp_do_hooks S' (int l) data len dir w = Inr (0, data, w)"
proof -
  obtain h' where r: "umtp_hook_unregister S (Some a) = Inr (0, S\<lparr>hook_layer_flag := hook_layer_flag S AND NOT (2 ^ l),
      pri_flag := (pri_flag S)[l := (pri_flag S ! l) AND NOT (2 ^ p)], hook_links := h'\<rparr>)" (is "_ = Inr (0, ?S)")
    and d: "dlist h' (Hook_head l p) (map Hook_list (remove1 a (slots l p)))"
    and fr: "\<And>q. q \<notin> set (Hook_head l p # map Hook_list (slots l p)) \<Longrightarrow> h' q = hook_links S q"
    by (rule umtp_hook_unregister_ok [OF assms]) blast
  have len: "length (pri_flag S) = 3" using assms(1) by (simp add: hook_rel_def)
  have slot: "b \<in> set (slots l p) \<Longrightarrow> slot_hook S l p b" for b
    using hook_rel_slot(2) [OF assms(1)] assms(3,4) by simp
  have "hook_rel ?S (slots(l := (slots l)(p := remove1 a (slots l p))))"
  proof (rule hook_rel_upd [OF assms(1,3,4) refl _ d])
    show "slot_hook S l p b" if "b \<in> set (remove1 a (slots l p))" for b
      using that slot by (meson notin_set_remove1)
    show "h' q = hook_links S q" if "q \<noteq> Hook_head l p" "\<And>b. slot_hook S l p b \<Longrightarrow> q \<noteq> Hook_list b" for q
      using that slot by (intro fr) auto
  qed (simp add: len)
  moreover have "\<not> bit (hook_layer_flag ?S) l" "\<not> bit (pri_flag ?S ! l) p"
    using assms(3,4) len by (auto simp: bit_simps)
  moreover have "umtp_do_hooks ?S (int l) data len dir w = Inr (0, data, w)"
    using has_hooks_bit [OF assms(3), of ?S] calculation(2) by (simp add: umtp_do_hooks_def)
  ultimately show ?thesis using r by auto
qed

theorem umtp_hook_unregister_slot_witness:
  "\<exists>S. umtp_hook_unregister ex_one (Some 0) = Inr (0, S) \<and> umtp_do_hooks S 1 (Some [5]) 1 True () = Inr (0, Some [5], ())"
  using umtp_hook_unregister_slot [OF ex_one_rel, of 0 1 0 "Some [5]" 1 True "()"] by (auto simp: ex_slots_def)

text \<open>The error branches. A NULL hook is refused with \<open>-EINVAL\<close>; a hook with priority above 3, a
  layer above 2 or no function is refused by \<open>umtp_hook_register\<close> with \<open>-EINVAL\<close>, but accepted
  by \<open>umtp_hook_unregister\<close> with 0 and no effect; registering a registered hook gives \<open>-EEXIST\<close>,
  unregistering one that is not gives \<open>-ENOENT\<close>; none of these changes the table. Priority 3 passes
  the check, and registering a hook with it, or one whose list node is zeroed memory, is undefined.\<close>

theorem umtp_hook_errors:
  assumes "hook_rel S slots" and "hook_mem S a = Some hk"
  shows "umtp_hook_register S None = Inr (- EINVAL, S) \<and> umtp_hook_unregister S None = Inr (- EINVAL, S)
    \<and> (hook_invalid hk \<longrightarrow> umtp_hook_register S (Some a) = Inr (- EINVAL, S)
         \<and> umtp_hook_unregister S (Some a) = Inr (0, S))
    \<and> (\<forall>l < 3. \<forall>p < 3. slot_hook S l p a \<longrightarrow>
         (if a \<in> set (slots l p) then umtp_hook_register S (Some a) = Inr (- EEXIST, S)
          else umtp_hook_unregister S (Some a) = Inr (- ENOENT, S)))
    \<and> (\<forall>l < 3. hook_point hk = int l \<and> priority hk = 3 \<and> hook_func hk \<noteq> None \<and> hook_links S (Hook_head l 3) = None
         \<longrightarrow> umtp_hook_register S (Some a) = Inl Bad_pointer)
    \<and> (\<forall>l < 3. \<forall>p < 3. slot_hook S l p a \<and> a \<notin> set (slots l p) \<and> hook_links S Hook_nil = None
         \<and> hook_links S (Hook_list a) = Some \<lparr>lnext = Hook_nil, lprev = Hook_nil\<rparr>
         \<longrightarrow> umtp_hook_register S (Some a) = Inl Bad_pointer)"
proof (intro conjI allI impI)
  have init: "init_done S" using assms(1) by (simp add: hook_rel_def)
  show "umtp_hook_register S None = Inr (- EINVAL, S)" "umtp_hook_unregister S None = Inr (- EINVAL, S)"
    by (simp_all add: umtp_hook_register_def umtp_hook_unregister_def init)
  show "umtp_hook_register S (Some a) = Inr (- EINVAL, S)" "umtp_hook_unregister S (Some a) = Inr (0, S)"
    if "hook_invalid hk"
    using that by (simp_all add: umtp_hook_register_def umtp_hook_unregister_def init assms(2))
  fix l assume l: "l < (3 :: nat)"
  note reg = hook_is_registered_slots [OF assms(1,2) _ _ l]
  show "if a \<in> set (slots l p) then umtp_hook_register S (Some a) = Inr (- EEXIST, S)
      else umtp_hook_unregister S (Some a) = Inr (- ENOENT, S)" if "p < 3" "slot_hook S l p a" for p
    using that l reg [of p] assms(2)
    by (auto simp: umtp_hook_register_def umtp_hook_unregister_def init slot_hook_def hook_invalid_def)
  show "umtp_hook_register S (Some a) = Inl Bad_pointer"
    if "hook_point hk = int l \<and> priority hk = 3 \<and> hook_func hk \<noteq> None \<and> hook_links S (Hook_head l 3) = None"
  proof -
    have "registered_loop S l a [0..<3] = Inr (\<exists>q \<in> set [0..<3]. a \<in> set (slots l q))"
      by (rule registered_loop_slots [OF assms(1) l]) simp
    moreover have "\<not> (\<exists>q \<in> set [0..<3]. a \<in> set (slots l q))"
      using hook_rel_slot(2) [OF assms(1) l, of _ a] that assms(2) by (auto simp: slot_hook_def)
    ultimately have "hook_is_registered S a = Inr False"
      using that l assms(2) by (simp add: hook_is_registered_def del: upt.simps)
    moreover have "length (pri_flag S) = 3" using assms(1) by (simp add: hook_rel_def)
    moreover have "list_add_tail (hook_links S) (Hook_head l 3) (Hook_list a) = Inl Bad_pointer"
      using that by (auto simp: list_add_tail_def list_add_between_def link_defs split: option.split)
    ultimately show ?thesis
      using that l assms(2) by (simp add: umtp_hook_register_def init hook_invalid_def shift_one_def)
  qed
  show "umtp_hook_register S (Some a) = Inl Bad_pointer"
    if "p < 3" and a: "slot_hook S l p a \<and> a \<notin> set (slots l p) \<and> hook_links S Hook_nil = None
         \<and> hook_links S (Hook_list a) = Some \<lparr>lnext = Hook_nil, lprev = Hook_nil\<rparr>" for p
  proof -
    have "length (pri_flag S) = 3" using assms(1) by (simp add: hook_rel_def)
    moreover have "list_add_tail (hook_links S) (Hook_head l p) (Hook_list a) = Inl Bad_pointer"
      using a by (auto simp: list_add_tail_def list_add_between_def link_defs split: option.split)
    ultimately show ?thesis
      using that l reg [of p] assms(2)
      by (auto simp: umtp_hook_register_def init slot_hook_def hook_invalid_def shift_one_small)
  qed
qed

theorem umtp_hook_errors_witness:
  "hook_rel ex_one ex_slots \<and> umtp_hook_register ex_one None = Inr (- EINVAL, ex_one)
   \<and> umtp_hook_register ex_one (Some 0) = Inr (- EEXIST, ex_one)
   \<and> umtp_hook_unregister ex_one (Some 1) = Inr (- ENOENT, ex_one)"
proof -
  have mem: "hook_mem ex_one 0 = Some (ex_hook 0 True)" "hook_mem ex_one 1 = Some (ex_hook 0 True)"
    and slot: "slot_hook ex_one 1 0 0" "slot_hook ex_one 1 0 1"
    by (simp_all add: ex_one_def ex_table_def slot_hook_def ex_hook_def)
  have "if 0 \<in> set (ex_slots 1 0) then umtp_hook_register ex_one (Some 0) = Inr (- EEXIST, ex_one)
      else umtp_hook_unregister ex_one (Some 0) = Inr (- ENOENT, ex_one)"
    using umtp_hook_errors [OF ex_one_rel mem(1), THEN conjunct2, THEN conjunct2, THEN conjunct2, THEN conjunct1,
        THEN spec, of 1] slot(1) by (meson one_less_numeral_iff semiring_norm(77) zero_less_numeral)
  moreover have "if 1 \<in> set (ex_slots 1 0) then umtp_hook_register ex_one (Some 1) = Inr (- EEXIST, ex_one)
      else umtp_hook_unregister ex_one (Some 1) = Inr (- ENOENT, ex_one)"
    using umtp_hook_errors [OF ex_one_rel mem(2), THEN conjunct2, THEN conjunct2, THEN conjunct2, THEN conjunct1,
        THEN spec, of 1] slot(2) by (meson one_less_numeral_iff semiring_norm(77) zero_less_numeral)
  moreover have "umtp_hook_register ex_one None = Inr (- EINVAL, ex_one)"
    using umtp_hook_errors [OF ex_one_rel mem(1)] by blast
  ultimately show ?thesis using ex_one_rel by (simp add: ex_slots_def)
qed

end
