(* ===== verification/Mem_Pool.thy ===== *)
theory Mem_Pool
  imports Umtp_Prelude
begin

text \<open>
  The memory pool of \<open>core/memory.c\<close> and \<open>include/memory.h\<close>.

  A pool is a block of \<open>blk_cnt\<close> blocks of \<open>blk_size\<close> bytes at \<open>start\<close>, handed out in ring order by
  two free-running 32-bit counters: \<open>m_head - m_tail\<close> blocks are free. Every allocation starts with
  a 16-byte descriptor whose first four bytes are the number of blocks it took, which
  \<open>memory_pool_free\<close> reads back. \<open>malloc\<close> is an argument: what it returned for the pool and for its
  block. The properties say what the accounting keeps and where the allocator does not keep its
  promises (an exhausted pool, a request that leaves no room for the descriptor, a release out of
  order, an allocation across the end of the block).
\<close>

section \<open>The structures and the block counters\<close>

record memory_blocks =
  m_buffer :: nat
  per_size :: u32
  m_count :: u32
  m_head :: u32
  m_tail :: u32

record memory_pool =
  total_size :: u64
  blk_size :: u64
  blk_cnt :: u32
  blk_used :: u32
  ref_count :: u32
  flag :: u32
  memblk :: memory_blocks
  start :: nat

abbreviation (input) sizeof_memblk_desc :: u64 where "sizeof_memblk_desc \<equiv> 16"

fun memory_block_count :: "memory_blocks option \<Rightarrow> u32" where
  "memory_block_count None = 0"
| "memory_block_count (Some m) = m_head m - m_tail m"

fun memory_block_empty :: "memory_blocks option \<Rightarrow> bool" where
  "memory_block_empty None = True"
| "memory_block_empty (Some m) = (memory_block_count (Some m) = 0)"

fun memory_block_get :: "memory_blocks option \<Rightarrow> u32 \<Rightarrow> (nat \<times> memory_blocks option) res" where
  "memory_block_get None cnt = Inr (NULL, None)"
| "memory_block_get (Some m) cnt =
     (if \<not> memory_block_empty (Some m)
      then if m_count m = 0 then Inl Div_by_zero
           else Inr (m_buffer m + unat ((m_tail m mod m_count m) * per_size m),
                     Some (m\<lparr>m_tail := m_tail m + cnt\<rparr>))
      else Inr (NULL, Some m))"

fun memory_block_put :: "memory_blocks option \<Rightarrow> u32 \<Rightarrow> memory_blocks option" where
  "memory_block_put None cnt = None"
| "memory_block_put (Some m) cnt = Some (m\<lparr>m_head := m_head m + cnt\<rparr>)"

fun memory_block_init :: "memory_blocks option \<Rightarrow> nat \<Rightarrow> u32 \<Rightarrow> u32 \<Rightarrow> memory_blocks option" where
  "memory_block_init None buf psize cnt = None"
| "memory_block_init (Some m) buf psize cnt =
     memory_block_put
       (Some (m\<lparr>m_head := 0, m_tail := 0, m_buffer := buf, per_size := psize, m_count := cnt\<rparr>)) cnt"

section \<open>Flags and alignment\<close>

abbreviation (input) MEM_POOL_EXTENSIBLE :: u32 where "MEM_POOL_EXTENSIBLE \<equiv> 2"
abbreviation (input) MEM_POOL_LIMITED :: u32 where "MEM_POOL_LIMITED \<equiv> 4"

definition mem_pool_extensible :: "u32 \<Rightarrow> bool" where
  "mem_pool_extensible f \<longleftrightarrow> f AND MEM_POOL_EXTENSIBLE \<noteq> 0"

definition mem_pool_set_extensible :: "u32 \<Rightarrow> u32" where
  "mem_pool_set_extensible f = f OR MEM_POOL_EXTENSIBLE"

definition mem_pool_limited :: "u32 \<Rightarrow> bool" where
  "mem_pool_limited f \<longleftrightarrow> f AND MEM_POOL_LIMITED \<noteq> 0"

definition mem_pool_set_limited :: "u32 \<Rightarrow> u32" where
  "mem_pool_set_limited f = f OR MEM_POOL_LIMITED"

definition mem_align :: "u64 \<Rightarrow> u64 \<Rightarrow> u64 res" where
  "mem_align msize align =
     (if msize \<le> align then Inr align
      else if align = 0 then Inl Div_by_zero
      else Inr (if msize mod align \<noteq> 0 then msize + (align - msize mod align) else msize))"

section \<open>The pool\<close>

text \<open>
  \<open>pool_ok\<close>: \<open>malloc(sizeof *p)\<close> succeeded; \<open>block\<close>: what \<open>malloc(p->total_size)\<close> returned.
  \<open>memset\<close> needs the block to be allocated.
\<close>

definition memory_pool_create ::
  "bool \<Rightarrow> nat \<Rightarrow> mem \<Rightarrow> u64 \<Rightarrow> u64 \<Rightarrow> u32 \<Rightarrow> (memory_pool option \<times> mem) res" where
  "memory_pool_create pool_ok block m tot mem_blk_size fl =
     (if \<not> pool_ok then Inr (None, m)
      else bindE (mem_align mem_blk_size sizeof_memblk_desc) (\<lambda>bsize.
           bindE (mem_align tot mem_blk_size) (\<lambda>tsize.
           if bsize = 0 then Inl Div_by_zero
           else let cnt = ucast (tsize div bsize) in
             if block = NULL then Inr (None, m)
             else bindE (store_bytes m block (replicate (unat tsize) 0)) (\<lambda>m'.
               Inr (Some \<lparr>total_size = tsize, blk_size = bsize, blk_cnt = cnt, blk_used = 0,
                 ref_count = 0, flag = fl,
                 memblk = the (memory_block_init
                   (Some \<lparr>m_buffer = 0, per_size = 0, m_count = 0, m_head = 0, m_tail = 0\<rparr>)
                   block (ucast bsize) cnt),
                 start = block\<rparr>, m')))))"

text \<open>The objects that \<open>memory_pool_destroy\<close> hands to \<open>free\<close>, in order, and whether it warns.\<close>

datatype pool_object = Pool_block nat | Pool_struct

fun memory_pool_destroy :: "memory_pool option \<Rightarrow> bool \<times> pool_object list" where
  "memory_pool_destroy None = (False, [])"
| "memory_pool_destroy (Some p) =
     (ref_count p \<noteq> 0, (if start p \<noteq> NULL then [Pool_block (start p)] else []) @ [Pool_struct])"

text \<open>
  \<open>Inl e\<close>: NULL with \<open>errno\<close> set to \<open>e\<close>; \<open>Inr a\<close>: the address. The pool and the memory come with it.
\<close>

fun memory_pool_malloc ::
  "mem \<Rightarrow> memory_pool option \<Rightarrow> u64 \<Rightarrow> ((int + nat) \<times> memory_pool option \<times> mem) res" where
  "memory_pool_malloc m None msize = Inr (Inl EINVAL, None, m)"
| "memory_pool_malloc m (Some p) msize =
     (if blk_size p = 0 then Inl Div_by_zero
      else let extra = (if msize mod blk_size p > sizeof_memblk_desc then 0 else 1 :: u32) in
        bindE (mem_align msize (blk_size p)) (\<lambda>real_size.
        let cnt = ucast (real_size div blk_size p) :: u32 in
        if cnt \<le> memory_block_count (Some (memblk p)) - extra
        then bindE (memory_block_get (Some (memblk p)) (cnt + extra)) (\<lambda>(pref, mb).
             if pref = NULL then Inl Bad_pointer
             else bindE (store_u32 m pref (cnt + extra)) (\<lambda>m'.
               Inr (Inr (pref + 16),
                 Some (p\<lparr>ref_count := ref_count p + 1, blk_used := blk_used p + (cnt + extra),
                         memblk := the mb\<rparr>), m')))
        else Inr (Inl ENOMEM, Some p, m)))"

fun memory_pool_free :: "mem \<Rightarrow> memory_pool option \<Rightarrow> nat \<Rightarrow> memory_pool option res" where
  "memory_pool_free m None ptr = Inr None"
| "memory_pool_free m (Some p) ptr =
     (if ptr = NULL then Inr (Some p)
      else if ptr < start p then Inr (Some p)
      else if ptr < 16 then Inl Bad_pointer
      else bindE (load_u32 m (ptr - 16)) (\<lambda>n.
        Inr (Some (p\<lparr>memblk := the (memory_block_put (Some (memblk p)) n),
                     blk_used := blk_used p - n, ref_count := ref_count p - 1\<rparr>))))"

text \<open>The numbers that \<open>memory_pool_info\<close> prints, in the order of its lines.\<close>

definition memory_pool_info :: "memory_pool \<Rightarrow> nat \<times> u64 \<times> u64 \<times> u64 \<times> u32 \<times> u32 \<times> u32 \<times> u32" where
  "memory_pool_info p =
     (start p, total_size p, total_size p - ucast (blk_used p) * blk_size p, blk_size p,
      blk_cnt p, blk_used p, blk_cnt p - blk_used p, ref_count p)"

text \<open>
  \<open>main\<close> of the file, a demonstration: its result, the objects that it frees, and the numbers of every
  \<open>memory_pool_info\<close>. The first three requests have no return when they fail: the pool is destroyed,
  and the code goes on with it.
\<close>

definition main_take :: "mem \<Rightarrow> memory_pool \<Rightarrow> u64 \<Rightarrow> (nat \<times> memory_pool \<times> mem) res" where
  "main_take m p msize =
     bindE (memory_pool_malloc m (Some p) msize) (\<lambda>(r, q, m1).
     case r of Inl e \<Rightarrow> Inl Bad_pointer
     | Inr ptr \<Rightarrow> bindE (store_bytes m1 ptr (map (\<lambda>c. of_char c) ''hello world'' @ [0])) (\<lambda>m2. Inr (ptr, the q, m2)))"

definition memory_main ::
  "bool \<Rightarrow> nat \<Rightarrow> mem \<Rightarrow> (int \<times> pool_object list \<times> (nat \<times> u64 \<times> u64 \<times> u64 \<times> u32 \<times> u32 \<times> u32 \<times> u32) list) res" where
  "memory_main pool_ok block m =
     bindE (memory_pool_create pool_ok block m 4096 512 0) (\<lambda>(pool, m0).
     case pool of None \<Rightarrow> Inr (- 1, [], [])
     | Some p0 \<Rightarrow>
         bindE (main_take m0 p0 1024) (\<lambda>(a, p1, m1).
         bindE (main_take m1 p1 512) (\<lambda>(b, p2, m2).
         bindE (main_take m2 p2 55) (\<lambda>(c, p3, m3).
         bindE (memory_pool_malloc m3 (Some p3) 3000) (\<lambda>(r, q, m4).
         let seen = map memory_pool_info [p0, p1, p2, p3] in
         case r of Inl e \<Rightarrow> Inr (- 1, snd (memory_pool_destroy q), seen)
         | Inr d \<Rightarrow>
             bindE (store_bytes m4 d (map (\<lambda>c. of_char c) ''hello world'' @ [0])) (\<lambda>m5.
             bindE (memory_pool_free m5 q a) (\<lambda>q1.
             bindE (memory_pool_free m5 q1 b) (\<lambda>q2.
             bindE (memory_pool_free m5 q2 c) (\<lambda>q3.
             Inr (0, snd (memory_pool_destroy q3), seen @ map (\<lambda>x. memory_pool_info (the x)) [q, q1, q2, q3]))))))))))"

section \<open>Alignment\<close>

text \<open>The number of blocks of \<open>blk\<close> bytes that hold \<open>s\<close> bytes, at least one.\<close>

definition pool_blocks :: "nat \<Rightarrow> nat \<Rightarrow> nat" where
  "pool_blocks blk s = (if s mod blk = 0 \<and> s \<noteq> 0 then s div blk else s div blk + 1)"

lemma pool_blocks_small: "0 < s \<Longrightarrow> s \<le> blk \<Longrightarrow> pool_blocks blk s = 1"
  by (cases "s = blk") (auto simp: pool_blocks_def)

lemma pool_blocks_0 [simp]: "pool_blocks blk 0 = 1"
  by (simp add: pool_blocks_def)

lemma pool_blocks_bytes:
  assumes "0 < blk"
  shows "blk * pool_blocks blk s
    = (if s = 0 then blk else if s mod blk = 0 then s else s + (blk - s mod blk))"
proof -
  have "s mod blk < blk" using assms by simp
  then have "blk * (s div blk + 1) = s + (blk - s mod blk)"
    using mult_div_mod_eq [of blk s] unfolding distrib_left by linarith
  then show ?thesis using assms by (auto simp: pool_blocks_def)
qed

lemma unat64_less: "unat (x :: u64) < 2 ^ 64"
  using unsigned_less [of x, where ?'a = nat] by simp

text \<open>The aligned size in 64 bits; rounding up wraps for a request within a block of \<open>2 ^ 64\<close>.\<close>

lemma mem_align_any:
  assumes "a \<noteq> 0"
  obtains r where "mem_align s a = Inr r" and "unat r = unat a * pool_blocks (unat a) (unat s) mod 2 ^ 64"
proof -
  have a0: "unat a > 0" using assms(1) by (simp add: unat_gt_0)
  have m: "unat (s mod a) = unat s mod unat a" by (rule unat_mod)
  note bytes = pool_blocks_bytes [OF a0, of "unat s"]
  consider "s \<le> a" | "\<not> s \<le> a" "s mod a = 0" | "\<not> s \<le> a" "s mod a \<noteq> 0" by blast
  then show ?thesis
  proof cases
    case 1
    then have "pool_blocks (unat a) (unat s) = 1"
      using pool_blocks_small [of "unat s" "unat a"]
      by (cases "s = 0") (auto simp: word_le_nat_alt unat_gt_0)
    with 1 show ?thesis using unat64_less [of a] by (intro that [of a]) (auto simp: mem_align_def)
  next
    case 2
    then have "unat s mod unat a = 0" by (metis m unat_0)
    moreover have "unat s \<noteq> 0" using 2(1) by (auto simp: unat_eq_zero)
    ultimately have "unat a * pool_blocks (unat a) (unat s) = unat s" by (simp add: bytes)
    with 2 assms(1) show ?thesis using unat64_less [of s] by (intro that [of s]) (auto simp: mem_align_def)
  next
    case 3
    let ?r = "s + (a - s mod a)"
    have pos: "unat s mod unat a > 0" "unat s mod unat a < unat a"
      using 3(2) a0 by (simp add: m [symmetric] unat_gt_0) (use a0 in simp)
    have sub: "unat (a - s mod a) = unat a - unat s mod unat a"
      using pos(2) by (simp add: unat_sub word_le_nat_alt m)
    have "unat ?r = (unat s + (unat a - unat s mod unat a)) mod 2 ^ 64"
      by (simp add: unat_word_ariths sub)
    moreover have "unat s \<noteq> 0" using pos(1) by (intro notI) simp
    ultimately have "unat ?r = unat a * pool_blocks (unat a) (unat s) mod 2 ^ 64" using pos by (simp add: bytes)
    with 3 assms(1) show ?thesis by (intro that [of ?r]) (auto simp: mem_align_def)
  qed
qed

lemma pool_blocks_less: "0 < a \<Longrightarrow> a * pool_blocks a s \<le> s + a" "0 < s \<Longrightarrow> 0 < a \<Longrightarrow> a * pool_blocks a s < s + a"
  unfolding pool_blocks_bytes by simp_all

lemma mem_align_blocks:
  assumes "a \<noteq> 0" and "unat s + unat a \<le> 2 ^ 64"
  obtains r where "mem_align s a = Inr r" and "unat r = unat a * pool_blocks (unat a) (unat s)"
proof -
  have a0: "unat a > 0" using assms(1) by (simp add: unat_gt_0)
  have "unat a * pool_blocks (unat a) (unat s) < 2 ^ 64"
    using pool_blocks_less(2) [of "unat s", OF _ a0] assms(2) unat64_less [of a] by (cases "unat s = 0") simp_all
  then show ?thesis using mem_align_any [OF assms(1), of s thesis] that by simp
qed

section \<open>Well-formed pools\<close>

text \<open>The number of blocks an allocation takes: the data blocks and perhaps one for the descriptor.\<close>

definition pool_request :: "nat \<Rightarrow> nat \<Rightarrow> nat" where
  "pool_request blk s = pool_blocks blk s + (if s mod blk > 16 then 0 else 1)"

definition pool_wf :: "mem \<Rightarrow> memory_pool \<Rightarrow> bool" where
  "pool_wf m p \<longleftrightarrow> start p \<noteq> NULL \<and> m_buffer (memblk p) = start p
     \<and> unat (per_size (memblk p)) = unat (blk_size p) \<and> 16 \<le> unat (blk_size p)
     \<and> m_count (memblk p) = blk_cnt p \<and> blk_cnt p \<noteq> 0
     \<and> unat (blk_cnt p) * unat (blk_size p) < 2 ^ 32
     \<and> mem_valid m (start p) (unat (blk_cnt p) * unat (blk_size p))"

definition pool_free_blocks :: "memory_pool \<Rightarrow> u32" where
  "pool_free_blocks p = memory_block_count (Some (memblk p))"

text \<open>The address of the block that \<open>m_tail\<close> stands at.\<close>

definition pool_next :: "memory_pool \<Rightarrow> nat" where
  "pool_next p = start p + unat (m_tail (memblk p) mod blk_cnt p) * unat (blk_size p)"

text \<open>The number of data blocks that the code computes: a \<open>uint32_t\<close>, of a size that may have wrapped.\<close>

definition pool_count :: "nat \<Rightarrow> nat \<Rightarrow> nat" where
  "pool_count blk s = (if blk * pool_blocks blk s < 2 ^ 64 then pool_blocks blk s mod 2 ^ 32 else 0)"

lemma pool_count_word:
  assumes "pool_wf m p"
  obtains r where "mem_align s (blk_size p) = Inr r"
    and "unat (ucast (r div blk_size p) :: u32) = pool_count (unat (blk_size p)) (unat s)"
proof -
  let ?a = "unat (blk_size p)" and ?n = "pool_blocks (unat (blk_size p)) (unat s)"
  have a: "blk_size p \<noteq> 0" "0 < ?a" using assms by (auto simp: pool_wf_def)
  obtain r where r: "mem_align s (blk_size p) = Inr r" "unat r = ?a * ?n mod 2 ^ 64"
    by (rule mem_align_any [OF a(1), of s])
  have "unat s < 2 ^ 64" using unat64_less [of s] by simp
  then have le: "?a * ?n < 2 ^ 64 + ?a" using pool_blocks_less(1) [OF a(2), of "unat s"] by linarith
  have "unat r div ?a = (if ?a * ?n < 2 ^ 64 then ?n else 0)"
  proof (cases "?a * ?n < 2 ^ 64")
    case False
    then have "?a * ?n mod 2 ^ 64 = ?a * ?n - 2 ^ 64" using le unat64_less [of "blk_size p"] by (simp add: le_mod_geq)
    then have "unat r < ?a" using r(2) le False by linarith
    then show ?thesis using False by simp
  qed (use r(2) a(2) in simp)
  then have "unat (r div blk_size p) = (if ?a * ?n < 2 ^ 64 then ?n else 0)" by (simp only: unat_div)
  then have "unat (ucast (r div blk_size p) :: u32) = (if ?a * ?n < 2 ^ 64 then ?n else 0) mod 2 ^ 32"
    by (simp only: unsigned_ucast_eq take_bit_eq_mod) simp
  then show ?thesis using that r(1) by (simp add: pool_count_def)
qed

lemma pool_count_small:
  assumes "0 < blk" and "s + blk \<le> 2 ^ 32" and "16 \<le> blk"
  shows "pool_count blk s = pool_blocks blk s"
proof -
  have "blk * pool_blocks blk s < 2 ^ 64" using pool_blocks_less(1) [OF assms(1), of s] assms(2) by simp
  moreover have "16 * pool_blocks blk s \<le> blk * pool_blocks blk s" using assms(3) by (rule mult_le_mono1)
  then have "16 * pool_blocks blk s \<le> 2 ^ 32" using pool_blocks_less(1) [OF assms(1), of s] assms(2) by linarith
  then have "pool_blocks blk s < 2 ^ 32" by simp
  ultimately show ?thesis by (simp add: pool_count_def)
qed

definition pool_take :: "memory_pool \<Rightarrow> nat \<Rightarrow> memory_pool" where
  "pool_take p n = p\<lparr>ref_count := ref_count p + 1, blk_used := blk_used p + of_nat n,
     memblk := (memblk p)\<lparr>m_tail := m_tail (memblk p) + of_nat n\<rparr>\<rparr>"

lemma pool_next_slot:
  assumes "pool_wf m p"
  shows "unat (m_tail (memblk p) mod blk_cnt p) < unat (blk_cnt p)"
    and "unat ((m_tail (memblk p) mod blk_cnt p) * per_size (memblk p))
      = unat (m_tail (memblk p) mod blk_cnt p) * unat (blk_size p)"
proof -
  let ?s = "m_tail (memblk p) mod blk_cnt p"
  show less: "unat ?s < unat (blk_cnt p)"
    using assms by (simp add: pool_wf_def unat_mod unat_gt_0)
  have "unat ?s * unat (blk_size p) \<le> unat (blk_cnt p) * unat (blk_size p)"
    using less by simp
  also have "\<dots> < 2 ^ 32" using assms by (simp add: pool_wf_def)
  finally show "unat (?s * per_size (memblk p)) = unat ?s * unat (blk_size p)"
    using assms by (simp add: unat_word_ariths pool_wf_def)
qed

lemma pool_next_valid: "pool_wf m p \<Longrightarrow> mem_valid m (pool_next p) 4"
  unfolding pool_next_def
proof (rule mem_valid_sub)
  assume wf: "pool_wf m p"
  then show "mem_valid m (start p) (unat (blk_cnt p) * unat (blk_size p))"
    by (simp add: pool_wf_def)
  let ?s = "unat (m_tail (memblk p) mod blk_cnt p)"
  have "Suc ?s * unat (blk_size p) \<le> unat (blk_cnt p) * unat (blk_size p)"
    using pool_next_slot(1) [OF wf] by (intro mult_le_mono1) simp
  then show "?s * unat (blk_size p) + 4 \<le> unat (blk_cnt p) * unat (blk_size p)"
    using wf by (simp add: pool_wf_def)
qed

lemma pool_next_nonnull: "pool_wf m p \<Longrightarrow> pool_next p \<noteq> NULL"
  by (simp add: pool_wf_def pool_next_def)

text \<open>The descriptor block, and a request that the code sees in full.\<close>

definition pool_extra :: "nat \<Rightarrow> nat \<Rightarrow> nat" where
  "pool_extra blk s = (if s mod blk > 16 then 0 else 1)"

lemma pool_count_request:
  assumes "pool_wf m p" and "unat s + unat (blk_size p) \<le> 2 ^ 32"
  shows "pool_count (unat (blk_size p)) (unat s) + pool_extra (unat (blk_size p)) (unat s) = pool_request (unat (blk_size p)) (unat s)"
    and "pool_count (unat (blk_size p)) (unat s) \<noteq> 0"
  using pool_count_small [of "unat (blk_size p)" "unat s"] assms
  by (simp_all add: pool_wf_def pool_extra_def pool_request_def) (auto simp: pool_blocks_def)

lemma memory_pool_malloc_any:
  fixes p s
  defines "f \<equiv> pool_free_blocks p" and "c \<equiv> pool_count (unat (blk_size p)) (unat s)"
    and "e \<equiv> pool_extra (unat (blk_size p)) (unat s)"
  assumes wf: "pool_wf m p"
  shows "memory_pool_malloc m (Some p) s =
    (if f = 0 \<and> (e = 1 \<or> c = 0) then Inl Bad_pointer
     else if c + e \<le> unat f
     then Inr (Inr (pool_next p + 16), Some (pool_take p (c + e)), mem_put m (pool_next p) (u32_bytes (of_nat (c + e))))
     else Inr (Inl ENOMEM, Some p, m))"
proof -
  obtain r where r: "mem_align s (blk_size p) = Inr r" "unat (ucast (r div blk_size p) :: u32) = c"
    unfolding c_def by (rule pool_count_word [OF wf])
  let ?c = "ucast (r div blk_size p) :: u32"
  have c: "?c = of_nat c" using r(2) by (metis of_nat_unat ucast_id)
  have extra: "(if s mod blk_size p > 16 then 0 else 1) = (of_nat e :: u32)" and e: "e = 0 \<or> e = 1"
    by (simp_all add: word_less_nat_alt unat_mod e_def pool_extra_def)
  have sum: "?c + of_nat e = of_nat (c + e)" by (simp add: c)
  have nz: "blk_size p \<noteq> 0" using wf by (auto simp: pool_wf_def)
  have eq: "memory_pool_malloc m (Some p) s =
      (if ?c \<le> f - of_nat e
       then bindE (memory_block_get (Some (memblk p)) (of_nat (c + e))) (\<lambda>(pref, mb).
             if pref = NULL then Inl Bad_pointer
             else bindE (store_u32 m pref (of_nat (c + e))) (\<lambda>m'.
               Inr (Inr (pref + 16), Some (p\<lparr>ref_count := ref_count p + 1, blk_used := blk_used p + of_nat (c + e),
                         memblk := the mb\<rparr>), m')))
       else Inr (Inl ENOMEM, Some p, m))"
    using nz by (simp only: memory_pool_malloc.simps r(1) extra Let_def bindE_Inr if_False sum f_def pool_free_blocks_def)
  show ?thesis
  proof (cases "f = 0")
    case True
    then have "memory_block_get (Some (memblk p)) n = Inr (NULL, Some (memblk p))" for n
      by (simp add: f_def pool_free_blocks_def)
    moreover have "?c \<le> f - of_nat e \<longleftrightarrow> e = 1 \<or> c = 0"
    proof (cases "e = 1")
      case False
      have "?c = 0" if "c = 0" using c unfolding that by simp
      moreover have "?c = 0 \<Longrightarrow> c = 0" unfolding r(2) [symmetric] by (simp only: unat_0)
      ultimately have "?c = 0 \<longleftrightarrow> c = 0" by blast
      moreover have "?c \<le> f - of_nat e \<longleftrightarrow> ?c = 0" using False e True by simp
      ultimately show ?thesis using False by blast
    qed (simp add: True)
    moreover have "\<not> c + e \<le> unat f" if "\<not> (e = 1 \<or> c = 0)" using that True by simp
    ultimately show ?thesis unfolding eq using True by simp
  next
    case False
    then have f: "0 < unat f" by (simp add: unat_gt_0)
    have "unat (f - of_nat e) = unat f - e" using e f by (auto simp: unat_minus_one False)
    then have guard: "?c \<le> f - of_nat e \<longleftrightarrow> c + e \<le> unat f" using r(2) e f by (auto simp: word_le_nat_alt)
    have get: "memory_block_get (Some (memblk p)) n
        = Inr (pool_next p, Some ((memblk p)\<lparr>m_tail := m_tail (memblk p) + n\<rparr>))" for n
      using wf False pool_next_slot(2) [OF wf]
      by (simp add: f_def pool_free_blocks_def pool_wf_def pool_next_def)
    show ?thesis
      unfolding eq guard get
      using False pool_next_nonnull [OF wf] store_u32_ok [OF pool_next_valid [OF wf]]
      by (simp only: bindE_Inr if_False case_prod_conv option.sel pool_take_def simp_thms)
  qed
qed

lemma memory_pool_malloc_enough:
  assumes wf: "pool_wf m p" and s: "unat s + unat (blk_size p) \<le> 2 ^ 32"
    and room: "pool_request (unat (blk_size p)) (unat s) \<le> unat (pool_free_blocks p)"
  shows "memory_pool_malloc m (Some p) s
    = Inr (Inr (pool_next p + 16), Some (pool_take p (pool_request (unat (blk_size p)) (unat s))),
        mem_put m (pool_next p) (u32_bytes (of_nat (pool_request (unat (blk_size p)) (unat s)))))"
proof -
  have "pool_free_blocks p \<noteq> 0" using room by (auto simp: pool_request_def pool_blocks_def split: if_splits)
  then show ?thesis unfolding memory_pool_malloc_any [OF wf] pool_count_request(1) [OF wf s] using room by simp
qed

lemma memory_pool_malloc_short:
  assumes wf: "pool_wf m p" and s: "unat s + unat (blk_size p) \<le> 2 ^ 32"
    and room: "unat (pool_free_blocks p) < pool_request (unat (blk_size p)) (unat s)"
  shows "memory_pool_malloc m (Some p) s
    = (if pool_free_blocks p = 0 \<and> unat s mod unat (blk_size p) \<le> 16 then Inl Bad_pointer
       else Inr (Inl ENOMEM, Some p, m))"
  unfolding memory_pool_malloc_any [OF wf] pool_count_request(1) [OF wf s]
  using room pool_count_request(2) [OF wf s] by (auto simp: pool_extra_def)

declare memory_pool_malloc.simps [simp del]

lemma memory_pool_malloc_cases:
  assumes "pool_wf m p" and "unat s + unat (blk_size p) \<le> 2 ^ 32"
  shows "memory_pool_malloc m (Some p) s =
    (if pool_request (unat (blk_size p)) (unat s) \<le> unat (pool_free_blocks p)
     then Inr (Inr (pool_next p + 16), Some (pool_take p (pool_request (unat (blk_size p)) (unat s))),
       mem_put m (pool_next p) (u32_bytes (of_nat (pool_request (unat (blk_size p)) (unat s)))))
     else if pool_free_blocks p = 0 \<and> unat s mod unat (blk_size p) \<le> 16 then Inl Bad_pointer
     else Inr (Inl ENOMEM, Some p, m))"
  using memory_pool_malloc_enough [OF assms] memory_pool_malloc_short [OF assms] by (simp add: not_le)

lemma memory_pool_malloc_n:
  assumes "pool_wf m p" and "unat s + unat (blk_size p) \<le> 2 ^ 32"
    and "pool_request (unat (blk_size p)) (unat s) = n" and "n \<le> unat (pool_free_blocks p)"
  shows "memory_pool_malloc m (Some p) s
    = Inr (Inr (pool_next p + 16), Some (pool_take p n), mem_put m (pool_next p) (u32_bytes (of_nat n)))"
  using memory_pool_malloc_enough [of m p s] assms by simp

section \<open>Runs of a pool\<close>

text \<open>
  What a client does with a pool: allocate, release (any address), and write anywhere in memory,
  descriptors included.
\<close>

datatype pool_op = Malloc u64 | Free nat | Poke nat "u8 list"

fun pool_step :: "pool_op \<Rightarrow> mem \<times> memory_pool \<Rightarrow> (mem \<times> memory_pool) res" where
  "pool_step (Malloc s) (m, p) =
     bindE (memory_pool_malloc m (Some p) s) (\<lambda>(_, p', m'). Inr (m', the p'))"
| "pool_step (Free a) (m, p) = bindE (memory_pool_free m (Some p) a) (\<lambda>p'. Inr (m, the p'))"
| "pool_step (Poke a bs) (m, p) = bindE (store_bytes m a bs) (\<lambda>m'. Inr (m', p))"

fun pool_run :: "pool_op list \<Rightarrow> mem \<times> memory_pool \<Rightarrow> (mem \<times> memory_pool) res" where
  "pool_run [] st = Inr st"
| "pool_run (x # xs) st = bindE (pool_step x st) (pool_run xs)"

definition pool_balanced :: "memory_pool \<Rightarrow> bool" where
  "pool_balanced p \<longleftrightarrow> pool_free_blocks p + blk_used p = blk_cnt p"

lemma memory_block_get_count:
  "memory_block_get (Some mb) n = Inr (pref, mb') \<Longrightarrow> pref \<noteq> NULL \<Longrightarrow>
   mb' = Some (mb\<lparr>m_tail := m_tail mb + n\<rparr>)"
  by (auto split: if_splits)

lemma pool_step_balanced:
  assumes "pool_step x (m, p) = Inr (m', p')" and "pool_balanced p"
  shows "pool_balanced p' \<and> blk_cnt p' = blk_cnt p \<and> start p' = start p"
proof (cases x)
  case (Malloc s)
  with assms show ?thesis
    by (auto simp: memory_pool_malloc.simps res_simps Let_def pool_balanced_def pool_free_blocks_def
        algebra_simps split: if_splits dest!: memory_block_get_count)
next
  case (Free a)
  with assms show ?thesis
    by (auto simp: res_simps pool_balanced_def pool_free_blocks_def algebra_simps split: if_splits)
next
  case (Poke a bs)
  with assms show ?thesis by (auto simp: res_simps)
qed

lemma pool_run_balanced:
  "pool_run xs (m, p) = Inr (m', p') \<Longrightarrow> pool_balanced p \<Longrightarrow>
   pool_balanced p' \<and> blk_cnt p' = blk_cnt p \<and> start p' = start p"
proof (induction xs arbitrary: m p)
  case (Cons x xs)
  then obtain m1 p1 where "pool_step x (m, p) = Inr (m1, p1)" "pool_run xs (m1, p1) = Inr (m', p')"
    by (auto simp: res_simps)
  with Cons pool_step_balanced show ?case by metis
qed simp

section \<open>Properties\<close>

text \<open>A pool of eight blocks of 512 bytes at address 1024, with every block free.\<close>

definition ex_pool :: memory_pool where
  "ex_pool = \<lparr>total_size = 4096, blk_size = 512, blk_cnt = 8, blk_used = 0, ref_count = 0, flag = 0,
     memblk = \<lparr>m_buffer = 1024, per_size = 512, m_count = 8, m_head = 8, m_tail = 0\<rparr>, start = 1024\<rparr>"

definition ex_pool_mem :: mem where
  "ex_pool_mem = (\<lambda>a. if 1024 \<le> a \<and> a < 5120 then Some 0 else None)"

lemma ex_pool_wf: "pool_wf ex_pool_mem ex_pool" "unat (blk_size ex_pool) = 512"
    "unat (pool_free_blocks ex_pool) = 8" "pool_next ex_pool = 1024" "pool_balanced ex_pool"
  by (simp_all add: pool_wf_def ex_pool_def ex_pool_mem_def mem_valid_def pool_free_blocks_def
      pool_next_def pool_balanced_def)

text \<open>\<open>memory_pool_create\<close> rounds the block size up to the descriptor size and the total up to
  the requested block size, and makes a well-formed pool with every block free and none in use.\<close>

theorem memory_pool_create_wf:
  assumes "bs \<noteq> 0" and "unat tot + unat bs < 2 ^ 31" and "block \<noteq> NULL"
  defines "B \<equiv> 16 * pool_blocks 16 (unat bs)" and "T \<equiv> unat bs * pool_blocks (unat bs) (unat tot)"
  assumes "B \<le> T" and "mem_valid m block T"
  shows "\<exists>p m'. memory_pool_create True block m tot bs fl = Inr (Some p, m') \<and> pool_wf m' p
    \<and> unat (blk_cnt p) = T div B \<and> unat (blk_size p) = B \<and> pool_free_blocks p = blk_cnt p
    \<and> pool_balanced p \<and> blk_used p = 0 \<and> ref_count p = 0 \<and> flag p = fl"
proof -
  obtain b where b: "mem_align bs 16 = Inr b" "unat b = B"
    by (rule mem_align_blocks [of 16 bs]) (use assms(2) in \<open>auto simp: B_def\<close>)
  obtain t where t: "mem_align tot bs = Inr t" "unat t = T"
    by (rule mem_align_blocks [of bs tot]) (use assms(1,2) in \<open>auto simp: T_def\<close>)
  have bs0: "0 < unat bs" using assms(1) by (simp add: unat_gt_0)
  have B16: "16 \<le> B" by (auto simp: B_def pool_blocks_def)
  have "T \<le> unat tot + unat bs"
    unfolding T_def pool_blocks_bytes [OF bs0] by simp
  then have T31: "T < 2 ^ 31" using assms(2) by simp
  have "T div B < 2 ^ 32" using T31 div_le_dividend [of T B] by (simp del: div_le_dividend)
  then have cnt: "unat (ucast (t div b) :: u32) = T div B"
    by (simp add: unsigned_ucast_eq unat_div b t take_bit_nat_eq_self)
  have cnt0: "T div B \<noteq> 0" using assms(6) B16 by (simp add: div_eq_0_iff)
  have bu: "unat (ucast b :: u32) = B"
    using T31 assms(6) b(2) by (simp add: unsigned_ucast_eq take_bit_nat_eq_self)
  have area: "T div B * B \<le> T" by simp
  let ?m = "mem_put m block (replicate T 0)"
  let ?p = "\<lparr>total_size = t, blk_size = b, blk_cnt = ucast (t div b), blk_used = 0, ref_count = 0,
    flag = fl, memblk = \<lparr>m_buffer = block, per_size = ucast b, m_count = ucast (t div b),
    m_head = ucast (t div b), m_tail = 0\<rparr>, start = block\<rparr>"
  have "b \<noteq> 0" using b(2) B16 by auto
  then have "memory_pool_create True block m tot bs fl = Inr (Some ?p, ?m)"
    using assms(3,7) store_bytes_ok [of m block "replicate T 0"]
    by (simp add: memory_pool_create_def b(1) t Let_def)
  moreover have "mem_valid ?m block (T div B * B)"
    using mem_valid_sub [of ?m block T 0 "T div B * B"] assms(7) area by simp
  moreover have "(ucast (t div b) :: u32) \<noteq> 0" using cnt cnt0 by (metis unat_0)
  moreover have "T div B * B < 2 ^ 32" using le_less_trans [OF area T31] by simp
  ultimately show ?thesis
    using assms(3) B16
    by (intro exI [of _ ?p] exI [of _ ?m])
      (simp add: pool_wf_def pool_free_blocks_def pool_balanced_def cnt bu b(2))
qed

theorem memory_pool_create_wf_witness:
  "\<exists>p m'. memory_pool_create True 1024 ex_pool_mem 4096 512 0 = Inr (Some p, m') \<and> pool_wf m' p
    \<and> unat (blk_cnt p) = 8"
proof -
  have "mem_valid ex_pool_mem 1024 4096" by (simp add: mem_valid_def ex_pool_mem_def)
  then show ?thesis
    using memory_pool_create_wf [of 512 4096 1024 ex_pool_mem 0]
    by (auto simp: pool_blocks_def simp del: One_nat_def)
qed



text \<open>What a granted allocation covers. The \<open>n\<close> blocks from the descriptor on have room for the
  16 bytes of the descriptor and the requested bytes exactly when the request leaves at most 16
  bytes over, or at most \<open>blk_size - 16\<close>: the code drops the descriptor block in the cases where it
  is needed most. And the blocks lie inside the pool exactly when they do not run past its last
  block: the allocator wraps the block number, not the area.\<close>

theorem memory_pool_malloc_area:
  assumes "pool_wf m p" and "unat s + unat (blk_size p) \<le> 2 ^ 32"
    and "memory_pool_malloc m (Some p) s = Inr (Inr ptr, Some p', m')"
  defines "n \<equiv> unat (blk_used p' - blk_used p)" and "B \<equiv> unat (blk_size p)"
  shows "ptr = pool_next p + 16
    \<and> (ptr + unat s \<le> pool_next p + n * B \<longleftrightarrow> unat s mod B \<le> 16 \<or> unat s mod B + 16 \<le> B)
    \<and> (pool_next p + n * B \<le> start p + unat (blk_cnt p) * B
        \<longleftrightarrow> unat (m_tail (memblk p) mod blk_cnt p) + n \<le> unat (blk_cnt p))"
proof -
  let ?r = "pool_request B (unat s)"
  have B: "16 \<le> B" "0 < B" using assms(1) by (auto simp: pool_wf_def B_def)
  from assms(3) memory_pool_malloc_cases [OF assms(1,2)]
  have fit: "?r \<le> unat (pool_free_blocks p)" and ptr: "ptr = pool_next p + 16" and p': "p' = pool_take p ?r"
    by (auto simp: B_def split: if_splits)
  have "?r < 2 ^ 32" using le_less_trans [OF fit unsigned_less] by simp
  then have n: "n = ?r" by (simp add: n_def p' pool_take_def unat_of_nat)
  have "?r * B = B * pool_blocks B (unat s) + (if unat s mod B > 16 then 0 else B)"
    by (simp add: pool_request_def algebra_simps)
  also have "\<dots> = (if unat s = 0 then B else if unat s mod B = 0 then unat s
      else unat s + (B - unat s mod B)) + (if unat s mod B > 16 then 0 else B)"
    by (simp only: pool_blocks_bytes [OF B(2)])
  finally have size: "?r * B = \<dots>" .
  have "unat s mod B < B" using B by simp
  then have "unat s + 16 \<le> ?r * B \<longleftrightarrow> unat s mod B \<le> 16 \<or> unat s mod B + 16 \<le> B"
    unfolding size using B by auto
  moreover have "(pool_next p + ?r * B \<le> start p + unat (blk_cnt p) * B)
      = ((unat (m_tail (memblk p) mod blk_cnt p) + ?r) * B \<le> unat (blk_cnt p) * B)"
    by (simp add: pool_next_def B_def algebra_simps)
  ultimately show ?thesis using B by (simp add: n ptr add_ac)
qed

text \<open>At a fresh pool of 512-byte blocks, 511 bytes are granted one block, 15 bytes too few.\<close>

theorem memory_pool_malloc_area_witness:
  "\<exists>ptr p' m'. memory_pool_malloc ex_pool_mem (Some ex_pool) 511 = Inr (Inr ptr, Some p', m')
    \<and> \<not> ptr + 511 \<le> 1024 + unat (blk_used p' - blk_used ex_pool) * 512"
proof -
  have "memory_pool_malloc ex_pool_mem (Some ex_pool) 511
      = Inr (Inr 1040, Some (pool_take ex_pool 1), mem_put ex_pool_mem 1024 (u32_bytes 1))"
    using memory_pool_malloc_n [OF ex_pool_wf(1), of 511 1]
    unfolding ex_pool_wf(2-4) by (simp add: pool_request_def pool_blocks_def)
  with memory_pool_malloc_area [OF ex_pool_wf(1) _ this] show ?thesis
    unfolding ex_pool_wf(2,4) by (auto)
qed

text \<open>Release undoes allocation: freeing the returned address, after any write into the data that
  was handed out, gives back exactly the blocks that were taken, and the counters of the pool
  (blocks free, blocks used, references) are what they were before.\<close>

theorem memory_pool_free_malloc:
  assumes "pool_wf m p" and "unat s + unat (blk_size p) \<le> 2 ^ 32"
    and "memory_pool_malloc m (Some p) s = Inr (Inr ptr, Some p', m')"
  shows "\<exists>p''. memory_pool_free (mem_put m' ptr bs) (Some p') ptr = Inr (Some p'')
    \<and> pool_free_blocks p'' = pool_free_blocks p \<and> blk_used p'' = blk_used p
    \<and> ref_count p'' = ref_count p"
proof -
  let ?n = "of_nat (pool_request (unat (blk_size p)) (unat s)) :: u32"
  from assms(3) memory_pool_malloc_cases [OF assms(1,2)]
  have eqs: "ptr = pool_next p + 16" "p' = pool_take p (pool_request (unat (blk_size p)) (unat s))"
    "m' = mem_put m (pool_next p) (u32_bytes ?n)"
    by (auto split: if_splits)
  have valid: "mem_valid (mem_put m' ptr bs) (pool_next p) 4"
    using pool_next_valid [OF assms(1)] by (simp add: eqs(3))
  have "mem_bytes (mem_put m' ptr bs) (pool_next p) 4 = u32_bytes ?n"
    using mem_bytes_put_other [of "pool_next p" 4 ptr bs m'] mem_bytes_put_same [of m "pool_next p" "u32_bytes ?n"]
    by (simp add: eqs(1,3))
  then have "load_u32 (mem_put m' ptr bs) (ptr - 16) = Inr ?n"
    using load_u32_valid [OF valid] by (simp add: eqs(1))
  moreover have "start p' \<le> ptr" by (simp add: eqs pool_take_def pool_next_def)
  ultimately show ?thesis
    by (simp add: eqs(1)) (simp add: eqs(2) pool_take_def pool_free_blocks_def)
qed

theorem memory_pool_free_malloc_witness:
  "\<exists>p' m' p''. memory_pool_malloc ex_pool_mem (Some ex_pool) 1024 = Inr (Inr 1040, Some p', m')
    \<and> memory_pool_free (mem_put m' 1040 [104, 105]) (Some p') 1040 = Inr (Some p'')
    \<and> blk_used p'' = 0"
proof -
  have m: "memory_pool_malloc ex_pool_mem (Some ex_pool) 1024
      = Inr (Inr 1040, Some (pool_take ex_pool 3), mem_put ex_pool_mem 1024 (u32_bytes 3))"
    using memory_pool_malloc_n [OF ex_pool_wf(1), of 1024 3]
    unfolding ex_pool_wf(2-4) by (simp add: pool_request_def pool_blocks_def)
  have "unat (1024 :: u64) + unat (blk_size ex_pool) \<le> 2 ^ 32" by (simp add: ex_pool_wf)
  from memory_pool_free_malloc [OF ex_pool_wf(1) this m, of "[104, 105]"] m show ?thesis
    by (auto simp: ex_pool_def simp del: memory_pool_free.simps)
qed

text \<open>The accounting balances in every run: whatever a client allocates, releases (in any order,
  even addresses that were never handed out) and writes, the free blocks and the used blocks add up
  to the blocks of the pool, so the free count that \<open>memory_pool_info\<close> prints is the real one.\<close>

theorem memory_pool_conserves:
  assumes "pool_balanced p" and "pool_run xs (m, p) = Inr (m', p')"
  shows "pool_free_blocks p' + blk_used p' = blk_cnt p
    \<and> fst (snd (snd (snd (snd (snd (snd (memory_pool_info p'))))))) = pool_free_blocks p'"
  using pool_run_balanced [OF assms(2,1)]
  by (simp add: pool_balanced_def memory_pool_info_def) (metis add_diff_cancel_right')

theorem memory_pool_conserves_witness:
  "\<exists>m' p'. pool_run [Malloc 1024, Free 1040, Free 1040] (ex_pool_mem, ex_pool) = Inr (m', p')
    \<and> pool_free_blocks p' + blk_used p' = 8"
proof -
  have m: "memory_pool_malloc ex_pool_mem (Some ex_pool) 1024
      = Inr (Inr 1040, Some (pool_take ex_pool 3), mem_put ex_pool_mem 1024 (u32_bytes 3))"
    using memory_pool_malloc_n [OF ex_pool_wf(1), of 1024 3]
    unfolding ex_pool_wf(2-4) by (simp add: pool_request_def pool_blocks_def)
  have l: "load_u32 (mem_put ex_pool_mem 1024 (u32_bytes 3)) 1024 = Inr 3"
    by (rule load_u32_put) (simp add: mem_valid_def ex_pool_mem_def)
  have "\<exists>m' p'. pool_run [Malloc 1024, Free 1040, Free 1040] (ex_pool_mem, ex_pool) = Inr (m', p')"
    using m l by (auto simp: pool_take_def ex_pool_def)
  then obtain m' p' where r: "pool_run [Malloc 1024, Free 1040, Free 1040] (ex_pool_mem, ex_pool) = Inr (m', p')"
    by blast
  have "blk_cnt ex_pool = 8" by (simp add: ex_pool_def)
  with r memory_pool_conserves [OF ex_pool_wf(5) r] show ?thesis by metis
qed

lemma main_take_ok:
  assumes "pool_wf m p" and "unat s + unat (blk_size p) \<le> 2 ^ 32"
    and "pool_request (unat (blk_size p)) (unat s) = n" and "n \<le> unat (pool_free_blocks p)" and "mem_valid m (pool_next p + 16) 12"
  obtains m' where "main_take m p s = Inr (pool_next p + 16, pool_take p n, m')" and "\<And>a k. mem_valid m a k \<Longrightarrow> mem_valid m' a k"
proof -
  let ?m = "mem_put m (pool_next p) (u32_bytes (of_nat n))" and ?bs = "map (\<lambda>c. of_char c) ''hello world'' @ [0] :: u8 list"
  have "store_bytes ?m (pool_next p + 16) ?bs = Inr (mem_put ?m (pool_next p + 16) ?bs)"
    by (intro store_bytes_ok mem_valid_put) (use assms(5) in \<open>simp add: eval_nat_numeral\<close>)
  then have "main_take m p s = Inr (pool_next p + 16, pool_take p n, mem_put ?m (pool_next p + 16) ?bs)"
    by (simp only: main_take_def memory_pool_malloc_n [OF assms(1-4)] bindE_Inr case_prod_conv sum.case option.sel)
  then show ?thesis by (rule that) simp
qed

text \<open>
  The demonstration never gets to the part that releases memory. On any allocated block of 4096 bytes the
  three first requests take 3, 2 and 1 of the eight blocks, the fourth one needs six, and \<open>main\<close> destroys the pool with three
  allocations in use and returns \<open>-1\<close>.
\<close>

lemma memory_main_stops:
  assumes "block \<noteq> NULL" and "mem_valid m block 4096"
  shows "memory_main True block m = Inr (- 1, [Pool_block block, Pool_struct],
     [(block, 4096, 4096, 512, 8, 0, 8, 0), (block, 4096, 2560, 512, 8, 3, 5, 1),
      (block, 4096, 1536, 512, 8, 5, 3, 2), (block, 4096, 1024, 512, 8, 6, 2, 3)])"
proof -
  let ?p = "\<lparr>total_size = 4096, blk_size = 512, blk_cnt = 8, blk_used = 0, ref_count = 0, flag = 0,
     memblk = \<lparr>m_buffer = block, per_size = 512, m_count = 8, m_head = 8, m_tail = 0\<rparr>, start = block\<rparr>"
  let ?m = "mem_put m block (replicate 4096 0)"
  have create: "memory_pool_create True block m 4096 512 0 = Inr (Some ?p, ?m)"
    using assms store_bytes_ok [of m block "replicate 4096 0"] by (simp add: memory_pool_create_def mem_align_def Let_def)
  let ?p1 = "pool_take ?p 3" and ?p2 = "pool_take (pool_take ?p 3) 2" and ?p3 = "pool_take (pool_take (pool_take ?p 3) 2) 1"
  have room: "mem_valid m' (k + block) 12" if "mem_valid m' block 4096" "k + 12 \<le> 4096" for m' k
    using mem_valid_sub [OF that] by (simp only: add.commute)
  have size: "unat (blk_size ?p) = 512" "unat (blk_size ?p1) = 512" "unat (blk_size ?p2) = 512" "unat (blk_size ?p3) = 512"
    and free: "unat (pool_free_blocks ?p) = 8" "unat (pool_free_blocks ?p1) = 5" "unat (pool_free_blocks ?p2) = 3" "unat (pool_free_blocks ?p3) = 2"
    and at: "pool_next ?p = block" "pool_next ?p1 = block + 1536" "pool_next ?p2 = block + 2560"
    by (simp_all add: pool_free_blocks_def pool_take_def pool_next_def)
  have req: "pool_request 512 1024 = 3" "pool_request 512 512 = 2" "pool_request 512 55 = 1" "pool_request 512 3000 = 6"
    by (simp_all add: pool_request_def pool_blocks_def)
  have wf: "pool_wf m' ?p" "pool_wf m' ?p1" "pool_wf m' ?p2" "pool_wf m' ?p3" if "mem_valid m' block 4096" for m'
    using that assms(1) by (simp_all add: pool_wf_def pool_take_def)
  have valid: "mem_valid ?m block 4096" using assms(2) by simp
  obtain m1 where m1: "main_take ?m ?p 1024 = Inr (pool_next ?p + 16, ?p1, m1)" "\<And>a k. mem_valid ?m a k \<Longrightarrow> mem_valid m1 a k"
    by (rule main_take_ok [OF wf(1) [OF valid], of 1024 3]) (use room [OF valid, of 16] in \<open>simp_all add: size free at req add.commute [of block]\<close>)
  have valid1: "mem_valid m1 block 4096" using m1(2) valid .
  obtain m2 where m2: "main_take m1 ?p1 512 = Inr (pool_next ?p1 + 16, ?p2, m2)" "\<And>a k. mem_valid m1 a k \<Longrightarrow> mem_valid m2 a k"
    by (rule main_take_ok [OF wf(2) [OF valid1], of 512 2]) (use room [OF valid1, of 1552] in \<open>simp_all add: size free at req\<close>)
  have valid2: "mem_valid m2 block 4096" using m2(2) valid1 .
  obtain m3 where m3: "main_take m2 ?p2 55 = Inr (pool_next ?p2 + 16, ?p3, m3)" "\<And>a k. mem_valid m2 a k \<Longrightarrow> mem_valid m3 a k"
    by (rule main_take_ok [OF wf(3) [OF valid2], of 55 1]) (use room [OF valid2, of 2576] in \<open>simp_all add: size free at req\<close>)
  have valid3: "mem_valid m3 block 4096" using m3(2) valid2 .
  have "memory_pool_malloc m3 (Some ?p3) 3000 = Inr (Inl ENOMEM, Some ?p3, m3)"
    by (subst memory_pool_malloc_short [OF wf(4) [OF valid3]]) (simp_all add: size free req del: One_nat_def)
  then show ?thesis
    using create m1(1) m2(1) m3(1) assms(1)
    by (simp add: memory_main_def Let_def memory_pool_info_def) (simp add: pool_take_def)
qed

text \<open>Releases out of allocation order hand out memory that is still in use: with two live
  allocations that fill the pool, releasing the newer one and allocating again returns the address
  of the older one.\<close>

theorem memory_pool_release_order:
  "\<exists>p1 m1 p2 m2 p3 p4 m4.
     memory_pool_malloc ex_pool_mem (Some ex_pool) 512 = Inr (Inr 1040, Some p1, m1)
   \<and> memory_pool_malloc m1 (Some p1) 3000 = Inr (Inr 2064, Some p2, m2)
   \<and> memory_pool_free m2 (Some p2) 2064 = Inr (Some p3)
   \<and> memory_pool_malloc m2 (Some p3) 512 = Inr (Inr 1040, Some p4, m4)"
proof -
  let ?m1 = "mem_put ex_pool_mem 1024 (u32_bytes 2)"
  let ?m2 = "mem_put ?m1 2048 (u32_bytes 6)"
  let ?p1 = "pool_take ex_pool 2"
  let ?p2 = "pool_take ?p1 6"
  let ?p3 = "?p2\<lparr>memblk := (memblk ?p2)\<lparr>m_head := 14\<rparr>, blk_used := 2, ref_count := 1\<rparr>"
  have wf: "pool_wf ?m1 ?p1" "pool_wf ?m2 ?p3" "unat (blk_size ?p1) = 512" "unat (blk_size ?p3) = 512"
    "unat (pool_free_blocks ?p1) = 6" "unat (pool_free_blocks ?p3) = 6" "pool_next ?p1 = 2048"
    "pool_next ?p3 = 1024"
    by (simp_all add: pool_take_def pool_wf_def ex_pool_def ex_pool_mem_def mem_valid_def
        pool_free_blocks_def pool_next_def mem_put_def)
  have "memory_pool_malloc ex_pool_mem (Some ex_pool) 512 = Inr (Inr 1040, Some ?p1, ?m1)"
    using memory_pool_malloc_n [OF ex_pool_wf(1), of 512 2]
    unfolding ex_pool_wf(2-4) by (simp add: pool_request_def pool_blocks_def)
  moreover have "memory_pool_malloc ?m1 (Some ?p1) 3000 = Inr (Inr 2064, Some ?p2, ?m2)"
    using memory_pool_malloc_n [OF wf(1), of 3000 6]
    unfolding wf by (simp add: pool_request_def pool_blocks_def)
  moreover have "load_u32 ?m2 2048 = Inr 6"
    by (rule load_u32_put) (simp add: mem_valid_def ex_pool_mem_def mem_put_def)
  then have "memory_pool_free ?m2 (Some ?p2) 2064 = Inr (Some ?p3)"
    by (simp add: pool_take_def ex_pool_def)
  moreover have "\<exists>p4 m4. memory_pool_malloc ?m2 (Some ?p3) 512 = Inr (Inr 1040, Some p4, m4)"
    using memory_pool_malloc_n [OF wf(2), of 512 2]
    unfolding wf by (simp add: pool_request_def pool_blocks_def)
  ultimately show ?thesis by blast
qed

end
