(* ===== verification/Ringbuf.thy ===== *)
theory Ringbuf
  imports Umtp_Prelude
begin

text \<open>
  The ring buffer of \<open>core/ringbuf.c\<close> and \<open>include/ringbuf.h\<close>.

  \<open>head\<close> and \<open>tail\<close> are free-running 32-bit counters that wrap; a slot number is a counter modulo
  \<open>element_count\<close>. The pointer \<open>buffer\<close> is an address of the byte memory, NULL is address 0, and a
  NULL ring is \<open>None\<close>. The first part translates the functions; the second states the contract of
  the slot bookkeeping as the locale \<open>slot_queue\<close> (and \<open>slot_deque\<close> for insertion in front), proves
  the queue laws once inside it, and interprets both on the functions; the third lifts the
  contract to the bytes that \<open>ringbuf_put\<close>, \<open>ringbuf_put_front\<close> and \<open>ringbuf_pop\<close> copy.
\<close>

section \<open>The structure and its functions\<close>

record ring_buffer =
  buffer :: nat
  element_size :: u32
  element_count :: u32
  head :: u32
  tail :: u32

fun ringbuf_count :: "ring_buffer option \<Rightarrow> u32" where
  "ringbuf_count None = 0"
| "ringbuf_count (Some b) = head b - tail b"

fun ringbuf_full :: "ring_buffer option \<Rightarrow> bool" where
  "ringbuf_full None = True"
| "ringbuf_full (Some b) = (ringbuf_count (Some b) = element_count b)"

fun ringbuf_empty :: "ring_buffer option \<Rightarrow> bool" where
  "ringbuf_empty None = True"
| "ringbuf_empty (Some b) = (ringbuf_count (Some b) = 0)"

text \<open>
  \<open>b->buffer + (counter % b->element_count) * b->element_size\<close>: the modulo and the product are
  on \<open>unsigned\<close>, the sum is on a pointer.
\<close>

definition ring_data :: "ring_buffer \<Rightarrow> u32 \<Rightarrow> nat res" where
  "ring_data b counter =
     (if element_count b = 0 then Inl Div_by_zero
      else Inr (buffer b + unat ((counter mod element_count b) * element_size b)))"

fun ringbuf_peek :: "ring_buffer option \<Rightarrow> nat res" where
  "ringbuf_peek None = Inr NULL"
| "ringbuf_peek (Some b) =
     (if \<not> ringbuf_empty (Some b) then ring_data b (tail b) else Inr NULL)"

text \<open>The result is the return value, the ring and the memory after the call.\<close>

fun ringbuf_pop ::
  "mem \<Rightarrow> ring_buffer option \<Rightarrow> nat \<Rightarrow> (bool \<times> ring_buffer option \<times> mem) res" where
  "ringbuf_pop m None data_element = Inr (False, None, m)"
| "ringbuf_pop m (Some b) data_element =
     (if \<not> ringbuf_empty (Some b)
      then bindE (ring_data b (tail b)) (\<lambda>p.
           bindE (if data_element \<noteq> NULL then copy_loop m data_element p (unat (element_size b))
                  else Inr m) (\<lambda>m'.
           Inr (True, Some (b\<lparr>tail := tail b + 1\<rparr>), m')))
      else Inr (False, Some b, m))"

fun ringbuf_put ::
  "mem \<Rightarrow> ring_buffer option \<Rightarrow> nat \<Rightarrow> (bool \<times> ring_buffer option \<times> mem) res" where
  "ringbuf_put m None data_element = Inr (False, None, m)"
| "ringbuf_put m (Some b) data_element =
     (if data_element \<noteq> NULL \<and> \<not> ringbuf_full (Some b)
      then bindE (ring_data b (head b)) (\<lambda>p.
           bindE (copy_loop m p data_element (unat (element_size b))) (\<lambda>m'.
           Inr (True, Some (b\<lparr>head := head b + 1\<rparr>), m')))
      else Inr (False, Some b, m))"

fun ringbuf_put_front ::
  "mem \<Rightarrow> ring_buffer option \<Rightarrow> nat \<Rightarrow> (bool \<times> ring_buffer option \<times> mem) res" where
  "ringbuf_put_front m None data_element = Inr (False, None, m)"
| "ringbuf_put_front m (Some b) data_element =
     (if data_element \<noteq> NULL \<and> \<not> ringbuf_full (Some b)
      then let b' = b\<lparr>tail := tail b - 1\<rparr> in
           bindE (ring_data b' (tail b')) (\<lambda>p.
           bindE (copy_loop m p data_element (unat (element_size b'))) (\<lambda>m'.
           Inr (True, Some b', m')))
      else Inr (False, Some b, m))"

fun ringbuf_data_peek :: "ring_buffer option \<Rightarrow> nat res" where
  "ringbuf_data_peek None = Inr NULL"
| "ringbuf_data_peek (Some b) =
     (if \<not> ringbuf_full (Some b) then ring_data b (head b) else Inr NULL)"

fun ringbuf_data_put :: "ring_buffer option \<Rightarrow> nat \<Rightarrow> (bool \<times> ring_buffer option) res" where
  "ringbuf_data_put None data_element = Inr (False, None)"
| "ringbuf_data_put (Some b) data_element =
     (if \<not> ringbuf_full (Some b)
      then bindE (ring_data b (head b)) (\<lambda>p.
           if p = data_element then Inr (True, Some (b\<lparr>head := head b + 1\<rparr>))
           else Inr (False, Some b))
      else Inr (False, Some b))"

fun ringbuf_init :: "ring_buffer option \<Rightarrow> nat \<Rightarrow> u32 \<Rightarrow> u32 \<Rightarrow> ring_buffer option" where
  "ringbuf_init None buf esize cnt = None"
| "ringbuf_init (Some b) buf esize cnt =
     Some (b\<lparr>head := 0, tail := 0, buffer := buf, element_size := esize, element_count := cnt\<rparr>)"

section \<open>The contract of the slot bookkeeping\<close>

text \<open>
  A producer asks for the slot to write (\<open>wslot\<close>), fills it and commits; a consumer reads \<open>rslot\<close>
  and releases it. \<open>slots s\<close> lists the slots in use, oldest first. A client keeps an array of
  contents \<open>a\<close> beside the bookkeeping; \<open>content a s\<close> is the queue it represents.
\<close>

locale slot_queue =
  fixes inv :: "'s \<Rightarrow> bool"
    and slots :: "'s \<Rightarrow> nat list"
    and capacity :: "'s \<Rightarrow> nat"
    and is_empty :: "'s \<Rightarrow> bool"
    and is_full :: "'s \<Rightarrow> bool"
    and wslot :: "'s \<Rightarrow> nat"
    and rslot :: "'s \<Rightarrow> nat"
    and commit :: "'s \<Rightarrow> 's"
    and release :: "'s \<Rightarrow> 's"
  assumes slots_distinct: "inv s \<Longrightarrow> distinct (slots s)"
    and slots_bound: "inv s \<Longrightarrow> set (slots s) \<subseteq> {..<capacity s}"
    and is_empty_iff: "inv s \<Longrightarrow> is_empty s \<longleftrightarrow> slots s = []"
    and is_full_iff: "inv s \<Longrightarrow> is_full s \<longleftrightarrow> length (slots s) = capacity s"
    and inv_commit: "inv s \<Longrightarrow> \<not> is_full s \<Longrightarrow> inv (commit s)"
    and slots_commit: "inv s \<Longrightarrow> \<not> is_full s \<Longrightarrow> slots (commit s) = slots s @ [wslot s]"
    and capacity_commit: "capacity (commit s) = capacity s"
    and inv_release: "inv s \<Longrightarrow> \<not> is_empty s \<Longrightarrow> inv (release s)"
    and slots_release: "inv s \<Longrightarrow> \<not> is_empty s \<Longrightarrow> slots s = rslot s # slots (release s)"
    and capacity_release: "capacity (release s) = capacity s"
begin

definition content :: "(nat \<Rightarrow> 'a) \<Rightarrow> 's \<Rightarrow> 'a list" where
  "content a s = map a (slots s)"

lemma wslot_fresh: "inv s \<Longrightarrow> \<not> is_full s \<Longrightarrow> wslot s \<notin> set (slots s) \<and> wslot s < capacity s"
  using slots_distinct [OF inv_commit] slots_bound [OF inv_commit] slots_commit capacity_commit
  by (metis distinct_append distinct.simps(2) in_set_conv_decomp lessThan_iff not_distinct_conv_prefix
      subset_eq)

lemma rslot_live: "inv s \<Longrightarrow> \<not> is_empty s \<Longrightarrow> rslot s \<in> set (slots s)"
  using slots_release by (metis list.set_intros(1))

text \<open>Writing the free slot does not touch the queue; committing it then appends its contents.\<close>

lemma content_write: "inv s \<Longrightarrow> \<not> is_full s \<Longrightarrow> content (a(wslot s := x)) s = content a s"
  using wslot_fresh by (fastforce simp: content_def)

lemma content_enqueue:
  "inv s \<Longrightarrow> \<not> is_full s \<Longrightarrow> content (a(wslot s := x)) (commit s) = content a s @ [x]"
  using content_write [of s a x] by (simp add: content_def slots_commit)

lemma content_dequeue:
  "inv s \<Longrightarrow> \<not> is_empty s \<Longrightarrow> content a s = a (rslot s) # content a (release s)"
  using slots_release [of s] by (metis content_def list.simps(9))

lemma content_length: "inv s \<Longrightarrow> length (content a s) \<le> capacity s"
proof -
  assume s: "inv s"
  have "card (set (slots s)) \<le> card {..<capacity s}"
    using slots_bound [OF s] by (intro card_mono) auto
  then show ?thesis using slots_distinct [OF s] by (simp add: content_def distinct_card)
qed

lemma content_full: "inv s \<Longrightarrow> is_full s \<longleftrightarrow> length (content a s) = capacity s"
  by (simp add: is_full_iff content_def)

lemma content_empty: "inv s \<Longrightarrow> is_empty s \<longleftrightarrow> content a s = []"
  by (simp add: is_empty_iff content_def)

text \<open>A slot that is being read by the consumer is never the one the producer writes.\<close>

lemma read_write_disjoint: "inv s \<Longrightarrow> \<not> is_full s \<Longrightarrow> \<not> is_empty s \<Longrightarrow> wslot s \<noteq> rslot s"
  using wslot_fresh rslot_live by metis

end

text \<open>Insertion in front of the oldest element.\<close>

locale slot_deque =
  slot_queue inv slots capacity is_empty is_full wslot rslot commit release
  for inv :: "'s \<Rightarrow> bool" and slots and capacity and is_empty and is_full
    and wslot and rslot and commit and release +
  fixes fslot :: "'s \<Rightarrow> nat"
    and unrelease :: "'s \<Rightarrow> 's"
  assumes inv_unrelease: "inv s \<Longrightarrow> \<not> is_full s \<Longrightarrow> inv (unrelease s)"
    and slots_unrelease: "inv s \<Longrightarrow> \<not> is_full s \<Longrightarrow> slots (unrelease s) = fslot s # slots s"
begin

lemma fslot_fresh: "inv s \<Longrightarrow> \<not> is_full s \<Longrightarrow> fslot s \<notin> set (slots s)"
  using slots_distinct [OF inv_unrelease] slots_unrelease by (metis distinct.simps(2))

lemma content_push_front:
  "inv s \<Longrightarrow> \<not> is_full s \<Longrightarrow> content (a(fslot s := x)) (unrelease s) = x # content a s"
  using fslot_fresh by (fastforce simp: content_def slots_unrelease)

end

section \<open>The ring buffer meets the contract\<close>

definition rb_wf :: "ring_buffer \<Rightarrow> bool" where
  "rb_wf b \<longleftrightarrow> element_count b \<noteq> 0 \<and> unat (element_count b) dvd 2 ^ 32
     \<and> head b - tail b \<le> element_count b"

definition rb_slot :: "ring_buffer \<Rightarrow> u32 \<Rightarrow> nat" where
  "rb_slot b c = unat (c mod element_count b)"

definition rb_slots :: "ring_buffer \<Rightarrow> nat list" where
  "rb_slots b = map (\<lambda>i. rb_slot b (tail b + of_nat i)) [0..<unat (head b - tail b)]"

abbreviation rb_capacity :: "ring_buffer \<Rightarrow> nat" where
  "rb_capacity b \<equiv> unat (element_count b)"

abbreviation rb_commit :: "ring_buffer \<Rightarrow> ring_buffer" where
  "rb_commit b \<equiv> b\<lparr>head := head b + 1\<rparr>"

abbreviation rb_release :: "ring_buffer \<Rightarrow> ring_buffer" where
  "rb_release b \<equiv> b\<lparr>tail := tail b + 1\<rparr>"

abbreviation rb_unrelease :: "ring_buffer \<Rightarrow> ring_buffer" where
  "rb_unrelease b \<equiv> b\<lparr>tail := tail b - 1\<rparr>"

lemma rb_slot_add:
  "rb_wf b \<Longrightarrow> rb_slot b (c + of_nat i) = (unat c + i) mod unat (element_count b)"
  by (simp add: rb_slot_def rb_wf_def unat_add_of_nat_mod)

lemma rb_slot_less: "rb_wf b \<Longrightarrow> rb_slot b c < unat (element_count b)"
  by (simp add: rb_slot_def rb_wf_def unat_mod word_neq_0_conv unat_gt_0)

lemma length_rb_slots [simp]: "length (rb_slots b) = unat (head b - tail b)"
  by (simp add: rb_slots_def)

lemma rb_slots_distinct: "rb_wf b \<Longrightarrow> distinct (rb_slots b)"
proof -
  assume b: "rb_wf b"
  then have le: "unat (head b - tail b) \<le> unat (element_count b)"
    by (simp add: rb_wf_def word_le_nat_alt)
  show ?thesis
    unfolding rb_slots_def distinct_map
  proof (intro conjI inj_onI)
    fix i j assume "i \<in> set [0..<unat (head b - tail b)]" "j \<in> set [0..<unat (head b - tail b)]"
      and "rb_slot b (tail b + of_nat i) = rb_slot b (tail b + of_nat j)"
    with b le show "i = j"
      by (intro mod_add_inj [of "unat (tail b)" i "unat (element_count b)" j])
        (auto simp: rb_slot_add)
  qed simp
qed

lemma rb_not_full_less:
  "rb_wf b \<Longrightarrow> \<not> ringbuf_full (Some b) \<Longrightarrow> unat (head b - tail b) < rb_capacity b"
  by (auto simp: rb_wf_def word_le_nat_alt le_less word_unat_eq_iff)

lemma rb_count_commit:
  "rb_wf b \<Longrightarrow> \<not> ringbuf_full (Some b) \<Longrightarrow>
   unat (head b + 1 - tail b) = Suc (unat (head b - tail b))"
proof -
  assume "rb_wf b" "\<not> ringbuf_full (Some b)"
  then have "head b - tail b < element_count b" by (auto simp: rb_wf_def)
  then have "head b - tail b \<noteq> - 1" by (metis word_not_simps(3) word_n1_ge linorder_not_le)
  from unat_succ [OF this] show ?thesis by (simp add: algebra_simps)
qed

lemma rb_count_release:
  "\<not> ringbuf_empty (Some b) \<Longrightarrow> unat (head b - tail b) = Suc (unat (head b - (tail b + 1)))"
  by (simp add: unat_minus_one [of "head b - tail b"] diff_diff_eq [symmetric] unat_gt_0)

lemma rb_slots_commit:
  "rb_wf b \<Longrightarrow> \<not> ringbuf_full (Some b) \<Longrightarrow> rb_slots (rb_commit b) = rb_slots b @ [rb_slot b (head b)]"
  by (simp add: rb_slots_def rb_count_commit) (simp add: rb_slot_def)

lemma rb_slots_release:
  "\<not> ringbuf_empty (Some b) \<Longrightarrow> rb_slots b = rb_slot b (tail b) # rb_slots (rb_release b)"
  by (simp add: rb_slots_def rb_count_release upt_conv_Cons map_Suc_upt [symmetric] o_def add_ac
      del: upt_Suc) (simp add: rb_slot_def)

lemma rb_slots_unrelease:
  "rb_wf b \<Longrightarrow> \<not> ringbuf_full (Some b) \<Longrightarrow>
   rb_slots (rb_unrelease b) = rb_slot b (tail b - 1) # rb_slots b"
proof -
  assume b: "rb_wf b" "\<not> ringbuf_full (Some b)"
  let ?b = "rb_unrelease b"
  have "unat (head b - (tail b - 1)) = Suc (unat (head b - tail b))"
    using rb_count_commit [OF b] by (simp add: algebra_simps)
  then have "\<not> ringbuf_empty (Some ?b)" by auto
  from rb_slots_release [OF this] show ?thesis by (simp add: rb_slot_def)
qed

interpretation rb: slot_deque rb_wf rb_slots rb_capacity "\<lambda>b. ringbuf_empty (Some b)"
  "\<lambda>b. ringbuf_full (Some b)" "\<lambda>b. rb_slot b (head b)" "\<lambda>b. rb_slot b (tail b)" rb_commit rb_release
  "\<lambda>b. rb_slot b (tail b - 1)" rb_unrelease
proof unfold_locales
  fix b :: ring_buffer
  assume b: "rb_wf b"
  show "distinct (rb_slots b)" using b by (rule rb_slots_distinct)
  show "set (rb_slots b) \<subseteq> {..<rb_capacity b}"
    using b by (auto simp: rb_slots_def rb_slot_less)
  show "ringbuf_empty (Some b) \<longleftrightarrow> rb_slots b = []"
    by (auto simp: length_0_conv [symmetric] unat_eq_zero simp del: length_0_conv)
  show "ringbuf_full (Some b) \<longleftrightarrow> length (rb_slots b) = rb_capacity b"
    by (simp add: word_unat_eq_iff)
  show "rb_wf (rb_commit b)" "rb_wf (rb_unrelease b)" if "\<not> ringbuf_full (Some b)"
    using b rb_count_commit [OF b that] rb_not_full_less [OF b that]
    by (simp_all add: rb_wf_def word_le_nat_alt algebra_simps)
  show "rb_slots (rb_commit b) = rb_slots b @ [rb_slot b (head b)]"
    "rb_slots (rb_unrelease b) = rb_slot b (tail b - 1) # rb_slots b" if "\<not> ringbuf_full (Some b)"
    using b that by (rule rb_slots_commit, rule rb_slots_unrelease)
  show "rb_wf (rb_release b)" "rb_slots b = rb_slot b (tail b) # rb_slots (rb_release b)"
    if "\<not> ringbuf_empty (Some b)"
    using b that rb_count_release [OF that]
    by (auto simp: rb_slots_release rb_wf_def word_le_nat_alt)
qed simp_all

section \<open>The bytes behind the slots\<close>

definition rb_bytes :: "ring_buffer \<Rightarrow> nat" where
  "rb_bytes b = unat (element_count b) * unat (element_size b)"

definition rb_chunk :: "mem \<Rightarrow> ring_buffer \<Rightarrow> nat \<Rightarrow> u8 list" where
  "rb_chunk m b i = mem_bytes m (buffer b + i * unat (element_size b)) (unat (element_size b))"

text \<open>The elements of the ring, oldest first: the queue it stands for.\<close>

definition rb_elems :: "mem \<Rightarrow> ring_buffer \<Rightarrow> u8 list list" where
  "rb_elems m b = map (rb_chunk m b) (rb_slots b)"

definition rb_ok :: "mem \<Rightarrow> ring_buffer \<Rightarrow> bool" where
  "rb_ok m b \<longleftrightarrow> rb_wf b \<and> rb_bytes b < 2 ^ 32 \<and> mem_valid m (buffer b) (rb_bytes b)"

definition rb_apart :: "ring_buffer \<Rightarrow> nat \<Rightarrow> bool" where
  "rb_apart b d \<longleftrightarrow> d + unat (element_size b) \<le> buffer b \<or> buffer b + rb_bytes b \<le> d"

lemma rb_elems_content: "rb_elems m b = rb.content (rb_chunk m b) b"
  by (simp add: rb_elems_def rb.content_def)

lemma slot_end:
  fixes i n k :: nat
  assumes "i < n"
  shows "i * k + k \<le> n * k"
  using mult_le_mono1 [of "Suc i" n k] assms by simp

lemma ring_data_slot:
  assumes "rb_ok m b"
  shows "ring_data b c = Inr (buffer b + rb_slot b c * unat (element_size b))"
proof -
  let ?s = "c mod element_count b"
  have wf: "rb_wf b" and small: "rb_bytes b < 2 ^ 32" using assms by (auto simp: rb_ok_def)
  have "unat ?s * unat (element_size b) \<le> rb_bytes b"
    using slot_end [OF rb_slot_less [OF wf], of c "unat (element_size b)"]
    unfolding rb_slot_def rb_bytes_def by (rule add_leD1)
  with small have "unat (?s * element_size b) = unat ?s * unat (element_size b)"
    by (simp add: unat_word_ariths)
  then show ?thesis using wf by (simp add: ring_data_def rb_slot_def rb_wf_def)
qed

lemma slot_valid:
  "rb_ok m b \<Longrightarrow> mem_valid m (buffer b + rb_slot b c * unat (element_size b)) (unat (element_size b))"
  by (rule mem_valid_sub) (auto simp: rb_ok_def rb_bytes_def intro!: slot_end rb_slot_less)

lemma slot_apart:
  assumes "rb_ok m b" and "rb_apart b d"
    and "p = buffer b + rb_slot b c * unat (element_size b)"
  shows "p + unat (element_size b) \<le> d \<or> d + unat (element_size b) \<le> p"
  using slot_end [OF rb_slot_less, of b c "unat (element_size b)"] assms
  by (auto simp: rb_ok_def rb_apart_def rb_bytes_def)

text \<open>A write of one element changes the chunk of its slot and no other.\<close>

lemma rb_chunk_put:
  assumes "length bs = unat (element_size b)"
  shows "rb_chunk (mem_put m (buffer b + w * unat (element_size b)) bs) b = (rb_chunk m b)(w := bs)"
proof
  fix i
  let ?k = "unat (element_size b)"
  have "i * ?k + ?k \<le> w * ?k \<or> w * ?k + ?k \<le> i * ?k" if "i \<noteq> w"
    using that slot_end [of i w ?k] slot_end [of w i ?k] by (cases "i < w") auto
  then show "rb_chunk (mem_put m (buffer b + w * ?k) bs) b i = ((rb_chunk m b)(w := bs)) i"
    using assms mem_bytes_put_same [of m "buffer b + w * ?k" bs]
    by (cases "i = w") (auto simp: rb_chunk_def intro!: mem_bytes_put_other)
qed

lemma rb_chunk_counters [simp]:
  "rb_chunk m (b\<lparr>head := h\<rparr>) = rb_chunk m b" "rb_chunk m (b\<lparr>tail := t\<rparr>) = rb_chunk m b"
  by (auto simp: rb_chunk_def)

lemma rb_bytes_counters [simp]:
  "rb_bytes (b\<lparr>head := h\<rparr>) = rb_bytes b" "rb_bytes (b\<lparr>tail := t\<rparr>) = rb_bytes b"
  by (auto simp: rb_bytes_def)

lemma mem_put_outside:
  "x < a \<or> a + length bs \<le> x \<Longrightarrow> mem_put m a bs x = m x"
  by (auto simp: mem_put_def)

lemma slot_put_outside:
  assumes "rb_ok m b" and "length bs = unat (element_size b)"
    and "x < buffer b \<or> buffer b + rb_bytes b \<le> x"
  shows "mem_put m (buffer b + rb_slot b c * unat (element_size b)) bs x = m x"
  using slot_end [OF rb_slot_less, of b c "unat (element_size b)"] assms
  by (intro mem_put_outside) (auto simp: rb_ok_def rb_bytes_def)

section \<open>The functions on the abstract queue\<close>

lemma ringbuf_put_queue:
  assumes ok: "rb_ok m b" and room: "\<not> ringbuf_full (Some b)"
    and d: "d \<noteq> NULL" "mem_valid m d (unat (element_size b))" "rb_apart b d"
  obtains m' where "ringbuf_put m (Some b) d = Inr (True, Some (rb_commit b), m')"
    and "rb_ok m' (rb_commit b)"
    and "rb_elems m' (rb_commit b) = rb_elems m b @ [mem_bytes m d (unat (element_size b))]"
    and "\<And>x. x < buffer b \<or> buffer b + rb_bytes b \<le> x \<Longrightarrow> m' x = m x"
proof -
  let ?k = "unat (element_size b)"
  let ?p = "buffer b + rb_slot b (head b) * ?k"
  let ?x = "mem_bytes m d ?k"
  let ?m' = "mem_put m ?p ?x"
  have "copy_loop m ?p d ?k = Inr ?m'"
    using slot_valid [OF ok] d(2) slot_apart [OF ok d(3) refl, of "head b"]
    by (intro copy_loop_ok) auto
  then have "ringbuf_put m (Some b) d = Inr (True, Some (rb_commit b), ?m')"
    using d(1) room by (simp add: ring_data_slot [OF ok])
  moreover have "rb_ok ?m' (rb_commit b)"
    using ok room rb.inv_commit by (auto simp: rb_ok_def)
  moreover have "rb_elems ?m' (rb_commit b) = rb_elems m b @ [?x]"
    using ok room by (simp add: rb_elems_content rb_chunk_put rb.content_enqueue rb_ok_def)
  ultimately show ?thesis
    using that slot_put_outside [OF ok, of ?x] by simp
qed

lemma ringbuf_put_front_queue:
  assumes ok: "rb_ok m b" and room: "\<not> ringbuf_full (Some b)"
    and d: "d \<noteq> NULL" "mem_valid m d (unat (element_size b))" "rb_apart b d"
  obtains m' where "ringbuf_put_front m (Some b) d = Inr (True, Some (rb_unrelease b), m')"
    and "rb_ok m' (rb_unrelease b)"
    and "rb_elems m' (rb_unrelease b) = mem_bytes m d (unat (element_size b)) # rb_elems m b"
    and "\<And>x. x < buffer b \<or> buffer b + rb_bytes b \<le> x \<Longrightarrow> m' x = m x"
proof -
  let ?k = "unat (element_size b)"
  let ?p = "buffer b + rb_slot b (tail b - 1) * ?k"
  let ?x = "mem_bytes m d ?k"
  let ?m' = "mem_put m ?p ?x"
  have ok': "rb_ok m (rb_unrelease b)"
    using ok room rb.inv_unrelease by (auto simp: rb_ok_def)
  have slot: "rb_slot (rb_unrelease b) = rb_slot b" by (rule ext) (simp add: rb_slot_def)
  have "copy_loop m ?p d ?k = Inr ?m'"
    using slot_valid [OF ok] d(2) slot_apart [OF ok d(3) refl, of "tail b - 1"]
    by (intro copy_loop_ok) auto
  then have "ringbuf_put_front m (Some b) d = Inr (True, Some (rb_unrelease b), ?m')"
    using d(1) room ring_data_slot [OF ok', of "tail b - 1"] by (simp add: slot)
  moreover have "rb_ok ?m' (rb_unrelease b)"
    using ok' by (simp add: rb_ok_def)
  moreover have "rb_elems ?m' (rb_unrelease b) = ?x # rb_elems m b"
    using ok room by (simp add: rb_elems_content rb_chunk_put rb.content_push_front rb_ok_def)
  ultimately show ?thesis
    using that slot_put_outside [OF ok, of ?x] by simp
qed

text \<open>\<open>ringbuf_pop\<close> with a destination copies the oldest element there; with NULL it drops it.\<close>

lemma ringbuf_pop_queue:
  assumes ok: "rb_ok m b" and some: "\<not> ringbuf_empty (Some b)"
    and d: "d \<noteq> NULL" "mem_valid m d (unat (element_size b))" "rb_apart b d"
  obtains m' where "ringbuf_pop m (Some b) d = Inr (True, Some (rb_release b), m')"
    and "rb_ok m' (rb_release b)"
    and "rb_elems m b = mem_bytes m' d (unat (element_size b)) # rb_elems m' (rb_release b)"
proof -
  let ?k = "unat (element_size b)"
  let ?p = "buffer b + rb_slot b (tail b) * ?k"
  let ?x = "mem_bytes m ?p ?k"
  let ?m' = "mem_put m d ?x"
  have wf: "rb_wf b" using ok by (simp add: rb_ok_def)
  have "copy_loop m d ?p ?k = Inr ?m'"
    using slot_valid [OF ok] d(2) slot_apart [OF ok d(3) refl, of "tail b"]
    by (intro copy_loop_ok) auto
  then have "ringbuf_pop m (Some b) d = Inr (True, Some (rb_release b), ?m')"
    using d(1) some by (simp add: ring_data_slot [OF ok])
  moreover have "rb_ok ?m' (rb_release b)"
    using ok some rb.inv_release by (auto simp: rb_ok_def)
  moreover have "rb_elems m b = mem_bytes ?m' d ?k # rb_elems ?m' (rb_release b)"
  proof -
    have "rb_chunk ?m' b i = rb_chunk m b i" if "i < rb_capacity b" for i
      using slot_end [OF that, of ?k] d(3)
      by (auto simp: rb_chunk_def rb_apart_def rb_bytes_def intro!: mem_bytes_put_other)
    then have "rb_elems ?m' (rb_release b) = map (rb_chunk m b) (rb_slots (rb_release b))"
      using rb.slots_bound [OF rb.inv_release [OF wf some]] by (auto simp: rb_elems_def)
    moreover have "mem_bytes ?m' d ?k = ?x"
      using mem_bytes_put_same [of m d ?x] by simp
    ultimately show ?thesis
      using rb_slots_release [OF some] by (simp add: rb_elems_def rb_chunk_def)
  qed
  ultimately show ?thesis by (rule that)
qed

lemma ringbuf_pop_null:
  assumes ok: "rb_ok m b" and some: "\<not> ringbuf_empty (Some b)"
  shows "ringbuf_pop m (Some b) NULL = Inr (True, Some (rb_release b), m)"
    and "rb_ok m (rb_release b)" and "rb_elems m (rb_release b) = tl (rb_elems m b)"
  using assms rb.inv_release rb_slots_release [OF some]
  by (auto simp: ring_data_slot [OF ok] rb_ok_def rb_elems_def)

text \<open>The in-place protocol: ask for the free chunk, fill it, commit it.\<close>

lemma ringbuf_data_put_queue:
  assumes ok: "rb_ok m b" and room: "\<not> ringbuf_full (Some b)"
    and bs: "length bs = unat (element_size b)"
  obtains p where "ringbuf_data_peek (Some b) = Inr p"
    and "mem_valid m p (unat (element_size b))"
    and "ringbuf_data_put (Some b) p = Inr (True, Some (rb_commit b))"
    and "rb_ok (mem_put m p bs) (rb_commit b)"
    and "rb_elems (mem_put m p bs) (rb_commit b) = rb_elems m b @ [bs]"
proof -
  let ?p = "buffer b + rb_slot b (head b) * unat (element_size b)"
  have "rb_elems (mem_put m ?p bs) (rb_commit b) = rb_elems m b @ [bs]"
    using ok room bs by (simp add: rb_elems_content rb_chunk_put rb.content_enqueue rb_ok_def)
  moreover have "rb_ok (mem_put m ?p bs) (rb_commit b)"
    using ok room rb.inv_commit by (auto simp: rb_ok_def)
  ultimately show ?thesis
    using that [of ?p] room slot_valid [OF ok, of "head b"] by (simp add: ring_data_slot [OF ok])
qed

lemma rb_elems_empty: "rb_elems m b = [] \<longleftrightarrow> ringbuf_empty (Some b)"
  by (auto simp: rb_elems_def length_0_conv [symmetric] unat_eq_zero simp del: length_0_conv)

lemma rb_elems_full: "length (rb_elems m b) = rb_capacity b \<longleftrightarrow> ringbuf_full (Some b)"
  by (simp add: rb_elems_def word_unat_eq_iff)

section \<open>Properties\<close>

text \<open>
  A ring for the concrete instances: four elements of two bytes at address 256, one element in
  use, the counters just past their wrap-around; every byte of the memory is allocated.
\<close>

definition ex_ring :: ring_buffer where
  "ex_ring = \<lparr>buffer = 256, element_size = 2, element_count = 4, head = 0, tail = 4294967295\<rparr>"

definition ex_mem :: mem where
  "ex_mem = (\<lambda>a. Some (of_nat a))"

lemma ex_ring_ok: "rb_ok ex_mem ex_ring" "\<not> ringbuf_full (Some ex_ring)"
    "\<not> ringbuf_empty (Some ex_ring)" "mem_valid ex_mem 512 (unat (element_size ex_ring))"
    "rb_apart ex_ring 512" "rb_elems ex_mem ex_ring = [[6, 7]]"
    "mem_bytes ex_mem 512 (unat (element_size ex_ring)) = [0, 1]" "(512 :: nat) \<noteq> NULL"
  by (simp_all add: ex_ring_def ex_mem_def rb_ok_def rb_wf_def rb_bytes_def rb_apart_def mem_valid_def
      rb_elems_def rb_slots_def rb_slot_def rb_chunk_def mem_bytes_def upt_rec)

text \<open>C24. \<open>ringbuf_put\<close> on a ring that is not full returns true and appends a copy of the bytes at
  \<open>data_element\<close> to the queue the ring stands for; the ring stays well-formed, also when the
  counters wrap, and no byte outside its data block changes.\<close>

theorem ringbuf_put_enqueues:
  assumes "rb_ok m b" and "\<not> ringbuf_full (Some b)" and "d \<noteq> NULL"
    and "mem_valid m d (unat (element_size b))" and "rb_apart b d"
  shows "\<exists>b' m'. ringbuf_put m (Some b) d = Inr (True, Some b', m') \<and> rb_ok m' b'
    \<and> rb_elems m' b' = rb_elems m b @ [mem_bytes m d (unat (element_size b))]
    \<and> (\<forall>x. x < buffer b \<or> buffer b + rb_bytes b \<le> x \<longrightarrow> m' x = m x)"
  by (rule ringbuf_put_queue [OF assms]) blast

theorem ringbuf_put_enqueues_witness:
  "\<exists>b' m'. ringbuf_put ex_mem (Some ex_ring) 512 = Inr (True, Some b', m')
    \<and> rb_elems m' b' = [[6, 7], [0, 1]]"
  using ringbuf_put_enqueues [OF ex_ring_ok(1,2,8,4,5)] unfolding ex_ring_ok(6,7) append.simps
  by blast

text \<open>C25. \<open>ringbuf_pop\<close> on a ring that is not empty returns true, copies the oldest element to
  \<open>data_element\<close> and removes it from the queue.\<close>

theorem ringbuf_pop_dequeues:
  assumes "rb_ok m b" and "\<not> ringbuf_empty (Some b)" and "d \<noteq> NULL"
    and "mem_valid m d (unat (element_size b))" and "rb_apart b d"
  shows "\<exists>b' m'. ringbuf_pop m (Some b) d = Inr (True, Some b', m') \<and> rb_ok m' b'
    \<and> rb_elems m b = mem_bytes m' d (unat (element_size b)) # rb_elems m' b'"
  by (rule ringbuf_pop_queue [OF assms]) blast

theorem ringbuf_pop_dequeues_witness:
  "\<exists>b' m'. ringbuf_pop ex_mem (Some ex_ring) 512 = Inr (True, Some b', m')
    \<and> mem_bytes m' 512 2 = [6, 7] \<and> rb_elems m' b' = []"
proof -
  have "unat (element_size ex_ring) = 2" by (simp add: ex_ring_def)
  then show ?thesis
    using ringbuf_pop_dequeues [OF ex_ring_ok(1,3,8,4,5)] unfolding ex_ring_ok(6) by force
qed

text \<open>\<open>ringbuf_put_front\<close> on a ring that is not full makes the copied element the next one to
  be popped.\<close>

theorem ringbuf_put_front_pushes:
  assumes "rb_ok m b" and "\<not> ringbuf_full (Some b)" and "d \<noteq> NULL"
    and "mem_valid m d (unat (element_size b))" and "rb_apart b d"
  shows "\<exists>b' m'. ringbuf_put_front m (Some b) d = Inr (True, Some b', m') \<and> rb_ok m' b'
    \<and> rb_elems m' b' = mem_bytes m d (unat (element_size b)) # rb_elems m b"
  by (rule ringbuf_put_front_queue [OF assms]) blast

theorem ringbuf_put_front_pushes_witness:
  "\<exists>b' m'. ringbuf_put_front ex_mem (Some ex_ring) 512 = Inr (True, Some b', m')
    \<and> rb_elems m' b' = [[0, 1], [6, 7]]"
  using ringbuf_put_front_pushes [OF ex_ring_ok(1,2,8,4,5)] unfolding ex_ring_ok(6,7) by blast

text \<open>The zero-copy protocol: on a ring that is not full \<open>ringbuf_data_peek\<close> gives a valid
  chunk; whatever the caller writes there, \<open>ringbuf_data_put\<close> with that pointer enqueues it, and
  with any other pointer changes nothing and returns false.\<close>

theorem ringbuf_data_peek_put:
  assumes "rb_ok m b" and "\<not> ringbuf_full (Some b)" and "length bs = unat (element_size b)"
  shows "\<exists>p b'. ringbuf_data_peek (Some b) = Inr p \<and> mem_valid m p (unat (element_size b))
    \<and> ringbuf_data_put (Some b) p = Inr (True, Some b') \<and> rb_ok (mem_put m p bs) b'
    \<and> rb_elems (mem_put m p bs) b' = rb_elems m b @ [bs]
    \<and> (\<forall>q. q \<noteq> p \<longrightarrow> ringbuf_data_put (Some b) q = Inr (False, Some b))"
proof -
  obtain p where p: "ringbuf_data_peek (Some b) = Inr p" "mem_valid m p (unat (element_size b))"
    "ringbuf_data_put (Some b) p = Inr (True, Some (rb_commit b))" "rb_ok (mem_put m p bs) (rb_commit b)"
    "rb_elems (mem_put m p bs) (rb_commit b) = rb_elems m b @ [bs]"
    using assms by (rule ringbuf_data_put_queue)
  moreover have "ringbuf_data_put (Some b) q = Inr (False, Some b)" if "q \<noteq> p" for q
    using p(1) that assms(2) by simp
  ultimately show ?thesis by blast
qed

theorem ringbuf_data_peek_put_witness:
  "\<exists>p b'. ringbuf_data_peek (Some ex_ring) = Inr p \<and> ringbuf_data_put (Some ex_ring) p = Inr (True, Some b')
    \<and> rb_elems (mem_put ex_mem p [8, 9]) b' = [[6, 7], [8, 9]]"
proof -
  have "length [8, 9 :: u8] = unat (element_size ex_ring)" by (simp add: ex_ring_def)
  from ringbuf_data_peek_put [OF ex_ring_ok(1,2) this] show ?thesis
    unfolding ex_ring_ok(6) append.simps by blast
qed

text \<open>C40. The bounds: a ring never holds more than \<open>element_count\<close> elements, every insertion into
  a full ring and every removal from an empty one is refused and leaves ring and memory as they
  were, and the peeks return NULL there.\<close>

theorem ringbuf_bounds:
  assumes "rb_ok m b"
  shows "length (rb_elems m b) \<le> unat (element_count b)
    \<and> (length (rb_elems m b) = unat (element_count b) \<longrightarrow>
        ringbuf_put m (Some b) d = Inr (False, Some b, m)
        \<and> ringbuf_put_front m (Some b) d = Inr (False, Some b, m)
        \<and> ringbuf_data_peek (Some b) = Inr NULL \<and> ringbuf_data_put (Some b) d = Inr (False, Some b))
    \<and> (rb_elems m b = [] \<longrightarrow>
        ringbuf_pop m (Some b) d = Inr (False, Some b, m) \<and> ringbuf_peek (Some b) = Inr NULL)"
proof -
  have "length (rb_elems m b) \<le> unat (element_count b)"
    using assms rb.content_length [of b "rb_chunk m b"] by (simp add: rb_elems_content rb_ok_def)
  then show ?thesis
    by (simp add: rb_elems_full rb_elems_empty del: ringbuf_full.simps ringbuf_empty.simps)
qed

theorem ringbuf_bounds_witness:
  "ringbuf_put ex_mem (Some (ex_ring\<lparr>head := 3\<rparr>)) 512 = Inr (False, Some (ex_ring\<lparr>head := 3\<rparr>), ex_mem)
   \<and> ringbuf_pop ex_mem (Some (ex_ring\<lparr>tail := 0\<rparr>)) 512 = Inr (False, Some (ex_ring\<lparr>tail := 0\<rparr>), ex_mem)"
proof -
  have f: "rb_ok ex_mem (ex_ring\<lparr>head := 3\<rparr>)" "rb_ok ex_mem (ex_ring\<lparr>tail := 0\<rparr>)"
    "ringbuf_full (Some (ex_ring\<lparr>head := 3\<rparr>))" "ringbuf_empty (Some (ex_ring\<lparr>tail := 0\<rparr>))"
    by (simp_all add: ex_ring_def ex_mem_def rb_ok_def rb_wf_def rb_bytes_def mem_valid_def)
  show ?thesis
    using ringbuf_bounds [OF f(1), of 512] ringbuf_bounds [OF f(2), of 512] f(3,4)
    unfolding rb_elems_full rb_elems_empty by blast
qed

text \<open>\<open>ringbuf_init\<close> over a block that is large enough, with an element count that divides
  \<open>2^32\<close> (a power of two), makes a well-formed empty ring whatever the structure held before.\<close>

theorem ringbuf_init_empty:
  assumes "cnt \<noteq> 0" and "unat cnt dvd 2 ^ 32" and "unat cnt * unat esize < 2 ^ 32"
    and "mem_valid m buf (unat cnt * unat esize)"
  shows "\<exists>b'. ringbuf_init (Some b) buf esize cnt = Some b' \<and> rb_ok m b' \<and> rb_elems m b' = []
    \<and> element_count b' = cnt \<and> element_size b' = esize \<and> buffer b' = buf"
  using assms by (simp add: rb_ok_def rb_wf_def rb_bytes_def rb_elems_def rb_slots_def)

theorem ringbuf_init_empty_witness:
  "\<exists>b'. ringbuf_init (Some ex_ring) 1024 2024 16 = Some b' \<and> rb_elems ex_mem b' = []"
proof -
  have "mem_valid ex_mem 1024 (unat (16 :: u32) * unat (2024 :: u32))"
    by (simp add: mem_valid_def ex_mem_def)
  then show ?thesis
    using ringbuf_init_empty [of 16 2024 ex_mem 1024 ex_ring] by auto
qed

text \<open>The power of two is needed: a ring of three elements whose counters stand just before
  their wrap-around accepts two elements into the same slot, and the first one is lost: the pop
  after two successful puts returns the second element.\<close>

theorem ringbuf_three_slots_overwrite:
  "\<exists>b1 m1 b2 m2 b3 m3.
     ringbuf_put ex_mem (Some \<lparr>buffer = 256, element_size = 1, element_count = 3,
       head = 4294967295, tail = 4294967295\<rparr>) 512 = Inr (True, Some b1, m1)
     \<and> ringbuf_put m1 (Some b1) 513 = Inr (True, Some b2, m2)
     \<and> ringbuf_pop m2 (Some b2) 514 = Inr (True, Some b3, m3)
     \<and> ex_mem 512 = Some 0 \<and> ex_mem 513 = Some 1 \<and> m3 514 = Some 1"
  by (simp add: ring_data_def ex_mem_def load8_def store8_def)

end
