(* ===== verification/Datalink.thy ===== *)
theory Datalink
  imports Umtp_Prelude
begin

text \<open>
  The data link layer: addresses and interface queries (\<open>core/umtp_dl.c\<close>, \<open>include/umtp_dl.h\<close>) and
  the UDP transport (\<open>core/dl_udp.c\<close>).

  \<open>struct umtp_dl\<close> is a record; its \<open>encrypt\<close>/\<open>decrypt\<close> pointers are optional functions on the world
  \<open>'w\<close> (its \<open>init\<close>, \<open>exit\<close>, \<open>send_data\<close> and \<open>recv_data\<close> pointers are always the \<open>dludp_\<close> functions that
  \<open>umtp_dludp_create\<close> stores). The operating system is an argument: what \<open>ioctl\<close>, \<open>socket\<close>,
  \<open>setsockopt\<close>, \<open>bind\<close>, \<open>sendto\<close>, \<open>select\<close> and \<open>recvfrom\<close> answered. An \<open>in_addr\<close> is its 32-bit
  value and a \<open>sin_port\<close> its 16-bit value on a little-endian host.
\<close>

section \<open>Addresses\<close>

abbreviation (input) UMTP_DEFAULT_PORT :: int where "UMTP_DEFAULT_PORT \<equiv> 0x2E08"
abbreviation (input) MAX_MAC_LEN :: nat where "MAX_MAC_LEN \<equiv> 7"
abbreviation (input) UMTP_SIGNATURE :: u8 where "UMTP_SIGNATURE \<equiv> 0x68"

text \<open>From \<open>include/umtp.h\<close>: the sizes of the protocol's buffers.\<close>

abbreviation (input) MAX_APDU :: nat where "MAX_APDU \<equiv> 1024"
abbreviation (input) MAX_NPDU :: nat where "MAX_NPDU \<equiv> 1025"
abbreviation (input) MAX_PDU :: nat where "MAX_PDU \<equiv> 2049"

record umtp_addr =
  addr_len :: u8
  addr :: "u8 list"   \<comment> \<open>\<open>MAX_MAC_LEN\<close> bytes\<close>

type_synonym 'w crypt_fun = "u8 list \<Rightarrow> int \<Rightarrow> 'w \<Rightarrow> (int \<times> u8 list \<times> 'w) res"

record 'w umtp_dl =
  dl_type :: int
  intf :: "string option"
  socket :: int
  port :: int
  ip :: "string option"
  dl_addr :: u32
  broadcast_addr :: u32
  dl_encrypt :: "'w crypt_fun option"
  dl_decrypt :: "'w crypt_fun option"

definition dlumtp_set_bcast_addr :: "'w umtp_dl option \<Rightarrow> u32 \<Rightarrow> 'w umtp_dl option" where
  "dlumtp_set_bcast_addr dl a = map_option (\<lambda>d. d\<lparr>broadcast_addr := a\<rparr>) dl"

definition dlumtp_get_bcast_addr :: "'w umtp_dl option \<Rightarrow> u32" where
  "dlumtp_get_bcast_addr dl = (case dl of Some d \<Rightarrow> broadcast_addr d | None \<Rightarrow> 0)"

definition dlumtp_set_addr :: "'w umtp_dl option \<Rightarrow> u32 \<Rightarrow> 'w umtp_dl option" where
  "dlumtp_set_addr dl a = map_option (\<lambda>d. d\<lparr>dl_addr := a\<rparr>) dl"

definition dlumtp_get_addr :: "'w umtp_dl option \<Rightarrow> u32" where
  "dlumtp_get_addr dl = (case dl of Some d \<Rightarrow> dl_addr d | None \<Rightarrow> 0)"

text \<open>
  \<open>memcpy(&addr->addr[4], &dl->port, 2)\<close> copies the first two bytes of the \<open>int\<close>, on a little-endian
  host its low 16 bits.
\<close>

definition put_addr :: "umtp_addr \<Rightarrow> u8 list \<Rightarrow> u8 list \<Rightarrow> umtp_addr res" where
  "put_addr a abytes pbytes =
     bindE (arr_write (addr a) 0 abytes) (\<lambda>b1.
     bindE (arr_write b1 4 pbytes) (\<lambda>b2. Inr (a\<lparr>addr_len := 6, addr := b2\<rparr>)))"

fun dlumtp_get_umtp_bcast_addr :: "'w umtp_dl option \<Rightarrow> umtp_addr option \<Rightarrow> umtp_addr option res" where
  "dlumtp_get_umtp_bcast_addr (Some dl) (Some a) =
     bindE (put_addr a (u32_bytes (broadcast_addr dl)) (u16_bytes (word_of_int (port dl))))
       (\<lambda>a'. Inr (Some a'))"
| "dlumtp_get_umtp_bcast_addr _ a = Inr a"

fun dlumtp_get_umtp_addr :: "'w umtp_dl option \<Rightarrow> umtp_addr option \<Rightarrow> umtp_addr option res" where
  "dlumtp_get_umtp_addr (Some dl) (Some a) =
     bindE (put_addr a (u32_bytes (dl_addr dl)) (u16_bytes (word_of_int (port dl))))
       (\<lambda>a'. Inr (Some a'))"
| "dlumtp_get_umtp_addr _ a = Inr a"

text \<open>The result is the return value and, where the address is not NULL, what is stored.\<close>

fun dlumtp_decode_address :: "umtp_addr option \<Rightarrow> (int \<times> (u32 \<times> u16) option) res" where
  "dlumtp_decode_address None = Inr (0, None)"
| "dlumtp_decode_address (Some a) =
     bindE (arr_read (addr a) 0 4) (\<lambda>abytes.
     bindE (arr_read (addr a) 4 2) (\<lambda>pbytes.
     Inr (6, Some (bytes_u32 abytes, bytes_u16 pbytes))))"

fun dlumtp_encode_address ::
  "(string \<Rightarrow> u32) \<Rightarrow> umtp_addr option \<Rightarrow> string option \<Rightarrow> u16 \<Rightarrow> (int \<times> umtp_addr option) res" where
  "dlumtp_encode_address inet_addr (Some a) (Some ip_str) prt =
     bindE (put_addr a (u32_bytes (inet_addr ip_str)) (u16_bytes (htons prt)))
       (\<lambda>a'. Inr (6, Some a'))"
| "dlumtp_encode_address inet_addr a _ prt = Inr (0, a)"

section \<open>Interface queries\<close>

datatype ifr_opt = SIOCGIFADDR | SIOCGIFNETMASK

text \<open>
  \<open>os_socket\<close>: what \<open>socket(AF_INET, SOCK_DGRAM, IPPROTO_IP)\<close> returned; \<open>os_ioctl name opt\<close>: the
  result of the \<open>ioctl\<close> and the address it left in the request (the request starts zeroed).
\<close>

record os_ifr =
  os_ifr_socket :: int
  os_ioctl :: "string \<Rightarrow> ifr_opt \<Rightarrow> int \<times> u32"

definition get_local_ifr_ioctl :: "os_ifr \<Rightarrow> string \<Rightarrow> ifr_opt \<Rightarrow> int \<times> u32" where
  "get_local_ifr_ioctl os ifname opt =
     (let fd = os_ifr_socket os in
      if fd < 0 then (fd, 0) else os_ioctl os (take 16 ifname) opt)"

text \<open>The address pointed to is written only when the query succeeded: \<open>None\<close> leaves it alone.\<close>

definition get_local_address_ioctl :: "os_ifr \<Rightarrow> string \<Rightarrow> ifr_opt \<Rightarrow> int \<times> u32 option" where
  "get_local_address_ioctl os ifname opt =
     (case get_local_ifr_ioctl os ifname opt of
        (ret, a) \<Rightarrow> if ret \<ge> 0 then (ret, Some a) else (ret, None))"

text \<open>
  \<open>local_addr\<close> is a local variable that the function fills and never copies to \<open>*addr\<close>; the
  caller's address is returned as the second component.
\<close>

fun dlumtp_addr_get :: "os_ifr \<Rightarrow> string option \<Rightarrow> u32 option \<Rightarrow> int \<times> u32 option" where
  "dlumtp_addr_get os (Some ifname) (Some a) =
     (let (ret, local_addr) = get_local_address_ioctl os ifname SIOCGIFADDR;
          local_addr' = (if ret \<noteq> 0 then Some 0 else local_addr)
      in (ret, Some a))"
| "dlumtp_addr_get os _ a = (- EINVAL, a)"

fun dlumtp_bcast_addr_get ::
  "os_ifr \<Rightarrow> string option \<Rightarrow> u32 option \<Rightarrow> u32 option \<Rightarrow> (int \<times> u32 option) res" where
  "dlumtp_bcast_addr_get os (Some ifname) (Some laddr) (Some a) =
     (case get_local_address_ioctl os ifname SIOCGIFNETMASK of
        (ret, netmask) \<Rightarrow>
          if ret \<noteq> 0 then Inr (ret, Some (NOT 0))
          else (case netmask of
              None \<Rightarrow> Inl Uninit
            | Some nm \<Rightarrow> Inr (ret, Some (laddr OR NOT nm))))"
| "dlumtp_bcast_addr_get os _ _ a = Inr (- EINVAL, a)"

section \<open>The UDP transport\<close>

text \<open>The \<open>struct timeval\<close> for \<open>select\<close>: seconds and microseconds.\<close>

definition recv_timeval :: "u32 \<Rightarrow> int \<times> int" where
  "recv_timeval timeout =
     (if timeout \<ge> 1000
      then (let sec = uint timeout div 1000 in (sec, 1000 * (uint timeout - sec * 1000)))
      else (0, uint (1000 * timeout)))"

text \<open>
  What the socket delivers to one call: \<open>select\<close> reports nothing within the timeout (or fails),
  \<open>recvfrom\<close> fails, or a datagram with its source address, source port and contents.
\<close>

datatype udp_event = Select_none | Recv_fail | Datagram u32 u16 "u8 list"

text \<open>
  The result: the return value, \<open>*src\<close>, the buffer \<open>lpdu\<close> and the world. \<open>recvfrom\<close> truncates a
  datagram to \<open>max_pdu\<close>; what it stores must fit the local array of \<open>MAX_PDU\<close> bytes.
\<close>

fun dludp_recv_data ::
  "'w umtp_dl option \<Rightarrow> umtp_addr option \<Rightarrow> u8 list option \<Rightarrow> int \<Rightarrow> u32 \<Rightarrow> udp_event \<Rightarrow> 'w
   \<Rightarrow> (int \<times> umtp_addr option \<times> u8 list option \<times> 'w) res"
where
  "dludp_recv_data (Some dl) (Some src) (Some lpdu) max_pdu timeout ev w =
     (if socket dl < 0 then Inr (- EINVAL, Some src, Some lpdu, w)
      else case ev of
        Select_none \<Rightarrow> Inr (- ETIMEDOUT, Some src, Some lpdu, w)
      | Recv_fail \<Rightarrow> Inr (0, Some src, Some lpdu, w)
      | Datagram s_addr sin_port bs \<Rightarrow>
          let n = (if max_pdu < 0 then length bs else min (length bs) (nat max_pdu)) in
          bindE (arr_write (replicate MAX_PDU 0) 0 (take n bs)) (\<lambda>pdu.
          if n = 0 then Inr (0, Some src, Some lpdu, w)
          else if int n > max_pdu then Inr (- ENOMEM, Some src, Some lpdu, w)
          else if s_addr = dl_addr dl \<and> uint sin_port = port dl then Inr (0, Some src, Some lpdu, w)
          else if pdu ! 0 \<noteq> UMTP_SIGNATURE then Inr (0, Some src, Some lpdu, w)
          else bindE (put_addr src (u32_bytes s_addr) (u16_bytes sin_port)) (\<lambda>src'.
            case dl_decrypt dl of
              Some decrypt \<Rightarrow>
                bindE (decrypt (drop 1 pdu) (int n - 1) w) (\<lambda>(pdu_len, out, w').
                bindE (arr_write lpdu 0 out) (\<lambda>lpdu'.
                Inr (if pdu_len \<le> 0 then 0 else pdu_len, Some src', Some lpdu', w')))
            | None \<Rightarrow>
                bindE (arr_read pdu 1 (int n - 1)) (\<lambda>xs.
                bindE (arr_write lpdu 0 xs) (\<lambda>lpdu'.
                Inr (int n - 1, Some src', Some lpdu', w))))))"
| "dludp_recv_data _ src lpdu max_pdu timeout ev w = Inr (- EINVAL, src, lpdu, w)"

text \<open>
  \<open>sendto socket frame s_addr sin_port w\<close> gives the number of bytes sent, \<open>errno\<close> and the world.
  \<open>pdu\<close> is the array behind the pointer, \<open>pdu_len\<close> the length the caller claims.
\<close>

type_synonym 'w sendto_fun = "int \<Rightarrow> u8 list \<Rightarrow> u32 \<Rightarrow> u16 \<Rightarrow> 'w \<Rightarrow> int \<times> int \<times> 'w"

definition dludp_send_data ::
  "'w sendto_fun \<Rightarrow> 'w umtp_dl \<Rightarrow> umtp_addr \<Rightarrow> u8 list \<Rightarrow> int \<Rightarrow> 'w \<Rightarrow> (int \<times> 'w) res"
where
  "dludp_send_data sendto dl dst pdu pdu_len w =
     (if socket dl < 0 then Inr (- EBADF, w)
      else bindE (if addr_len dst = 0 then Inr (broadcast_addr dl, word_of_int (port dl))
                  else bindE (dlumtp_decode_address (Some dst)) (\<lambda>(_, r).
                    case r of None \<Rightarrow> Inl Uninit | Some ap \<Rightarrow> Inr ap)) (\<lambda>(s_addr, sin_port).
           bindE (case dl_encrypt dl of
               Some encrypt \<Rightarrow>
                 bindE (encrypt pdu pdu_len w) (\<lambda>(len, out, w').
                 bindE (arr_write (replicate MAX_PDU 0) 1 out) (\<lambda>buf. Inr (len, buf, w')))
             | None \<Rightarrow>
                 bindE (arr_read pdu 0 pdu_len) (\<lambda>xs.
                 bindE (arr_write (replicate MAX_PDU 0) 1 xs) (\<lambda>buf. Inr (pdu_len, buf, w))))
             (\<lambda>(len, buf, w').
           if dl_encrypt dl \<noteq> None \<and> len \<le> 0 then Inr (0, w')
           else bindE (arr_read (buf[0 := UMTP_SIGNATURE]) 0 (len + 1)) (\<lambda>frame.
             case sendto (socket dl) frame s_addr sin_port w' of (bytes_sent, errno, w'') \<Rightarrow>
               if bytes_sent \<noteq> len + 1 then Inr (- errno, w'') else Inr (0, w'')))))"

text \<open>
  The answers of the operating system to \<open>dludp_init\<close>: \<open>inet_aton\<close> (\<open>None\<close>: not an address, the
  destination is not written), the socket, and return value and \<open>errno\<close> of the two calls on it; and
  whether the C library prints something for a NULL string (glibc prints \<open>(null)\<close>; the standard does
  not define it).
\<close>

record os_init =
  oi_ifr :: os_ifr
  inet_aton :: "string \<Rightarrow> u32 option"
  os_socket :: "int \<times> int"
  os_setsockopt :: "int \<times> int"
  os_bind :: "u16 \<Rightarrow> int \<times> int"
  prints_null :: bool

definition eth0_or :: "string option \<Rightarrow> string" where
  "eth0_or i = (case i of Some n \<Rightarrow> n | None \<Rightarrow> ''eth0'')"

text \<open>
  The result: the return value, the descriptors closed (at the label \<open>close_socket\<close>) and the
  structure. The message printed on success passes \<open>dludp->ip\<close> to \<open>%s\<close>, which may be NULL.
\<close>

fun dludp_init :: "os_init \<Rightarrow> 'w umtp_dl option \<Rightarrow> (int \<times> int list \<times> 'w umtp_dl option) res" where
  "dludp_init os None = Inr (- EINVAL, [], None)"
| "dludp_init os (Some dl0) =
     (let dl1 = (if port dl0 \<le> 0 then dl0\<lparr>port := UMTP_DEFAULT_PORT\<rparr> else dl0);
          dl2 = (case ip dl1 of
              Some s \<Rightarrow> (case inet_aton os s of Some a \<Rightarrow> dl1\<lparr>dl_addr := a\<rparr> | None \<Rightarrow> dl1)
            | None \<Rightarrow>
                (case dlumtp_addr_get (oi_ifr os) (Some (eth0_or (intf dl1))) (Some (dl_addr dl1)) of
                   (_, Some a) \<Rightarrow> dl1\<lparr>dl_addr := a\<rparr> | (_, None) \<Rightarrow> dl1))
      in bindE (dlumtp_bcast_addr_get (oi_ifr os) (Some (eth0_or (intf dl2))) (Some (dl_addr dl2))
             (Some (broadcast_addr dl2))) (\<lambda>(_, bc).
         let dl3 = (case bc of Some a \<Rightarrow> dl2\<lparr>broadcast_addr := a\<rparr> | None \<Rightarrow> dl2);
             dl4 = dl3\<lparr>socket := fst (os_socket os)\<rparr>
         in if socket dl4 \<le> 0 then Inr (snd (os_socket os), [], Some dl4)
            else if fst (os_setsockopt os) \<noteq> 0
              then Inr (snd (os_setsockopt os), [socket dl4], Some (dl4\<lparr>socket := - 1\<rparr>))
            else if fst (os_bind os (htons (word_of_int (port dl4)))) \<noteq> 0
              then Inr (snd (os_bind os (htons (word_of_int (port dl4)))), [socket dl4], Some (dl4\<lparr>socket := - 1\<rparr>))
            else if ip dl4 = None \<and> \<not> prints_null os then Inl Bad_pointer
            else Inr (0, [], Some dl4)))"

text \<open>The descriptors closed, and the structure after the call.\<close>

fun dludp_exit :: "'w umtp_dl option \<Rightarrow> int list \<times> 'w umtp_dl option" where
  "dludp_exit None = ([], None)"
| "dludp_exit (Some dl) =
     (if socket dl \<noteq> 0 then ([socket dl], Some (dl\<lparr>socket := - 1\<rparr>)) else ([], Some dl))"

text \<open>\<open>umtp_dludp_destroy\<close> frees the structure: nothing is left of it.\<close>

definition umtp_dludp_destroy :: "'w umtp_dl option \<Rightarrow> int list" where
  "umtp_dludp_destroy dl = fst (dludp_exit dl)"

definition umtp_dludp_create ::
  "bool \<Rightarrow> string option \<Rightarrow> string option \<Rightarrow> int \<Rightarrow> 'w umtp_dl option" where
  "umtp_dludp_create malloc_ok interface ip_str prt =
     (if \<not> malloc_ok then None
      else Some \<lparr>dl_type = 0, intf = interface, socket = - 1, port = prt, ip = ip_str, dl_addr = 0,
        broadcast_addr = 0, dl_encrypt = None, dl_decrypt = None\<rparr>)"

section \<open>Addresses on the wire\<close>

definition addr_wf :: "umtp_addr \<Rightarrow> bool" where
  "addr_wf a \<longleftrightarrow> length (addr a) = MAX_MAC_LEN"

lemma put_addr_ok:
  assumes "addr_wf a" and "length xs = 4" and "length ys = 2"
  shows "put_addr a xs ys = Inr (a\<lparr>addr_len := 6, addr := xs @ ys @ drop 6 (addr a)\<rparr>)"
  using assms by (simp add: put_addr_def arr_write_def addr_wf_def)

lemma addr_wf_put [simp]:
  "addr_wf a \<Longrightarrow> length xs = 4 \<Longrightarrow> length ys = 2 \<Longrightarrow>
   addr_wf (a\<lparr>addr_len := 6, addr := xs @ ys @ drop 6 (addr a)\<rparr>)"
  by (simp add: addr_wf_def)

lemma decode_put:
  assumes "addr_wf a"
  shows "dlumtp_decode_address
      (Some (a\<lparr>addr_len := 6, addr := u32_bytes x @ u16_bytes y @ drop 6 (addr a)\<rparr>)) = Inr (6, Some (x, y))"
  using assms by (simp add: arr_read_def addr_wf_def)

text \<open>The address and port that \<open>dludp_send_data\<close> takes from a destination.\<close>

definition dest_of :: "'w umtp_dl \<Rightarrow> umtp_addr \<Rightarrow> u32 \<times> u16" where
  "dest_of dl dst =
     (if addr_len dst = 0 then (broadcast_addr dl, word_of_int (port dl))
      else (bytes_u32 (take 4 (addr dst)), bytes_u16 (take 2 (drop 4 (addr dst)))))"

lemma dludp_send_plain:
  assumes "0 \<le> socket dl" and "dl_encrypt dl = None" and "addr_wf dst" and "length pdu < MAX_PDU"
  shows "dludp_send_data sendto dl dst pdu (int (length pdu)) w =
    (case sendto (socket dl) (UMTP_SIGNATURE # pdu) (fst (dest_of dl dst)) (snd (dest_of dl dst)) w of
       (n, e, w') \<Rightarrow> Inr (if n \<noteq> int (length pdu) + 1 then - e else 0, w'))"
proof -
  obtain buf where buf: "arr_write (replicate MAX_PDU 0) (Suc 0) pdu = Inr buf"
    and frame: "arr_read (buf[0 := UMTP_SIGNATURE]) 0 (int (length pdu) + 1) = Inr (UMTP_SIGNATURE # pdu)"
    using assms(4) by (simp add: arr_write_def arr_read_def nat_add_distrib)
  have dest: "(if addr_len dst = 0 then Inr (broadcast_addr dl, word_of_int (port dl))
      else bindE (dlumtp_decode_address (Some dst)) (\<lambda>(_, r). case r of None \<Rightarrow> Inl Uninit | Some ap \<Rightarrow> Inr ap))
      = Inr (dest_of dl dst)"
    using assms(3) by (simp add: dest_of_def arr_read_def addr_wf_def)
  show ?thesis
    using assms(1,2) unfolding dludp_send_data_def dest bindE_Inr
    by (simp add: buf frame split: prod.split)
qed

lemma dludp_send_too_long:
  assumes "0 \<le> socket dl" and "dl_encrypt dl = None" and "addr_wf dst" and "MAX_PDU \<le> length pdu"
  shows "dludp_send_data sendto dl dst pdu (int (length pdu)) w = Inl Out_of_bounds"
  using assms
  by (auto simp: dludp_send_data_def arr_read_def arr_write_def addr_wf_def)

lemma dludp_recv_plain:
  assumes "0 \<le> socket dl" and "dl_decrypt dl = None" and "addr_wf src" and "length bs \<le> MAX_PDU"
    and "length bs \<le> length lpdu + 1" and "bs \<noteq> []"
  shows "dludp_recv_data (Some dl) (Some src) (Some lpdu) (int MAX_PDU) timeout (Datagram a p bs) w =
    (if a = dl_addr dl \<and> uint p = port dl \<or> hd bs \<noteq> UMTP_SIGNATURE then Inr (0, Some src, Some lpdu, w)
     else Inr (int (length bs) - 1,
       Some (src\<lparr>addr_len := 6, addr := u32_bytes a @ u16_bytes p @ drop 6 (addr src)\<rparr>),
       Some (tl bs @ drop (length bs - 1) lpdu), w))"
proof -
  obtain b xs where bs: "bs = b # xs" using assms(6) by (cases bs) auto
  have len: "length xs \<le> 2048" "length xs \<le> length lpdu" using assms(4,5) bs by auto
  have "min (length xs) 2048 = length xs" using len(1) by (rule min_absorb1)
  then have take: "take 2049 bs = bs" and min: "min (length bs) 2049 = Suc (length xs)"
    using bs len by (auto simp: min_def)
  show ?thesis
    using assms(1-3) len bs take min
    by (simp add: arr_write_def arr_read_def put_addr_ok Let_def)
qed

section \<open>Properties\<close>

definition ex_dl :: "unit umtp_dl" where
  "ex_dl = \<lparr>dl_type = 0, intf = Some ''eth0'', socket = 3, port = 11784, ip = Some ''10.0.0.1'',
     dl_addr = 0x0100000A, broadcast_addr = 0xFFFFFFFF, dl_encrypt = None, dl_decrypt = None\<rparr>"

definition ex_addr :: umtp_addr where
  "ex_addr = \<lparr>addr_len = 6, addr = [10, 0, 0, 2, 0x2E, 0x08, 0]\<rparr>"

definition ex_sendto :: "unit sendto_fun" where
  "ex_sendto s frame a p w = (int (length frame), 0, w)"

lemma ex_dl_facts: "0 \<le> socket ex_dl" "dl_encrypt ex_dl = None" "dl_decrypt ex_dl = None" "addr_wf ex_addr"
    "port ex_dl = 11784" "dl_addr ex_dl = 0x0100000A"
  by (simp_all add: ex_dl_def ex_addr_def addr_wf_def)

text \<open>C11. Framing round trip. Sending a payload of at most 2048 bytes puts exactly one frame on the
  socket, the signature byte and the payload, at the destination's address and port; and receiving
  that frame from any other host gives the payload back, its length, and the sender's address. The
  send returns 0 when the socket took the whole frame, and \<open>-errno\<close> when it took less; that is 0 too
  when \<open>errno\<close> is not set, as it need not be after a short \<open>sendto\<close>.\<close>

theorem dludp_frame_roundtrip:
  assumes "0 \<le> socket dl" and "dl_encrypt dl = None" and "addr_wf dst" and "length pdu < MAX_PDU"
    and "0 \<le> socket peer" and "dl_decrypt peer = None" and "addr_wf src" and "length pdu \<le> length lpdu"
    and "a \<noteq> dl_addr peer \<or> uint p \<noteq> port peer"
  shows "dludp_send_data sendto dl dst pdu (int (length pdu)) w =
      (case sendto (socket dl) (UMTP_SIGNATURE # pdu) (fst (dest_of dl dst)) (snd (dest_of dl dst)) w of
         (n, e, w') \<Rightarrow> Inr (if n \<noteq> int (length pdu) + 1 then - e else 0, w'))
    \<and> (\<exists>src'. dludp_recv_data (Some peer) (Some src) (Some lpdu) (int MAX_PDU) timeout
          (Datagram a p (UMTP_SIGNATURE # pdu)) v
        = Inr (int (length pdu), Some src', Some (pdu @ drop (length pdu) lpdu), v)
        \<and> addr_wf src' \<and> dlumtp_decode_address (Some src') = Inr (6, Some (a, p)))"
  using dludp_send_plain [OF assms(1-4)]
    dludp_recv_plain [of peer src "UMTP_SIGNATURE # pdu" lpdu timeout a p v] assms(4-9)
    decode_put [OF assms(7), of a p] addr_wf_put [OF assms(7), of "u32_bytes a" "u16_bytes p"]
  by auto

theorem dludp_frame_roundtrip_witness:
  "dludp_send_data ex_sendto ex_dl ex_addr [1, 0, 7] 3 () = Inr (0, ())
   \<and> (\<exists>src'. dludp_recv_data (Some ex_dl) (Some ex_addr) (Some [0, 0, 0, 0]) (int MAX_PDU) 1000
        (Datagram 0x0200000A 0x082E [0x68, 1, 0, 7]) () = Inr (3, Some src', Some [1, 0, 7, 0], ()))"
  using dludp_frame_roundtrip [of ex_dl ex_addr "[1, 0, 7]" ex_dl ex_addr "[0, 0, 0, 0]"
      "0x0200000A" "0x082E" ex_sendto "()" 1000 "()"] ex_dl_facts
  by (auto simp: ex_sendto_def)

text \<open>Only frames are delivered: a positive return value of \<open>dludp_recv_data\<close> means that a
  datagram arrived that starts with the signature byte and whose source is not the own address and
  port; the buffer starts with the rest of the datagram.\<close>

theorem dludp_recv_only_frames:
  assumes "dludp_recv_data (Some dl) (Some src) (Some lpdu) (int MAX_PDU) timeout ev w
      = Inr (r, src', Some out, w')"
    and "dl_decrypt dl = None" and "addr_wf src" and "0 < r"
  shows "\<exists>a p xs. ev = Datagram a p (UMTP_SIGNATURE # xs) \<and> (a \<noteq> dl_addr dl \<or> uint p \<noteq> port dl)
    \<and> nat r = min (length xs) (MAX_PDU - 1) \<and> take (nat r) out = take (nat r) xs"
proof (cases ev)
  case (Datagram a p bs)
  show ?thesis
  proof (cases bs)
    case Nil
    with assms Datagram show ?thesis by (auto simp: arr_write_def split: if_splits)
  next
    case (Cons b xs)
    have take: "take (min (length bs) 2049) bs = b # take (min (length xs) 2048) xs"
      using Cons by (simp add: take_Cons')
    from assms Datagram Cons show ?thesis
      by (auto simp: Let_def take arr_write_def arr_read_def res_simps nat_diff_distrib split: if_splits)
  qed
qed (use assms in \<open>auto split: if_splits\<close>)

theorem dludp_recv_only_frames_witness:
  "\<exists>a p xs. Datagram 0x0200000A 0x082E [0x68, 1, 0, 7] = Datagram a p (UMTP_SIGNATURE # xs)
     \<and> (a \<noteq> dl_addr ex_dl \<or> uint p \<noteq> port ex_dl) \<and> nat 3 = min (length xs) (MAX_PDU - 1)
     \<and> take (nat 3) [1, 0, 7, 0] = take (nat 3) xs"
proof -
  obtain src' where "dludp_recv_data (Some ex_dl) (Some ex_addr) (Some [0, 0, 0, 0]) (int MAX_PDU) 1000
      (Datagram 0x0200000A 0x082E [0x68, 1, 0, 7]) () = Inr (3, src', Some [1, 0, 7, 0], ())"
    using dludp_recv_plain [of ex_dl ex_addr "[0x68, 1, 0, 7]" "[0, 0, 0, 0]" 1000 "0x0200000A" "0x082E" "()"]
      ex_dl_facts by auto
  from dludp_recv_only_frames [OF this] show ?thesis using ex_dl_facts by simp
qed

text \<open>C33. Addresses: what \<open>dlumtp_encode_address\<close> stores for an IP address and a port is read back
  by \<open>dlumtp_decode_address\<close> as that address and the port in network byte order. The local address
  and the broadcast address of the interface are stored with the port in host byte order instead:
  the address \<open>dlumtp_get_umtp_addr\<close> gives out equals the encoded one exactly when swapping the
  port's bytes leaves it as it is.\<close>

theorem dlumtp_address_roundtrip:
  assumes "addr_wf a"
  shows "(\<exists>b. dlumtp_encode_address inet_addr (Some a) (Some i) prt = Inr (6, Some b) \<and> addr_wf b
        \<and> dlumtp_decode_address (Some b) = Inr (6, Some (inet_addr i, htons prt))
        \<and> (inet_addr i = dl_addr dl \<and> word_of_int (port dl) = prt \<longrightarrow>
           (dlumtp_get_umtp_addr (Some dl) (Some a) = Inr (Some b)) = (htons prt = prt)))
    \<and> (\<exists>b. dlumtp_get_umtp_addr (Some dl) (Some a) = Inr (Some b) \<and> addr_wf b
        \<and> dlumtp_decode_address (Some b) = Inr (6, Some (dl_addr dl, word_of_int (port dl))))
    \<and> (\<exists>b. dlumtp_get_umtp_bcast_addr (Some dl) (Some a) = Inr (Some b) \<and> addr_wf b
        \<and> dlumtp_decode_address (Some b) = Inr (6, Some (broadcast_addr dl, word_of_int (port dl))))"
proof -
  note put = put_addr_ok [OF assms, of "u32_bytes _" "u16_bytes _", simplified]
  define stored where "stored x y = a\<lparr>addr_len := 6, addr := u32_bytes x @ u16_bytes y @ drop 6 (addr a)\<rparr>" for x y
  have enc: "dlumtp_encode_address inet_addr (Some a) (Some i) prt = Inr (6, Some (stored (inet_addr i) (htons prt)))"
    and loc: "dlumtp_get_umtp_addr (Some dl) (Some a) = Inr (Some (stored (dl_addr dl) (word_of_int (port dl))))"
    and bc: "dlumtp_get_umtp_bcast_addr (Some dl) (Some a)
      = Inr (Some (stored (broadcast_addr dl) (word_of_int (port dl))))"
    by (simp_all add: put stored_def)
  have st: "addr_wf (stored x y)" "dlumtp_decode_address (Some (stored x y)) = Inr (6, Some (x, y))" for x y
    using addr_wf_put [OF assms, of "u32_bytes x" "u16_bytes y"] decode_put [OF assms, of x y]
    by (simp_all add: stored_def del: dlumtp_decode_address.simps)
  have inj: "stored x y = stored x z \<longleftrightarrow> y = z" for x y z
    by (metis Inr_inject option.inject prod.inject st(2))
  show ?thesis
    unfolding enc loc bc using st inj by (auto simp del: dlumtp_decode_address.simps)
qed

theorem dlumtp_address_roundtrip_witness:
  "addr_wf ex_addr \<and> (\<exists>b. dlumtp_encode_address (\<lambda>s. 0x0200000A) (Some ex_addr)
       (Some ''10.0.0.2'') 0x2E08 = Inr (6, Some b) \<and> dlumtp_decode_address (Some b) = Inr (6, Some (0x0200000A, htons 0x2E08)))"
proof -
  obtain b where "dlumtp_encode_address (\<lambda>s. 0x0200000A) (Some ex_addr) (Some ''10.0.0.2'') 0x2E08 = Inr (6, Some b)"
    and "dlumtp_decode_address (Some b) = Inr (6, Some (0x0200000A, htons 0x2E08))"
    using conjunct1 [OF dlumtp_address_roundtrip [OF ex_dl_facts(4), of "\<lambda>s. 0x0200000A" "''10.0.0.2''" "0x2E08" ex_dl]]
    by (elim exE conjE)
  then show ?thesis using ex_dl_facts(4) by blast
qed

text \<open>The filter for own messages. The socket is bound to \<open>htons(dl->port)\<close>, so a frame that the
  interface receives from itself carries that source port; the filter compares it with the port in
  host byte order. Hence the interface's own frame is dropped exactly when the port's two bytes are
  equal (257, 514, ...), and otherwise it is delivered to the upper layer as if a peer had sent it.\<close>

theorem dludp_own_frame:
  assumes "0 \<le> socket dl" and "dl_decrypt dl = None" and "addr_wf src" and "length xs < MAX_PDU"
    and "length xs \<le> length lpdu" and "0 < port dl" and "port dl < 65536"
  shows "\<exists>src' out. dludp_recv_data (Some dl) (Some src) (Some lpdu) (int MAX_PDU) timeout
      (Datagram (dl_addr dl) (htons (word_of_int (port dl))) (UMTP_SIGNATURE # xs)) w
    = Inr (if htons (word_of_int (port dl)) = word_of_int (port dl) then 0 else int (length xs),
        src', out, w)"
proof -
  have uint_port: "uint (word_of_int (port dl) :: u16) = port dl"
    using assms(6,7) by (simp add: unsigned_of_int take_bit_int_eq_self)
  then have "uint (htons (word_of_int (port dl))) = port dl
      \<longleftrightarrow> htons (word_of_int (port dl)) = word_of_int (port dl)"
    by (metis word_uint_eq_iff)
  then show ?thesis
    using dludp_recv_plain [OF assms(1-3), of "UMTP_SIGNATURE # xs" lpdu timeout "dl_addr dl"
        "htons (word_of_int (port dl))" w] assms(4,5) by auto
qed

theorem dludp_own_frame_witness:
  "\<exists>src' out. dludp_recv_data (Some ex_dl) (Some ex_addr) (Some [0, 0, 0, 0]) (int MAX_PDU) 1000
      (Datagram 0x0100000A 0x082E [0x68, 1, 0, 7]) () = Inr (3, src', out, ())"
proof -
  have h: "htons (word_of_int 11784) = 0x082E" by (simp add: htons_def)
  show ?thesis
    using dludp_own_frame [of ex_dl ex_addr "[1, 0, 7]" "[0, 0, 0, 0]" 1000 "()"]
    unfolding ex_dl_facts h using ex_dl_facts by (simp del: dludp_recv_data.simps)
qed

text \<open>C34. \<open>dludp_init\<close>, whatever the system calls answer. The port becomes the default one
  when none was given; a configured IP address becomes the interface's address, and without one the
  address stays as it was (\<open>dlumtp_addr_get\<close> does not write it); the broadcast address is the local
  address with the host bits of the netmask set, or all ones when the netmask query failed. When all
  three calls succeed, the result is 0, nothing is closed and the socket is open; the only fault is
  there: without an IP address the message printed last passes NULL to \<open>%s\<close>. When a call on the open
  socket fails, the result is its \<open>errno\<close>, the descriptor is closed, exactly once, and the socket is
  \<open>-1\<close>. When \<open>socket\<close> gives no descriptor, or descriptor 0, the result is \<open>errno\<close>, whatever that is,
  and nothing is closed; with descriptor 0 and no \<open>errno\<close> the result is 0 without a socket in use.\<close>

theorem dludp_init_spec:
  "\<exists>r closed d. dludp_init os (Some dl) =
      (if 0 < fst (os_socket os) \<and> fst (os_setsockopt os) = 0 \<and> fst (os_bind os (htons (word_of_int (port d)))) = 0
          \<and> ip dl = None \<and> \<not> prints_null os
       then Inl Bad_pointer else Inr (r, closed, Some d))
    \<and> port d = (if port dl \<le> 0 then UMTP_DEFAULT_PORT else port dl)
    \<and> dl_addr d = (case ip dl of None \<Rightarrow> dl_addr dl
        | Some s \<Rightarrow> (case inet_aton os s of None \<Rightarrow> dl_addr dl | Some a \<Rightarrow> a))
    \<and> (\<forall>ret nm. get_local_address_ioctl (oi_ifr os) (eth0_or (intf dl)) SIOCGIFNETMASK = (ret, nm) \<longrightarrow>
        broadcast_addr d = (if ret \<noteq> 0 then NOT 0 else dl_addr d OR NOT (the nm)))
    \<and> (r, closed, socket d) =
        (if fst (os_socket os) \<le> 0 then (snd (os_socket os), [], fst (os_socket os))
         else if fst (os_setsockopt os) \<noteq> 0 then (snd (os_setsockopt os), [fst (os_socket os)], - 1)
         else case os_bind os (htons (word_of_int (port d))) of
           (ret, errno) \<Rightarrow> if ret \<noteq> 0 then (errno, [fst (os_socket os)], - 1) else (0, [], fst (os_socket os)))
    \<and> dludp_init os None = Inr (- EINVAL, [], None :: 'w umtp_dl option)"
proof -
  obtain ret nm where q: "get_local_address_ioctl (oi_ifr os) (eth0_or (intf dl)) SIOCGIFNETMASK = (ret, nm)"
    by (cases "get_local_address_ioctl (oi_ifr os) (eth0_or (intf dl)) SIOCGIFNETMASK")
  have nm: "ret = 0 \<Longrightarrow> nm \<noteq> None"
    using q by (auto simp: get_local_address_ioctl_def split: prod.splits if_splits)
  define dl1 where "dl1 = (if port dl \<le> 0 then dl\<lparr>port := UMTP_DEFAULT_PORT\<rparr> else dl)"
  define dl2 where "dl2 = (case ip dl1 of
      Some s \<Rightarrow> (case inet_aton os s of Some a \<Rightarrow> dl1\<lparr>dl_addr := a\<rparr> | None \<Rightarrow> dl1)
    | None \<Rightarrow> (case dlumtp_addr_get (oi_ifr os) (Some (eth0_or (intf dl1))) (Some (dl_addr dl1)) of
          (_, Some a) \<Rightarrow> dl1\<lparr>dl_addr := a\<rparr> | (_, None) \<Rightarrow> dl1))"
  define bc where "bc = (if ret \<noteq> 0 then NOT 0 else dl_addr dl2 OR NOT (the nm))"
  define d where "d = dl2\<lparr>broadcast_addr := bc, socket := fst (os_socket os)\<rparr>"
  have dl1: "port dl1 = (if port dl \<le> 0 then UMTP_DEFAULT_PORT else port dl)" "ip dl1 = ip dl"
      "intf dl1 = intf dl" "dl_addr dl1 = dl_addr dl"
    by (simp_all add: dl1_def)
  have dl2: "port dl2 = port dl1" "intf dl2 = intf dl" "ip dl2 = ip dl" "dl_addr dl2 = (case ip dl of None \<Rightarrow> dl_addr dl
        | Some s \<Rightarrow> (case inet_aton os s of None \<Rightarrow> dl_addr dl | Some a \<Rightarrow> a))"
    by (simp_all add: dl2_def dl1 case_prod_beta split: option.split)
  have get: "dlumtp_bcast_addr_get (oi_ifr os) (Some (eth0_or (intf dl2))) (Some (dl_addr dl2))
      (Some (broadcast_addr dl2)) = Inr (ret, Some bc)"
    using q nm by (auto simp: dl2 bc_def)
  have init: "dludp_init os (Some dl) =
      (if socket d \<le> 0 then Inr (snd (os_socket os), [], Some d)
       else if fst (os_setsockopt os) \<noteq> 0 then Inr (snd (os_setsockopt os), [socket d], Some (d\<lparr>socket := - 1\<rparr>))
       else if fst (os_bind os (htons (word_of_int (port d)))) \<noteq> 0
         then Inr (snd (os_bind os (htons (word_of_int (port d)))), [socket d], Some (d\<lparr>socket := - 1\<rparr>))
       else if ip d = None \<and> \<not> prints_null os then Inl Bad_pointer
       else Inr (0, [], Some d))"
    unfolding dludp_init.simps Let_def dl1_def [symmetric] dl2_def [symmetric] get bindE_Inr
    by (simp add: d_def)
  have d: "ip d = ip dl" "socket d = fst (os_socket os)" "broadcast_addr d = bc" "dl_addr d = dl_addr dl2" "port d = port dl1"
    by (simp_all add: d_def dl2)
  define ok where "ok \<longleftrightarrow> fst (os_socket os) \<le> 0 \<or> fst (os_setsockopt os) = 0 \<and> fst (os_bind os (htons (word_of_int (port d)))) = 0"
  define d' where "d' = (if ok then d else d\<lparr>socket := - 1\<rparr>)"
  define r where "r = (if fst (os_socket os) \<le> 0 then snd (os_socket os)
    else if fst (os_setsockopt os) \<noteq> 0 then snd (os_setsockopt os)
    else if ok then 0 else snd (os_bind os (htons (word_of_int (port d)))))"
  have d': "port d' = port d" "dl_addr d' = dl_addr d" "broadcast_addr d' = broadcast_addr d" by (simp_all add: d'_def)
  show ?thesis
  proof (intro exI [of _ r] exI [of _ "if ok then [] else [fst (os_socket os)]"] exI [of _ d'] conjI)
    show "dludp_init os None = Inr (- EINVAL, [], None)" by simp
  qed (unfold init q d', use dl2(4) in \<open>auto simp: d dl1 bc_def r_def d'_def ok_def case_prod_beta\<close>)
qed

definition ex_os :: os_init where
  "ex_os = \<lparr>oi_ifr = \<lparr>os_ifr_socket = 4, os_ioctl = (\<lambda>n q. (0, 0x00FFFFFF))\<rparr>,
     inet_aton = (\<lambda>s. Some 0x0100000A), os_socket = (3, 0), os_setsockopt = (0, 0),
     os_bind = (\<lambda>p. if p = 0x082E then (0, 0) else (- 1, 98)), prints_null = True\<rparr>"

theorem dludp_init_spec_witness:
  "\<exists>d :: unit umtp_dl. dludp_init ex_os (umtp_dludp_create True None (Some ''10.0.0.1'') 0) = Inr (0, [], Some d) \<and> socket d = 3
     \<and> port d = 11784 \<and> dl_addr d = 0x0100000A \<and> broadcast_addr d = 0x0100000A OR NOT 0x00FFFFFF"
proof -
  have q: "get_local_address_ioctl (oi_ifr ex_os) i SIOCGIFNETMASK = (0, Some 0x00FFFFFF)" for i
    by (simp add: ex_os_def get_local_address_ioctl_def get_local_ifr_ioctl_def)
  obtain dl :: "unit umtp_dl" where dl: "umtp_dludp_create True None (Some ''10.0.0.1'') 0 = Some dl"
    and f: "port dl = 0" "ip dl = Some ''10.0.0.1''"
    by (simp add: umtp_dludp_create_def)
  have os: "os_socket ex_os = (3, 0)" "os_setsockopt ex_os = (0, 0)" "inet_aton ex_os s = Some 0x0100000A"
     "os_bind ex_os (htons 11784) = (0, 0)" for s
    by (simp_all add: ex_os_def htons_def)
  show ?thesis using dludp_init_spec [of ex_os dl] unfolding dl f q
    by (force simp: os simp del: dludp_init.simps)
qed

end
