(* ===== verification/Mpu.thy ===== *)
theory Mpu
  imports Ringbuf Datalink "HOL-Library.Signed_Division"
begin

text \<open>
  The message process unit of \<open>core/mpu.c\<close> and \<open>include/mpu.h\<close>: two ring buffers of packets, filled by
  the receiving thread and by senders, and emptied by one task that calls a handler per packet.

  The ring buffers are those of \<open>Ringbuf\<close>; the packets they hand out pointers to are typed objects,
  the map \<open>pkts\<close> from the address of a slot to the \<open>struct mpu_packet\<close> there. A handler gets the
  packet's contents and may change the structure and a world \<open>'w\<close> (it may enqueue further packets).
  The task is modelled turn by turn: \<open>mpu_turn\<close> is one iteration of its outer loop, for a given
  result of \<open>pthread_cond_timedwait\<close>; the inner loop may run forever (\<open>None\<close>).
\<close>

section \<open>State and operations\<close>

abbreviation (input) MAX_PDU_COUNT :: u32 where "MAX_PDU_COUNT \<equiv> 16"
abbreviation (input) MAX_MPU_DATA :: nat where "MAX_MPU_DATA \<equiv> 2000"

text \<open>\<open>sizeof(struct mpu_packet)\<close> on a 64-bit machine: 2 + 2000 + 8 bytes, padded, and a pointer.\<close>

abbreviation (input) SIZEOF_PACKET :: u32 where "SIZEOF_PACKET \<equiv> 2024"

record 'd mpu_packet =
  p_length :: u16
  p_buffer :: "u8 list"
  p_addr :: umtp_addr
  p_data :: 'd

record 'd mpu =
  recv_queue :: ring_buffer
  send_queue :: ring_buffer
  pkts :: "nat \<rightharpoonup> 'd mpu_packet"   \<comment> \<open>\<open>recv_buffer\<close> and \<open>send_buffer\<close>\<close>
  mpu_timeout :: u32
  mpu_running :: int

datatype mpu_queue = Recv_queue | Send_queue

fun get_queue :: "mpu_queue \<Rightarrow> 'd mpu \<Rightarrow> ring_buffer" where
  "get_queue Recv_queue m = recv_queue m"
| "get_queue Send_queue m = send_queue m"

fun set_queue :: "mpu_queue \<Rightarrow> ring_buffer \<Rightarrow> 'd mpu \<Rightarrow> 'd mpu" where
  "set_queue Recv_queue b m = m\<lparr>recv_queue := b\<rparr>"
| "set_queue Send_queue b m = m\<lparr>send_queue := b\<rparr>"

text \<open>
  \<open>mpu_create\<close>: \<open>None\<close> for the new object means that \<open>malloc\<close> failed; otherwise it is the memory
  \<open>malloc\<close> returned, with the addresses of its two packet arrays. \<open>malloc\<close> does not clear it and nothing
  here does: every packet starts with whatever bytes the memory held. These are an argument, so a
  theorem holds for all of them; but a byte of a packet that nothing has written is some byte, as
  reading a \<open>uint8_t\<close> from allocated memory gives an unspecified value, and reading it is no error of
  the model. A handler that reads beyond a short message reads such bytes.
\<close>

definition mpu_create :: "('d mpu \<times> nat \<times> nat) option \<Rightarrow> int \<times> 'd mpu option" where
  "mpu_create obj =
     (case obj of
        None \<Rightarrow> (- ENOMEM, None)
      | Some (m, recv_buffer, send_buffer) \<Rightarrow>
          (0, Some (m\<lparr>
             recv_queue := the (ringbuf_init (Some (recv_queue m)) recv_buffer SIZEOF_PACKET MAX_PDU_COUNT),
             send_queue := the (ringbuf_init (Some (send_queue m)) send_buffer SIZEOF_PACKET MAX_PDU_COUNT),
             mpu_timeout := 100\<rparr>)))"

text \<open>\<open>created\<close> is the result of \<open>pthread_create\<close>.\<close>

definition mpu_start :: "int \<Rightarrow> 'd mpu option \<Rightarrow> int \<times> 'd mpu option" where
  "mpu_start created mo =
     (case mo of
        None \<Rightarrow> (- EINVAL, None)
      | Some m \<Rightarrow>
          if created \<noteq> 0 then (created, Some (m\<lparr>mpu_running := 0\<rparr>)) else (0, Some (m\<lparr>mpu_running := 1\<rparr>)))"

definition mpu_put ::
  "mpu_queue \<Rightarrow> 'd mpu option \<Rightarrow> umtp_addr \<Rightarrow> 'd \<Rightarrow> u8 list option \<Rightarrow> int \<Rightarrow> (int \<times> 'd mpu option) res"
where
  "mpu_put q mo peer data msg len =
     (case mo of
        None \<Rightarrow> Inr (- EINVAL, mo)
      | Some m \<Rightarrow>
          (case msg of
             None \<Rightarrow> Inr (- EINVAL, mo)
           | Some bs \<Rightarrow>
               if mpu_running m = 0 then Inr (0, mo)
               else bindE (ringbuf_data_peek (Some (get_queue q m))) (\<lambda>p.
                 if p = NULL then Inr (- ENOMEM, mo)
                 else case pkts m p of
                   None \<Rightarrow> Inl Bad_pointer
                 | Some pkt \<Rightarrow>
                     bindE (arr_read bs 0 (max 0 len)) (\<lambda>xs.
                     bindE (arr_write (p_buffer pkt) 0 xs) (\<lambda>buf.
                     let m' = m\<lparr>pkts := (pkts m)(p \<mapsto>
                         pkt\<lparr>p_length := word_of_int len, p_buffer := buf, p_addr := peer, p_data := data\<rparr>)\<rparr>
                     in bindE (ringbuf_data_put (Some (get_queue q m')) p) (\<lambda>(done, bo).
                        Inr (if done then 0 else - ENOMEM,
                          Some (case bo of Some b \<Rightarrow> set_queue q b m' | None \<Rightarrow> m'))))))))"

definition mpu_put_recv ::
  "'d mpu option \<Rightarrow> umtp_addr \<Rightarrow> 'd \<Rightarrow> u8 list option \<Rightarrow> int \<Rightarrow> (int \<times> 'd mpu option) res"
where
  "mpu_put_recv mo src data msg len = mpu_put Recv_queue mo src data msg len"

definition mpu_put_send ::
  "'d mpu option \<Rightarrow> umtp_addr \<Rightarrow> 'd \<Rightarrow> u8 list option \<Rightarrow> int \<Rightarrow> (int \<times> 'd mpu option) res"
where
  "mpu_put_send mo dst data msg len = mpu_put Send_queue mo dst data msg len"

type_synonym ('d, 'w) mpu_handler = "'d mpu_packet \<Rightarrow> 'd mpu \<times> 'w \<Rightarrow> (int \<times> 'd mpu \<times> 'w) res"

definition mpu_msg_handle ::
  "mpu_queue \<Rightarrow> ('d, 'w) mpu_handler option \<Rightarrow> 'd mpu \<times> 'w \<Rightarrow> ('d mpu \<times> 'w) res"
where
  "mpu_msg_handle q handler mw =
     (if ringbuf_empty (Some (get_queue q (fst mw))) then Inr mw
      else bindE (ringbuf_peek (Some (get_queue q (fst mw)))) (\<lambda>p.
        if p = NULL then Inr mw
        else case handler of
          None \<Rightarrow> Inr mw
        | Some f \<Rightarrow>
            (case pkts (fst mw) p of
               None \<Rightarrow> Inl Bad_pointer
             | Some pkt \<Rightarrow>
                 bindE (f pkt mw) (\<lambda>(ret, m, w).
                   if ret \<noteq> 0 then Inr (m, w)
                   else bindE (ringbuf_pop Map.empty (Some (get_queue q m)) NULL) (\<lambda>(_, bo, _).
                     Inr (case bo of Some b \<Rightarrow> set_queue q b m | None \<Rightarrow> m, w))))))"

text \<open>The inner loop: while one of the queues is not empty, handle one packet of each.\<close>

partial_function (option) mpu_drain ::
  "('d, 'w) mpu_handler option \<Rightarrow> ('d, 'w) mpu_handler option \<Rightarrow> 'd mpu \<times> 'w \<Rightarrow> ('d mpu \<times> 'w) res option"
where
  "mpu_drain recv send mw =
     (if ringbuf_empty (Some (send_queue (fst mw))) \<and> ringbuf_empty (Some (recv_queue (fst mw)))
      then Some (Inr mw)
      else case bindE (mpu_msg_handle Recv_queue recv mw) (mpu_msg_handle Send_queue send) of
          Inl e \<Rightarrow> Some (Inl e)
        | Inr mw' \<Rightarrow> mpu_drain recv send mw')"

text \<open>
  The rest of a turn of the task, from the return of \<open>pthread_cond_timedwait\<close> with the result \<open>ret\<close>
  on; the inner loop does not look at \<open>running\<close>. The result says whether the task goes on, and whether
  it still holds the mutex: the error exit returns without unlocking it.
\<close>

definition mpu_after_wait ::
  "('d, 'w) mpu_handler option \<Rightarrow> ('d, 'w) mpu_handler option \<Rightarrow> int \<Rightarrow> 'd mpu \<times> 'w
   \<Rightarrow> (bool \<times> bool \<times> 'd mpu \<times> 'w) res"
where
  "mpu_after_wait recv send ret mw =
     (if ret = 0 then
        (case mpu_drain recv send mw of
           None \<Rightarrow> Inl No_return
         | Some r \<Rightarrow> bindE r (\<lambda>mw'. Inr (True, False, mw')))
      else if ret \<noteq> ETIMEDOUT then Inr (False, True, (fst mw)\<lparr>mpu_running := 0\<rparr>, snd mw)
      else Inr (True, False, mw))"

text \<open>One turn of the task: the test of \<open>running\<close>, the wait and what follows it.\<close>

definition mpu_turn ::
  "('d, 'w) mpu_handler option \<Rightarrow> ('d, 'w) mpu_handler option \<Rightarrow> int \<Rightarrow> 'd mpu \<times> 'w
   \<Rightarrow> (bool \<times> bool \<times> 'd mpu \<times> 'w) res"
where
  "mpu_turn recv send ret mw =
     (if mpu_running (fst mw) = 0 then Inr (False, False, mw) else mpu_after_wait recv send ret mw)"

text \<open>
  \<open>mpu_stop\<close> clears \<open>running\<close> and joins the task, so it returns when the task does. \<open>at\<close> is where the
  task is when \<open>running\<close> is cleared: \<open>None\<close> before the test of its loop, where it ends at once;
  \<open>Some ret\<close> in the turn before it, with \<open>ret\<close> the result of its wait, or with 0 before a round of its
  inner loop. It finishes that turn, with \<open>running\<close> cleared, and then finds it cleared, as a handler
  does not set it. If the inner loop does not end, \<open>mpu_stop\<close> does not return.
\<close>

definition mpu_stop ::
  "('d, 'w) mpu_handler option \<Rightarrow> ('d, 'w) mpu_handler option \<Rightarrow> int option \<Rightarrow> 'd mpu option \<Rightarrow> 'w
   \<Rightarrow> ('d mpu option \<times> 'w) res"
where
  "mpu_stop recv send at mo w =
     (case mo of
        None \<Rightarrow> Inr (None, w)
      | Some m \<Rightarrow>
          let m1 = m\<lparr>mpu_running := 0\<rparr> in
          (case at of
             None \<Rightarrow> Inr (Some m1, w)
           | Some ret \<Rightarrow> bindE (mpu_after_wait recv send ret (m1, w)) (\<lambda>(_, _, m2, w2). Inr (Some m2, w2))))"

text \<open>
  The time until which \<open>mpu_task\<close> waits, from the time of day in seconds and microseconds:
  seconds and nanoseconds. \<open>timeradd\<close> carries once.
\<close>

definition get_abstime :: "int \<times> int \<Rightarrow> u64 \<Rightarrow> int \<times> int" where
  "get_abstime now milliseconds =
     (case now of (sec, usec) \<Rightarrow>
        let total = usec + sint (milliseconds * 1000);
            (rsec, rusec) = (if total \<ge> 1000000 then (sec + 1, total - 1000000) else (sec, total))
        in (rsec + rusec sdiv 1000000, rusec smod 1000000 * 1000))"

section \<open>The queues\<close>

text \<open>The address of a slot, the packets of a queue oldest first, and what a handler sees of one.\<close>

definition slot_addr :: "ring_buffer \<Rightarrow> nat \<Rightarrow> nat" where
  "slot_addr b i = buffer b + i * 2024"

definition q_ok :: "ring_buffer \<Rightarrow> bool" where
  "q_ok b \<longleftrightarrow> rb_wf b \<and> element_size b = SIZEOF_PACKET \<and> element_count b = MAX_PDU_COUNT \<and> buffer b \<noteq> NULL"

definition q_pkts :: "mpu_queue \<Rightarrow> 'd mpu \<Rightarrow> 'd mpu_packet list" where
  "q_pkts q m = rb.content (\<lambda>i. the (pkts m (slot_addr (get_queue q m) i))) (get_queue q m)"

definition pkt_msg :: "'d mpu_packet \<Rightarrow> umtp_addr \<times> 'd \<times> u8 list" where
  "pkt_msg p = (p_addr p, p_data p, take (unat (p_length p)) (p_buffer p))"

definition mpu_wf :: "'d mpu \<Rightarrow> bool" where
  "mpu_wf m \<longleftrightarrow> q_ok (recv_queue m) \<and> q_ok (send_queue m)
     \<and> (buffer (recv_queue m) + 32384 \<le> buffer (send_queue m) \<or> buffer (send_queue m) + 32384 \<le> buffer (recv_queue m))
     \<and> (\<forall>q. \<forall>i < 16. \<exists>p. pkts m (slot_addr (get_queue q m) i) = Some p \<and> length (p_buffer p) = MAX_MPU_DATA)"

lemma mpu_wf_queue: "mpu_wf m \<Longrightarrow> q_ok (get_queue q m)"
  by (cases q) (auto simp: mpu_wf_def)

lemma mpu_wf_rb: "mpu_wf m \<Longrightarrow> rb_wf (get_queue q m)"
  using mpu_wf_queue [of m q] by (simp add: q_ok_def)

lemma q_ring_data: "q_ok b \<Longrightarrow> ring_data b c = Inr (slot_addr b (rb_slot b c))"
  using ring_data_slot [of "\<lambda>_. Some 0" b c]
  by (simp add: q_ok_def rb_ok_def rb_bytes_def mem_valid_def slot_addr_def)

lemma q_slot_less: "q_ok b \<Longrightarrow> rb_slot b c < 16"
  using rb_slot_less [of b c] by (simp add: q_ok_def)

lemma slot_addr_neq:
  assumes "mpu_wf m" and "i < 16" and "j < 16" and "q \<noteq> q' \<or> i \<noteq> j"
  shows "slot_addr (get_queue q m) i \<noteq> slot_addr (get_queue q' m) j"
  using assms by (cases q; cases q') (auto simp: mpu_wf_def slot_addr_def)

lemma slot_addr_nz: "mpu_wf m \<Longrightarrow> slot_addr (get_queue q m) i \<noteq> NULL"
  using mpu_wf_queue [of m q] by (simp add: q_ok_def slot_addr_def)

lemma get_set_queue [simp]:
  "get_queue q (set_queue q b m) = b" "q \<noteq> q' \<Longrightarrow> get_queue q (set_queue q' b m) = get_queue q m"
  "pkts (set_queue q b m) = pkts m" "get_queue q (m\<lparr>pkts := f\<rparr>) = get_queue q m"
  "mpu_running (set_queue q b m) = mpu_running m" "mpu_timeout (set_queue q b m) = mpu_timeout m"
  by (cases q; cases q'; simp)+

lemma set_queue_wf:
  assumes "mpu_wf m" and "rb_wf b" and "element_size b = element_size (get_queue q m)"
    and "element_count b = element_count (get_queue q m)" and "buffer b = buffer (get_queue q m)"
  shows "mpu_wf (set_queue q b m)"
proof -
  have get: "slot_addr (get_queue q' (set_queue q b m)) = slot_addr (get_queue q' m)" for q'
    using assms(5) by (cases "q = q'") (auto simp: slot_addr_def fun_eq_iff)
  have "q_ok b" using mpu_wf_queue [OF assms(1), of q] assms(2-5) by (simp add: q_ok_def)
  then show ?thesis
    using assms(1,5) unfolding mpu_wf_def get get_set_queue(3) by (cases q) auto
qed

lemma pkt_update_wf:
  assumes "mpu_wf m" and "length (p_buffer p) = MAX_MPU_DATA"
  shows "mpu_wf (m\<lparr>pkts := (pkts m)(a \<mapsto> p)\<rparr>)"
proof -
  have "get_queue q (m\<lparr>pkts := (pkts m)(a \<mapsto> p)\<rparr>) = get_queue q m" for q by simp
  then show ?thesis using assms unfolding mpu_wf_def by simp
qed

lemma q_pkts_empty: "mpu_wf m \<Longrightarrow> ringbuf_empty (Some (get_queue q m)) \<longleftrightarrow> q_pkts q m = []"
  using rb.content_empty [OF mpu_wf_rb] by (simp add: q_pkts_def del: ringbuf_empty.simps)

lemma q_pkts_full: "mpu_wf m \<Longrightarrow> ringbuf_full (Some (get_queue q m)) \<longleftrightarrow> length (q_pkts q m) = 16"
  using rb.content_full [OF mpu_wf_rb [of m q]] mpu_wf_queue [of m q]
  by (simp add: q_pkts_def q_ok_def del: ringbuf_full.simps)

lemma q_pkts_bound: "mpu_wf m \<Longrightarrow> length (q_pkts q m) \<le> 16"
  using rb.content_length [OF mpu_wf_rb [of m q]] mpu_wf_queue [of m q] by (simp add: q_pkts_def q_ok_def)

lemma q_pkts_other:
  assumes "mpu_wf m" and "q \<noteq> q'" and "i < 16"
  shows "q_pkts q' (m\<lparr>pkts := (pkts m)(slot_addr (get_queue q m) i \<mapsto> p)\<rparr>) = q_pkts q' m"
proof -
  have "j < 16" if "j \<in> set (rb_slots (get_queue q' m))" for j
    using that rb.slots_bound [OF mpu_wf_rb [OF assms(1)], of q'] mpu_wf_queue [OF assms(1), of q']
    by (auto simp: q_ok_def)
  then have "slot_addr (get_queue q' m) j \<noteq> slot_addr (get_queue q m) i" if "j \<in> set (rb_slots (get_queue q' m))" for j
    using slot_addr_neq [OF assms(1,3), of j q q'] assms(2) that by metis
  then show ?thesis unfolding q_pkts_def rb.content_def get_set_queue by (intro map_cong) simp_all
qed

lemma q_pkts_set_other: "q \<noteq> q' \<Longrightarrow> q_pkts q' (set_queue q b m) = q_pkts q' m"
  using get_set_queue(2) [of q' q b m] by (simp add: q_pkts_def)

section \<open>Putting a packet\<close>

lemma mpu_put_pkt:
  assumes wf: "mpu_wf m" and run: "mpu_running m \<noteq> 0" and room: "length (q_pkts q m) < 16"
    and len: "0 \<le> len" "len \<le> int MAX_MPU_DATA" "nat len \<le> length bs"
  obtains m' x where "mpu_put q (Some m) peer data (Some bs) len = Inr (0, Some m')" and "mpu_wf m'"
    and "q_pkts q m' = q_pkts q m @ [x]" and "pkt_msg x = (peer, data, take (nat len) bs)" and "unat (p_length x) = nat len"
    and "\<And>q'. q' \<noteq> q \<Longrightarrow> q_pkts q' m' = q_pkts q' m" and "mpu_running m' = mpu_running m"
proof -
  define b where "b = get_queue q m"
  define i where "i = rb_slot b (head b)"
  have ok: "q_ok b" "rb_wf b" using mpu_wf_queue [OF wf] mpu_wf_rb [OF wf] by (simp_all add: b_def)
  have nf: "\<not> ringbuf_full (Some b)" using q_pkts_full [OF wf, of q] room by (simp add: b_def)
  have i: "i < 16" using q_slot_less [OF ok(1)] by (simp add: i_def)
  have peek: "ringbuf_data_peek (Some b) = Inr (slot_addr b i)"
    using nf q_ring_data [OF ok(1)] by (simp add: i_def)
  have nz: "slot_addr b i \<noteq> NULL" using slot_addr_nz [OF wf] by (simp add: b_def)
  obtain pkt where pkt: "pkts m (slot_addr b i) = Some pkt" "length (p_buffer pkt) = MAX_MPU_DATA"
    using wf i unfolding mpu_wf_def b_def by blast
  define buf where "buf = take (nat len) bs @ drop (nat len) (p_buffer pkt)"
  define pkt' where "pkt' = pkt\<lparr>p_length := word_of_int len, p_buffer := buf, p_addr := peer, p_data := data\<rparr>"
  define m1 where "m1 = m\<lparr>pkts := (pkts m)(slot_addr b i \<mapsto> pkt')\<rparr>"
  have rd: "arr_read bs 0 (max 0 len) = Inr (take (nat len) bs)" using len by (simp add: arr_read_def)
  have wr: "arr_write (p_buffer pkt) 0 (take (nat len) bs) = Inr buf"
    using len pkt(2) by (simp add: arr_write_def buf_def min_def)
  have put: "ringbuf_data_put (Some b) (slot_addr b i) = Inr (True, Some (rb_commit b))"
    using nf q_ring_data [OF ok(1)] by (simp add: i_def)
  have eq: "mpu_put q (Some m) peer data (Some bs) len = Inr (0, Some (set_queue q (rb_commit b) m1))"
    using run peek nz pkt(1) rd wr put
    unfolding mpu_put_def option.case b_def [symmetric] m1_def pkt'_def
    by (simp add: b_def [symmetric] del: ringbuf_data_peek.simps ringbuf_data_put.simps)
  have lenb: "length buf = MAX_MPU_DATA" using arr_write_length [OF wr] pkt(2) by simp
  have wf1: "mpu_wf m1" unfolding m1_def by (rule pkt_update_wf [OF wf]) (simp add: pkt'_def lenb)
  have wf': "mpu_wf (set_queue q (rb_commit b) m1)"
    using set_queue_wf [OF wf1, of "rb_commit b" q] rb.inv_commit [OF ok(2) nf] by (simp add: m1_def b_def)
  have "q_pkts q (set_queue q (rb_commit b) m1) = q_pkts q m @ [pkt']"
  proof -
    have "slot_addr (rb_commit b) j = slot_addr b j" "slot_addr b j = slot_addr b k \<longleftrightarrow> j = k" for j k
      by (simp_all add: slot_addr_def)
    then have "(\<lambda>j. the (pkts m1 (slot_addr (rb_commit b) j))) = (\<lambda>j. the (pkts m (slot_addr b j)))(i := pkt')"
      by (auto simp: m1_def fun_eq_iff)
    then show ?thesis
      using rb.content_enqueue [OF ok(2) nf, of "\<lambda>j. the (pkts m (slot_addr b j))" pkt']
      by (simp add: q_pkts_def b_def i_def)
  qed
  moreover have ln: "unat (p_length pkt') = nat len"
    using len(1,2) by (simp add: pkt'_def unat_eq_nat_uint unsigned_of_int take_bit_int_eq_self)
  moreover have "pkt_msg pkt' = (peer, data, take (nat len) bs)"
    using len(3) unfolding pkt_msg_def ln by (simp add: pkt'_def buf_def)
  moreover have "q_pkts q' (set_queue q (rb_commit b) m1) = q_pkts q' m" if "q' \<noteq> q" for q'
    using that q_pkts_set_other [of q q' "rb_commit b" m1] q_pkts_other [OF wf, of q q' i pkt'] i
    by (simp add: m1_def b_def)
  ultimately show ?thesis using that eq wf' by (simp add: m1_def)
qed

lemma mpu_put_ok:
  assumes "mpu_wf m" and "mpu_running m \<noteq> 0" and "length (q_pkts q m) < 16"
    and "0 \<le> len" "len \<le> int MAX_MPU_DATA" "nat len \<le> length bs"
  obtains m' where "mpu_put q (Some m) peer data (Some bs) len = Inr (0, Some m')" and "mpu_wf m'"
    and "map pkt_msg (q_pkts q m') = map pkt_msg (q_pkts q m) @ [(peer, data, take (nat len) bs)]"
    and "\<And>q'. q' \<noteq> q \<Longrightarrow> q_pkts q' m' = q_pkts q' m" and "mpu_running m' = mpu_running m"
  by (rule mpu_put_pkt [OF assms, of peer data]) (simp add: that)

lemma mpu_put_full:
  "mpu_wf m \<Longrightarrow> mpu_running m \<noteq> 0 \<Longrightarrow> length (q_pkts q m) = 16 \<Longrightarrow>
   mpu_put q (Some m) peer data (Some bs) len = Inr (- ENOMEM, Some m)"
  using q_pkts_full [of m q] by (simp add: mpu_put_def del: ringbuf_full.simps)

lemma mpu_put_too_long:
  assumes wf: "mpu_wf m" and run: "mpu_running m \<noteq> 0" and room: "length (q_pkts q m) < 16"
    and len: "int MAX_MPU_DATA < len" "nat len \<le> length bs"
  shows "mpu_put q (Some m) peer data (Some bs) len = Inl Out_of_bounds"
proof -
  define b where "b = get_queue q m"
  define i where "i = rb_slot b (head b)"
  have ok: "q_ok b" using mpu_wf_queue [OF wf] by (simp add: b_def)
  have i: "i < 16" using q_slot_less [OF ok] by (simp add: i_def)
  have peek: "ringbuf_data_peek (Some b) = Inr (slot_addr b i)"
    using q_pkts_full [OF wf, of q] room q_ring_data [OF ok] by (simp add: i_def b_def)
  have nz: "slot_addr b i \<noteq> NULL" using slot_addr_nz [OF wf] by (simp add: b_def)
  obtain pkt where pkt: "pkts m (slot_addr b i) = Some pkt" "length (p_buffer pkt) = MAX_MPU_DATA"
    using wf i unfolding mpu_wf_def b_def by blast
  have "arr_read bs 0 (max 0 len) = Inr (take (nat len) bs)" using len by (simp add: arr_read_def)
  moreover have "MAX_MPU_DATA < nat len" using len(1) by simp
  ultimately show ?thesis
    using run peek nz pkt len
    unfolding mpu_put_def option.case b_def [symmetric]
    by (simp add: arr_write_def min_def del: ringbuf_data_peek.simps ringbuf_data_put.simps)
qed

section \<open>Handling a packet\<close>

definition q_pop :: "mpu_queue \<Rightarrow> 'd mpu \<Rightarrow> 'd mpu" where
  "q_pop q m = set_queue q (rb_release (get_queue q m)) m"

lemma q_pop_ok:
  assumes "mpu_wf m" and "q_pkts q m \<noteq> []"
  shows "mpu_wf (q_pop q m)" and "q_pkts q (q_pop q m) = tl (q_pkts q m)"
    and "q' \<noteq> q \<Longrightarrow> q_pkts q' (q_pop q m) = q_pkts q' m"
    and "ringbuf_pop Map.empty (Some (get_queue q m)) NULL = Inr (True, Some (rb_release (get_queue q m)), Map.empty)"
proof -
  let ?b = "get_queue q m"
  have ne: "\<not> ringbuf_empty (Some ?b)" using q_pkts_empty [OF assms(1)] assms(2) by blast
  show "mpu_wf (q_pop q m)"
    using set_queue_wf [OF assms(1), of "rb_release ?b" q] rb.inv_release [OF mpu_wf_rb [OF assms(1)] ne]
    by (simp add: q_pop_def)
  have "slot_addr (rb_release ?b) = slot_addr ?b" by (simp add: slot_addr_def fun_eq_iff)
  then show "q_pkts q (q_pop q m) = tl (q_pkts q m)"
    using rb.content_dequeue [OF mpu_wf_rb [OF assms(1)] ne, of "\<lambda>i. the (pkts m (slot_addr ?b i))"]
    by (simp add: q_pop_def q_pkts_def)
  show "q' \<noteq> q \<Longrightarrow> q_pkts q' (q_pop q m) = q_pkts q' m"
    by (simp add: q_pop_def q_pkts_set_other)
  show "ringbuf_pop Map.empty (Some ?b) NULL = Inr (True, Some (rb_release ?b), Map.empty)"
    using ne q_ring_data [OF mpu_wf_queue [OF assms(1)]] by simp
qed

lemma mpu_msg_handle_empty: "mpu_wf m \<Longrightarrow> q_pkts q m = [] \<Longrightarrow> mpu_msg_handle q f (m, w) = Inr (m, w)"
  using q_pkts_empty [of m q] by (simp add: mpu_msg_handle_def del: ringbuf_empty.simps)

text \<open>The handler is called with the oldest packet; if it returns 0, the oldest packet is dropped.\<close>

lemma mpu_msg_handle_first:
  assumes wf: "mpu_wf m" and x: "q_pkts q m = x # xs" and f: "f x (m, w) = Inr (ret, m1, w1)"
    and m1: "mpu_wf m1" "q_pkts q m1 \<noteq> []"
  shows "mpu_msg_handle q (Some f) (m, w) = Inr (if ret \<noteq> 0 then m1 else q_pop q m1, w1)"
proof -
  define b where "b = get_queue q m"
  define i where "i = rb_slot b (tail b)"
  have ok: "q_ok b" using mpu_wf_queue [OF wf] by (simp add: b_def)
  have ne: "\<not> ringbuf_empty (Some b)" using q_pkts_empty [OF wf, of q] x by (simp add: b_def)
  have i: "i < 16" using q_slot_less [OF ok] by (simp add: i_def)
  have peek: "ringbuf_peek (Some b) = Inr (slot_addr b i)"
    using ne q_ring_data [OF ok] by (simp add: i_def)
  have nz: "slot_addr b i \<noteq> NULL" using slot_addr_nz [OF wf] by (simp add: b_def)
  obtain pkt where pkt: "pkts m (slot_addr b i) = Some pkt" using wf i unfolding mpu_wf_def b_def by blast
  have "q_pkts q m = pkt # tl (q_pkts q m)"
    using rb.content_dequeue [OF mpu_wf_rb [OF wf, of q], of "\<lambda>i. the (pkts m (slot_addr b i))"] ne pkt
    by (simp add: q_pkts_def b_def i_def)
  then have "pkt = x" using x by simp
  then show ?thesis
    using ne peek nz pkt f q_pop_ok(4) [OF m1]
    unfolding mpu_msg_handle_def fst_conv b_def [symmetric]
    by (simp add: q_pop_def del: ringbuf_empty.simps ringbuf_peek.simps ringbuf_pop.simps)
qed

section \<open>The task's inner loop\<close>

text \<open>A handler that succeeds and leaves the queues alone, and the order in which packets are handled.\<close>

definition quiet_handler :: "('d mpu_packet \<Rightarrow> 'w \<Rightarrow> 'w) \<Rightarrow> ('d, 'w) mpu_handler" where
  "quiet_handler g pkt mw = Inr (0, fst mw, g pkt (snd mw))"

fun drain_order :: "'a list \<Rightarrow> 'b list \<Rightarrow> ('a + 'b) list" where
  "drain_order [] ss = map Inr ss"
| "drain_order rs [] = map Inl rs"
| "drain_order (r # rs) (s # ss) = Inl r # Inr s # drain_order rs ss"

lemma drain_order_Cons: "drain_order (r # rs) ss = Inl r # (case ss of [] \<Rightarrow> drain_order rs [] | s # ss' \<Rightarrow> Inr s # drain_order rs ss')"
  by (cases ss; cases rs) auto

definition q_pop_any :: "mpu_queue \<Rightarrow> 'd mpu \<Rightarrow> 'd mpu" where
  "q_pop_any q m = (if q_pkts q m = [] then m else q_pop q m)"

lemma q_pop_any_ok:
  assumes "mpu_wf m"
  shows "mpu_wf (q_pop_any q m)" and "q_pkts q (q_pop_any q m) = tl (q_pkts q m)"
    and "q' \<noteq> q \<Longrightarrow> q_pkts q' (q_pop_any q m) = q_pkts q' m" and "mpu_running (q_pop_any q m) = mpu_running m"
  using assms q_pop_ok(1,2) [OF assms, of q] q_pop_ok(3) [OF assms, of q q'] by (auto simp: q_pop_any_def)
    (simp add: q_pop_def)

lemma mpu_msg_handle_quiet:
  assumes "mpu_wf m"
  shows "mpu_msg_handle q (Some (quiet_handler g)) (m, w)
    = Inr (q_pop_any q m, case q_pkts q m of [] \<Rightarrow> w | x # _ \<Rightarrow> g x w)"
proof (cases "q_pkts q m")
  case Nil
  then show ?thesis using mpu_msg_handle_empty [OF assms] by (simp add: q_pop_any_def)
next
  case (Cons x xs)
  then show ?thesis
    using mpu_msg_handle_first [OF assms Cons, of "quiet_handler g" w 0 m "g x w"] assms
    by (simp add: quiet_handler_def q_pop_any_def)
qed

lemma mpu_drain_quiet:
  "mpu_wf m \<Longrightarrow> length (q_pkts Recv_queue m) + length (q_pkts Send_queue m) = n \<Longrightarrow>
   \<exists>m'. mpu_drain (Some (quiet_handler gr)) (Some (quiet_handler gs)) (m, w) =
      Some (Inr (m', fold (case_sum gr gs) (drain_order (q_pkts Recv_queue m) (q_pkts Send_queue m)) w))
     \<and> mpu_wf m' \<and> q_pkts Recv_queue m' = [] \<and> q_pkts Send_queue m' = [] \<and> mpu_running m' = mpu_running m"
proof (induction n arbitrary: m w rule: less_induct)
  case (less n)
  note wf = \<open>mpu_wf m\<close>
  let ?r = "q_pkts Recv_queue m" and ?s = "q_pkts Send_queue m"
  have e: "ringbuf_empty (Some (recv_queue m)) \<longleftrightarrow> ?r = []" "ringbuf_empty (Some (send_queue m)) \<longleftrightarrow> ?s = []"
    using q_pkts_empty [OF wf, of Recv_queue] q_pkts_empty [OF wf, of Send_queue] by auto
  show ?case
  proof (cases "?r = [] \<and> ?s = []")
    case True
    then show ?thesis using e wf by (simp add: mpu_drain.simps del: ringbuf_empty.simps)
  next
    case False
    define m1 where "m1 = q_pop_any Recv_queue m"
    define m2 where "m2 = q_pop_any Send_queue m1"
    define w1 where "w1 = (case ?r of [] \<Rightarrow> w | x # _ \<Rightarrow> gr x w)"
    define w2 where "w2 = (case ?s of [] \<Rightarrow> w1 | x # _ \<Rightarrow> gs x w1)"
    have m1: "mpu_wf m1" "q_pkts Recv_queue m1 = tl ?r" "q_pkts Send_queue m1 = ?s" "mpu_running m1 = mpu_running m"
      using q_pop_any_ok(1,2,4) [OF wf, of Recv_queue] q_pop_any_ok(3) [OF wf, of Send_queue Recv_queue]
      by (simp_all add: m1_def)
    have m2: "mpu_wf m2" "q_pkts Recv_queue m2 = tl ?r" "q_pkts Send_queue m2 = tl ?s" "mpu_running m2 = mpu_running m"
      using q_pop_any_ok(1,2,4) [OF m1(1), of Send_queue] q_pop_any_ok(3) [OF m1(1), of Recv_queue Send_queue] m1
      by (simp_all add: m2_def)
    have step: "bindE (mpu_msg_handle Recv_queue (Some (quiet_handler gr)) (m, w))
        (mpu_msg_handle Send_queue (Some (quiet_handler gs))) = Inr (m2, w2)"
      using mpu_msg_handle_quiet [OF wf, of Recv_queue gr w] mpu_msg_handle_quiet [OF m1(1), of Send_queue gs w1] m1(3)
      by (simp add: m1_def [symmetric] m2_def w1_def w2_def)
    have lt: "length (tl ?r) + length (tl ?s) < n" using False less.prems(2) by (cases ?r; cases ?s) auto
    have "fold (case_sum gr gs) (drain_order ?r ?s) w = fold (case_sum gr gs) (drain_order (tl ?r) (tl ?s)) w2"
      using False by (cases ?r; cases ?s) (auto simp: w1_def w2_def drain_order_Cons)
    moreover have "mpu_drain (Some (quiet_handler gr)) (Some (quiet_handler gs)) (m, w)
        = mpu_drain (Some (quiet_handler gr)) (Some (quiet_handler gs)) (m2, w2)"
      using False e step by (subst mpu_drain.simps) (auto simp del: ringbuf_empty.simps)
    ultimately show ?thesis
      using less.IH [OF lt m2(1), of w2] m2 by simp
  qed
qed

text \<open>A packet that its handler refuses stays where it is, and the loop goes on with it.\<close>

definition refuses :: "('w \<Rightarrow> bool) \<Rightarrow> ('d, 'w) mpu_handler \<Rightarrow> 'd mpu_packet \<Rightarrow> bool" where
  "refuses I f x \<longleftrightarrow> (\<forall>m w. I w \<longrightarrow> (\<exists>ret w'. ret \<noteq> 0 \<and> f x (m, w) = Inr (ret, m, w') \<and> I w'))"

definition leaves_queues :: "('w \<Rightarrow> bool) \<Rightarrow> ('d, 'w) mpu_handler \<Rightarrow> 'd mpu_packet \<Rightarrow> bool" where
  "leaves_queues I f x \<longleftrightarrow> (\<forall>m w. I w \<longrightarrow> (\<exists>ret w'. f x (m, w) = Inr (ret, m, w') \<and> I w'))"

lemma mpu_msg_handle_leaves:
  assumes "mpu_wf m" and "\<forall>x \<in> set (q_pkts q m). leaves_queues I f x" and "I w"
  obtains w' where "mpu_msg_handle q (Some f) (m, w) = Inr (m, w')" and "I w'"
  | w' where "mpu_msg_handle q (Some f) (m, w) = Inr (q_pop q m, w')" and "q_pkts q m \<noteq> []" and "I w'"
proof (cases "q_pkts q m")
  case Nil
  then show ?thesis using that(1) mpu_msg_handle_empty [OF assms(1)] assms(3) by metis
next
  case (Cons x xs)
  then have "leaves_queues I f x" using assms(2) by simp
  then obtain ret w' where f: "f x (m, w) = Inr (ret, m, w')" "I w'" using assms(3) unfolding leaves_queues_def by blast
  have "mpu_msg_handle q (Some f) (m, w) = Inr (if ret \<noteq> 0 then m else q_pop q m, w')"
    by (rule mpu_msg_handle_first [of m q x xs f w ret m w', OF assms(1) Cons f(1) assms(1)]) (simp add: Cons)
  then show ?thesis using that Cons f(2) by (cases "ret = 0") auto
qed

text \<open>The queues of a unit on which the loop is stuck with the packet \<open>x\<close>.\<close>

definition stuck_on :: "('w \<Rightarrow> bool) \<Rightarrow> ('d, 'w) mpu_handler \<Rightarrow> 'd mpu_packet \<Rightarrow> 'd mpu \<times> 'w \<Rightarrow> bool" where
  "stuck_on I send x mw \<longleftrightarrow> mpu_wf (fst mw) \<and> (\<exists>xs. q_pkts Recv_queue (fst mw) = x # xs)
     \<and> (\<forall>y \<in> set (q_pkts Send_queue (fst mw)). leaves_queues I send y) \<and> I (snd mw)"

lemma stuck_on_step:
  assumes "stuck_on I send x mw" and "refuses I recv x"
  obtains mw' where "bindE (mpu_msg_handle Recv_queue (Some recv) mw) (mpu_msg_handle Send_queue (Some send)) = Inr mw'"
    and "stuck_on I send x mw'"
proof -
  from assms(1) obtain m w xs where mw: "mw = (m, w)" and wf: "mpu_wf m" and x: "q_pkts Recv_queue m = x # xs" and I: "I w"
    and l: "\<forall>y \<in> set (q_pkts Send_queue m). leaves_queues I send y"
    by (cases mw) (auto simp: stuck_on_def)
  from assms(2) I obtain ret w1 where f: "ret \<noteq> 0" "recv x (m, w) = Inr (ret, m, w1)" "I w1"
    unfolding refuses_def by blast
  have h: "mpu_msg_handle Recv_queue (Some recv) (m, w) = Inr (m, w1)"
    using mpu_msg_handle_first [of m Recv_queue x xs recv w ret m w1, OF wf x f(2) wf] x f(1) by simp
  show ?thesis
  proof (cases rule: mpu_msg_handle_leaves [OF wf l f(3)])
    case (1 w2)
    then show ?thesis using that [of "(m, w2)"] h wf x l by (simp add: mw stuck_on_def)
  next
    case (2 w2)
    note pop = q_pop_ok(1,2) [OF wf 2(2)] q_pop_ok(3) [OF wf 2(2), of Recv_queue]
    have "set (tl (q_pkts Send_queue m)) \<subseteq> set (q_pkts Send_queue m)" by (cases "q_pkts Send_queue m") auto
    then show ?thesis
      using that [of "(q_pop Send_queue m, w2)"] h 2(1,3) pop x l by (auto simp: mw stuck_on_def)
  qed
qed

text \<open>The inner loop does not return from a set of states with a packet left that every round keeps.\<close>

lemma mpu_drain_never:
  assumes "P mw" and "\<And>mw. P mw \<Longrightarrow> mpu_wf (fst mw) \<and> (\<exists>q. q_pkts q (fst mw) \<noteq> [])"
    and "\<And>mw. P mw \<Longrightarrow> \<exists>mw'. bindE (mpu_msg_handle Recv_queue recv mw) (mpu_msg_handle Send_queue send) = Inr mw' \<and> P mw'"
  shows "mpu_drain recv send mw = None"
proof -
  have "\<not> P mw" if "mpu_drain recv send mw = Some y" for mw y
  proof (rule mpu_drain.raw_induct [where P = "\<lambda>r s mw y. r = recv \<longrightarrow> s = send \<longrightarrow> \<not> P mw",
        rule_format, OF _ that refl refl])
    fix loop r s and mw :: "'a mpu \<times> 'b" and y
    assume IH: "\<And>r s mw y. loop r s mw = Some y \<Longrightarrow> r = recv \<Longrightarrow> s = send \<Longrightarrow> \<not> P mw"
      and body: "(if ringbuf_empty (Some (send_queue (fst mw))) \<and> ringbuf_empty (Some (recv_queue (fst mw)))
        then Some (Inr mw)
        else case bindE (mpu_msg_handle Recv_queue r mw) (mpu_msg_handle Send_queue s) of
            Inl e \<Rightarrow> Some (Inl e) | Inr mw' \<Rightarrow> loop r s mw') = Some y"
      and rs: "r = recv" "s = send"
    show "\<not> P mw"
    proof
      assume P: "P mw"
      from assms(3) [OF this] obtain mw'
        where round: "bindE (mpu_msg_handle Recv_queue recv mw) (mpu_msg_handle Send_queue send) = Inr mw'" and P': "P mw'"
        by blast
      from assms(2) [OF P] obtain q where wf: "mpu_wf (fst mw)" and "q_pkts q (fst mw) \<noteq> []" by blast
      then have "\<not> (ringbuf_empty (Some (send_queue (fst mw))) \<and> ringbuf_empty (Some (recv_queue (fst mw))))"
        using q_pkts_empty [OF wf, of q] by (cases q) (simp_all del: ringbuf_empty.simps)
      then have "loop recv send mw' = Some y" using body unfolding rs round by (simp only: if_False sum.case)
      from IH [OF this refl refl] P' show False by simp
    qed
  qed
  with assms(1) show ?thesis by (metis not_Some_eq)
qed

lemma mpu_drain_stuck:
  assumes "refuses I recv x" and "stuck_on I send x mw"
  shows "mpu_drain (Some recv) (Some send) mw = None"
proof (rule mpu_drain_never [where P = "stuck_on I send x", OF assms(2)])
  show "mpu_wf (fst mw) \<and> (\<exists>q. q_pkts q (fst mw) \<noteq> [])" if "stuck_on I send x mw" for mw
    using that by (auto simp: stuck_on_def intro: exI [of _ Recv_queue])
next
  show "\<exists>mw'. bindE (mpu_msg_handle Recv_queue (Some recv) mw) (mpu_msg_handle Send_queue (Some send)) = Inr mw' \<and> stuck_on I send x mw'"
    if "stuck_on I send x mw" for mw
    by (rule stuck_on_step [OF that assms(1)]) blast
qed

text \<open>With nothing received, the loop does not get past a packet that cannot be sent either.\<close>

lemma mpu_drain_unsent:
  assumes "mpu_wf m" and "q_pkts Recv_queue m = []" and "q_pkts Send_queue m = x # xs" and "refuses I send x" and "I w"
  shows "mpu_drain recv (Some send) (m, w) = None"
proof (rule mpu_drain_never [where P = "\<lambda>mw. fst mw = m \<and> I (snd mw)"])
  show "fst (m, w) = m \<and> I (snd (m, w))" using assms(5) by simp
  show "mpu_wf (fst mw) \<and> (\<exists>q. q_pkts q (fst mw) \<noteq> [])" if "fst mw = m \<and> I (snd mw)" for mw
    using that assms(1,3) by (auto intro: exI [of _ Send_queue])
  show "\<exists>mw'. bindE (mpu_msg_handle Recv_queue recv mw) (mpu_msg_handle Send_queue (Some send)) = Inr mw'
      \<and> fst mw' = m \<and> I (snd mw')" if P: "fst mw = m \<and> I (snd mw)" for mw
  proof -
    obtain w where mw: "mw = (m, w)" "I w" using P by (cases mw) auto
    from assms(4) mw(2) obtain ret w1 where f: "ret \<noteq> 0" "send x (m, w) = Inr (ret, m, w1)" "I w1"
      unfolding refuses_def by blast
    have "mpu_msg_handle Send_queue (Some send) (m, w) = Inr (m, w1)"
      using mpu_msg_handle_first [of m Send_queue x xs send w ret m w1, OF assms(1,3) f(2) assms(1)] assms(3) f(1) by simp
    then show ?thesis using mpu_msg_handle_empty [OF assms(1,2), of recv w] f(3) by (simp add: mw(1))
  qed
qed

section \<open>Single packets\<close>

lemma q_pkts_buffer: "mpu_wf m \<Longrightarrow> x \<in> set (q_pkts q m) \<Longrightarrow> length (p_buffer x) = MAX_MPU_DATA"
proof -
  assume wf: "mpu_wf m" and "x \<in> set (q_pkts q m)"
  then obtain i where i: "i \<in> set (rb_slots (get_queue q m))" "x = the (pkts m (slot_addr (get_queue q m) i))"
    by (auto simp: q_pkts_def rb.content_def)
  have "i < 16" using rb.slots_bound [OF mpu_wf_rb [OF wf, of q]] i(1) mpu_wf_queue [OF wf, of q] by (auto simp: q_ok_def)
  then obtain y where "pkts m (slot_addr (get_queue q m) i) = Some y" "length (p_buffer y) = MAX_MPU_DATA"
    using wf unfolding mpu_wf_def by blast
  then show ?thesis using i(2) by simp
qed

text \<open>What a handler finds in a packet that carries the message \<open>bs\<close>.\<close>

lemma pkt_msg_buffer:
  assumes "mpu_wf m" and "x \<in> set (q_pkts q m)" and "pkt_msg x = (a, d, bs)" and "length bs < MAX_MPU_DATA"
  obtains rest where "p_buffer x = bs @ rest" and "p_length x = of_nat (length bs)" and "p_addr x = a" and "p_data x = d"
proof -
  have "length (p_buffer x) = MAX_MPU_DATA" by (rule q_pkts_buffer [OF assms(1,2)])
  moreover have "take (unat (p_length x)) (p_buffer x) = bs" using assms(3) by (simp add: pkt_msg_def)
  ultimately have "unat (p_length x) = length bs" "p_buffer x = bs @ drop (unat (p_length x)) (p_buffer x)"
    using assms(4) by (auto simp: min_def split: if_splits)
  moreover from this(1) have "p_length x = of_nat (length bs)" by (metis unsigned_of_nat word_unat_eq_iff of_nat_unat ucast_id)
  ultimately show ?thesis using that assms(3) by (auto simp: pkt_msg_def)
qed

lemma mpu_drain_empty:
  "mpu_wf m \<Longrightarrow> q_pkts Recv_queue m = [] \<Longrightarrow> q_pkts Send_queue m = [] \<Longrightarrow> mpu_drain recv send (m, w) = Some (Inr (m, w))"
  using q_pkts_empty [of m Recv_queue] q_pkts_empty [of m Send_queue]
  by (simp add: mpu_drain.simps del: ringbuf_empty.simps)

text \<open>One packet to send, and nothing received.\<close>

lemma mpu_turn_send_one:
  assumes wf: "mpu_wf m" and "mpu_running m \<noteq> 0" and r: "q_pkts Recv_queue m = []" and x: "q_pkts Send_queue m = [x]"
    and f: "send x (m, w) = Inr (0, m, w1)"
  obtains m' where "mpu_turn recv (Some send) 0 (m, w) = Inr (True, False, m', w1)" and "mpu_wf m'"
    and "q_pkts Recv_queue m' = []" and "q_pkts Send_queue m' = []" and "mpu_running m' = mpu_running m"
proof -
  let ?m = "q_pop Send_queue m"
  have m': "mpu_wf ?m" "q_pkts Send_queue ?m = []" "q_pkts Recv_queue ?m = []"
    using q_pop_ok(1,2) [OF wf, of Send_queue] q_pop_ok(3) [OF wf, of Send_queue Recv_queue] x r by simp_all
  have "mpu_msg_handle Recv_queue recv (m, w) = Inr (m, w)" by (rule mpu_msg_handle_empty [OF wf r])
  moreover have "mpu_msg_handle Send_queue (Some send) (m, w) = Inr (?m, w1)"
    using mpu_msg_handle_first [of m Send_queue x "[]" send w 0 m w1, OF wf x f wf] x by simp
  ultimately have "mpu_drain recv (Some send) (m, w) = Some (Inr (?m, w1))"
    using q_pkts_empty [OF wf, of Send_queue] x mpu_drain_empty [OF m'(1,3,2), of recv "Some send" w1]
    by (subst mpu_drain.simps) (simp del: ringbuf_empty.simps)
  then show ?thesis
    using that [of ?m] m' assms(2) by (simp add: mpu_turn_def mpu_after_wait_def q_pop_def)
qed

text \<open>One packet received, whose handler puts nothing, or one packet, into the other queue.\<close>

lemma mpu_turn_recv_one:
  assumes wf: "mpu_wf m" and "mpu_running m \<noteq> 0" and x: "q_pkts Recv_queue m = [x]"
    and f: "recv x (m, w) = Inr (0, m1, w1)" and wf1: "mpu_wf m1" and x1: "q_pkts Recv_queue m1 = [x]"
    and "mpu_running m1 \<noteq> 0"
    and s: "q_pkts Send_queue m1 = [] \<and> w2 = w1
      \<or> (\<exists>y. q_pkts Send_queue m1 = [y] \<and> (\<forall>m. send y (m, w1) = Inr (0, m, w2)))"
  obtains m' where "mpu_turn (Some recv) (Some send) 0 (m, w) = Inr (True, False, m', w2)" and "mpu_wf m'"
    and "q_pkts Recv_queue m' = []" and "q_pkts Send_queue m' = []" and "mpu_running m' \<noteq> 0"
proof -
  let ?m1 = "q_pop Recv_queue m1"
  have m1: "mpu_wf ?m1" "q_pkts Recv_queue ?m1 = []" "q_pkts Send_queue ?m1 = q_pkts Send_queue m1"
    using q_pop_ok(1,2) [OF wf1, of Recv_queue] q_pop_ok(3) [OF wf1, of Recv_queue Send_queue] x1 by simp_all
  have r: "mpu_msg_handle Recv_queue (Some recv) (m, w) = Inr (?m1, w1)"
    using mpu_msg_handle_first [of m Recv_queue x "[]" recv w 0 m1 w1, OF wf x f wf1] x1 by simp
  obtain m2 where m2: "mpu_msg_handle Send_queue (Some send) (?m1, w1) = Inr (m2, w2)" "mpu_wf m2"
    "q_pkts Recv_queue m2 = []" "q_pkts Send_queue m2 = []" "mpu_running m2 \<noteq> 0"
  proof (cases "q_pkts Send_queue m1")
    case Nil
    then show ?thesis
      using that [of ?m1] s mpu_msg_handle_empty [OF m1(1), of Send_queue "Some send" w1] m1 assms(7)
      by (simp add: q_pop_def)
  next
    case (Cons y ys)
    let ?m2 = "q_pop Send_queue ?m1"
    have y: "q_pkts Send_queue ?m1 = [y]" "send y (?m1, w1) = Inr (0, ?m1, w2)" using Cons s m1(3) by auto
    have "mpu_wf ?m2" "q_pkts Send_queue ?m2 = []" "q_pkts Recv_queue ?m2 = []"
      using q_pop_ok(1,2) [OF m1(1), of Send_queue] q_pop_ok(3) [OF m1(1), of Send_queue Recv_queue] y(1) m1(2) by simp_all
    then show ?thesis
      using that [of ?m2] mpu_msg_handle_first [of ?m1 Send_queue y "[]" send w1 0 ?m1 w2, OF m1(1) y m1(1)] y(1) assms(7)
      by (simp add: q_pop_def)
  qed
  have "mpu_drain (Some recv) (Some send) (m, w) = Some (Inr (m2, w2))"
    using q_pkts_empty [OF wf, of Recv_queue] x r m2(1) mpu_drain_empty [OF m2(2-4), of "Some recv" "Some send" w2]
    by (subst mpu_drain.simps) (simp del: ringbuf_empty.simps)
  then show ?thesis using that [of m2] m2 assms(2) by (simp add: mpu_turn_def mpu_after_wait_def)
qed

section \<open>The time to wait\<close>

text \<open>For a time of day as the system gives it, the result is a normal time, exactly the milliseconds later.\<close>

lemma get_abstime_adds:
  assumes "get_abstime (sec, usec) ms = (s, ns)" and "0 \<le> usec" and "usec < 1000000" and "uint ms < 1000000000"
  shows "0 \<le> ns \<and> ns < 1000000000 \<and> s * 1000000000 + ns = (sec * 1000000 + usec + uint ms * 1000) * 1000"
proof -
  have u: "uint (ms * 1000) = uint ms * 1000"
    using assms(4) by (simp add: uint_word_ariths(3) mod_pos_pos_trivial)
  have off: "sint (ms * 1000) = uint ms * 1000"
  proof -
    have "- (2 ^ 63) \<le> uint ms * 1000" by (rule order_trans [of _ 0]) simp_all
    moreover have "uint ms * 1000 < 2 ^ 63" using assms(4) by simp
    ultimately show ?thesis by (simp add: sint_uint u signed_take_bit_int_eq_self_iff)
  qed
  have sdiv: "x sdiv 1000000 = x div 1000000 \<and> x smod 1000000 = x mod 1000000" if "0 \<le> x" for x :: int
    using that by (simp add: signed_divide_int_def signed_modulo_int_def sgn_if)
  define t where "t = usec + uint ms * 1000"
  have t: "0 \<le> t" using assms(2) by (simp add: t_def)
  have shift: "(t - 1000000) div 1000000 = t div 1000000 - 1" "(t - 1000000) mod 1000000 = t mod 1000000"
    by simp_all
  have "s = sec + t div 1000000" and ns: "ns = t mod 1000000 * 1000"
    using assms(1) t sdiv [of t] sdiv [of "t - 1000000"]
    by (auto simp: get_abstime_def Let_def off t_def [symmetric] shift split: if_splits)
  moreover obtain q r where "t div 1000000 = q" "t mod 1000000 = r" "t = 1000000 * q + r" "0 \<le> r" "r < 1000000"
    using that [OF refl refl mult_div_mod_eq [symmetric]] by simp
  ultimately show ?thesis using t_def by (auto simp: algebra_simps)
qed
section \<open>Properties\<close>

definition ex_packet :: "unit mpu_packet" where
  "ex_packet = \<lparr>p_length = 0, p_buffer = replicate MAX_MPU_DATA 0, p_addr = ex_addr, p_data = ()\<rparr>"

text \<open>Memory for a fresh object, and the object after \<open>mpu_create\<close> and \<open>mpu_start\<close>.\<close>

definition ex_raw :: "unit mpu" where
  "ex_raw = \<lparr>recv_queue = ex_ring, send_queue = ex_ring, pkts = (\<lambda>_. Some ex_packet), mpu_timeout = 7, mpu_running = 0\<rparr>"

definition ex_mpu :: "unit mpu" where
  "ex_mpu = \<lparr>recv_queue = \<lparr>buffer = 4096, element_size = 2024, element_count = 16, head = 0, tail = 0\<rparr>,
     send_queue = \<lparr>buffer = 40960, element_size = 2024, element_count = 16, head = 0, tail = 0\<rparr>,
     pkts = (\<lambda>_. Some ex_packet), mpu_timeout = 100, mpu_running = 1\<rparr>"

lemma ex_mpu_facts: "mpu_wf ex_mpu" "mpu_running ex_mpu = 1" "q_pkts q ex_mpu = []"
proof -
  show wf: "mpu_wf ex_mpu" by (simp add: mpu_wf_def ex_mpu_def q_ok_def rb_wf_def ex_packet_def)
  show "mpu_running ex_mpu = 1" by (simp add: ex_mpu_def)
  have "ringbuf_empty (Some (get_queue q ex_mpu))" by (cases q) (simp_all add: ex_mpu_def)
  then show "q_pkts q ex_mpu = []" using q_pkts_empty [OF wf] by blast
qed

text \<open>C20. Putting a message. On a well-formed, running unit with a free packet, \<open>mpu_put_recv\<close> and
  \<open>mpu_put_send\<close> return 0 and append the message (peer, owner and bytes) to their own queue, leaving
  the other alone; when all 16 packets are in use they return \<open>-ENOMEM\<close> and change nothing. The
  length is not checked: more than 2000 bytes are written past the packet's buffer. A unit that is
  not running drops the message and still returns 0.\<close>

theorem mpu_put_spec:
  assumes "mpu_wf m" and "0 \<le> len" and "nat len \<le> length bs"
    and "(put, q) = (mpu_put_recv, Recv_queue) \<or> (put, q) = (mpu_put_send, Send_queue)"
  shows "(mpu_running m \<noteq> 0 \<longrightarrow>
      (if length (q_pkts q m) = 16 then put (Some m) peer data (Some bs) len = Inr (- ENOMEM, Some m)
       else if int MAX_MPU_DATA < len then put (Some m) peer data (Some bs) len = Inl Out_of_bounds
       else \<exists>m'. put (Some m) peer data (Some bs) len = Inr (0, Some m') \<and> mpu_wf m'
         \<and> map pkt_msg (q_pkts q m') = map pkt_msg (q_pkts q m) @ [(peer, data, take (nat len) bs)]
         \<and> (\<forall>q'. q' \<noteq> q \<longrightarrow> q_pkts q' m' = q_pkts q' m)))
    \<and> (mpu_running m = 0 \<longrightarrow> put (Some m) peer data (Some bs) len = Inr (0, Some m))
    \<and> put None peer data (Some bs) len = Inr (- EINVAL, None)
    \<and> put (Some m) peer data None len = Inr (- EINVAL, Some m)"
proof -
  have "\<exists>m'. mpu_put q (Some m) peer data (Some bs) len = Inr (0, Some m') \<and> mpu_wf m'
         \<and> map pkt_msg (q_pkts q m') = map pkt_msg (q_pkts q m) @ [(peer, data, take (nat len) bs)]
         \<and> (\<forall>q'. q' \<noteq> q \<longrightarrow> q_pkts q' m' = q_pkts q' m)"
    if "mpu_running m \<noteq> 0" "length (q_pkts q m) \<noteq> 16" "\<not> int MAX_MPU_DATA < len"
  proof -
    have room: "length (q_pkts q m) < 16" and le: "len \<le> int MAX_MPU_DATA"
      using q_pkts_bound [OF assms(1), of q] that by simp_all
    show ?thesis by (rule mpu_put_ok [OF assms(1) that(1) room assms(2) le assms(3)]) blast
  qed
  moreover have "mpu_put q (Some m) peer data (Some bs) len = Inl Out_of_bounds"
    if "mpu_running m \<noteq> 0" "length (q_pkts q m) \<noteq> 16" "int MAX_MPU_DATA < len"
    using mpu_put_too_long [OF assms(1) that(1) _ that(3) assms(3)] q_pkts_bound [OF assms(1), of q] that(2) by simp
  moreover have "put = mpu_put q" using assms(4) by (auto simp: fun_eq_iff mpu_put_recv_def mpu_put_send_def)
  ultimately show ?thesis
    using mpu_put_full [OF assms(1)] by (auto simp: mpu_put_def)
qed

theorem mpu_put_spec_witness:
  "\<exists>m'. mpu_put_send (Some ex_mpu) ex_addr () (Some [1, 2, 3]) 3 = Inr (0, Some m')
     \<and> map pkt_msg (q_pkts Send_queue m') = [(ex_addr, (), [1, 2, 3])] \<and> q_pkts Recv_queue m' = []"
proof -
  have "mpu_running ex_mpu \<noteq> 0" by (simp add: ex_mpu_facts)
  then obtain m' where "mpu_put_send (Some ex_mpu) ex_addr () (Some [1, 2, 3]) 3 = Inr (0, Some m')"
    "map pkt_msg (q_pkts Send_queue m') = map pkt_msg (q_pkts Send_queue ex_mpu) @ [(ex_addr, (), take (nat 3) [1, 2, 3])]"
    "\<forall>q'. q' \<noteq> Send_queue \<longrightarrow> q_pkts q' m' = q_pkts q' ex_mpu"
    using mpu_put_spec [OF ex_mpu_facts(1), of 3 "[1, 2, 3]" mpu_put_send Send_queue ex_addr "()"] by (auto simp: ex_mpu_facts(3))
  then show ?thesis by (auto simp: ex_mpu_facts(3))
qed

text \<open>C10. Draining. When both handlers succeed and put nothing into the queues, the inner loop of the task
  returns; it calls the receive handler on every received packet and the send handler on every
  packet to send, once each, oldest first, alternating between the queues while both have packets;
  and both queues are empty afterwards.\<close>

theorem mpu_drain_all:
  assumes "mpu_wf m" and "mpu_running m \<noteq> 0"
  shows "\<exists>m'. mpu_turn (Some (quiet_handler gr)) (Some (quiet_handler gs)) 0 (m, w) =
      Inr (True, False, m', fold (case_sum gr gs) (drain_order (q_pkts Recv_queue m) (q_pkts Send_queue m)) w)
     \<and> mpu_wf m' \<and> q_pkts Recv_queue m' = [] \<and> q_pkts Send_queue m' = [] \<and> mpu_running m' = mpu_running m"
  using mpu_drain_quiet [OF assms(1) refl, of gr gs w] assms(2) by (auto simp: mpu_turn_def mpu_after_wait_def)

theorem mpu_drain_all_witness:
  "\<exists>m m'. mpu_put_recv (Some ex_mpu) ex_addr () (Some [1, 2, 3]) 3 = Inr (0, Some m)
     \<and> mpu_turn (Some (quiet_handler (\<lambda>p w. w @ [pkt_msg p]))) (Some (quiet_handler (\<lambda>p w. w))) 0 (m, [])
       = Inr (True, False, m', [(ex_addr, (), [1, 2, 3])])"
proof -
  have run: "mpu_running ex_mpu \<noteq> 0" by (simp add: ex_mpu_facts)
  obtain m where put: "mpu_put Recv_queue (Some ex_mpu) ex_addr () (Some [1, 2, 3]) 3 = Inr (0, Some m)" "mpu_wf m"
    "map pkt_msg (q_pkts Recv_queue m) = map pkt_msg (q_pkts Recv_queue ex_mpu) @ [(ex_addr, (), take (nat 3) [1, 2, 3])]"
    "q_pkts Send_queue m = q_pkts Send_queue ex_mpu" "mpu_running m = mpu_running ex_mpu"
    by (rule mpu_put_ok [OF ex_mpu_facts(1) run, of Recv_queue 3 "[1, 2, 3]" ex_addr "()"])
      (simp_all add: ex_mpu_facts(3))
  then obtain x where x: "q_pkts Recv_queue m = [x]" "pkt_msg x = (ex_addr, (), [1, 2, 3])"
    by (auto simp: ex_mpu_facts(3))
  from put(5) run have "mpu_running m \<noteq> 0" by simp
  from mpu_drain_all [OF put(2) this, of "\<lambda>p w. w @ [pkt_msg p]" "\<lambda>p w. w" "[]"] show ?thesis
    using put(1,4) x by (auto simp: mpu_put_recv_def ex_mpu_facts(3))
qed

text \<open>A refused packet stops the unit. If the receive handler returns a nonzero value for the oldest
  received packet and leaves the queues alone, and sending the packets that wait leaves the queues
  alone too (whatever it returns), the packet is not removed and the task's inner loop never ends.
  (\<open>I\<close> is what the two handlers keep of the state they work on.)\<close>

theorem mpu_drain_refused:
  assumes "mpu_wf m" and "mpu_running m \<noteq> 0" and "q_pkts Recv_queue m = x # xs" and "I w" and "refuses I recv x"
    and "\<forall>y \<in> set (q_pkts Send_queue m). leaves_queues I send y"
  shows "mpu_turn (Some recv) (Some send) 0 (m, w) = Inl No_return"
  using mpu_drain_stuck [OF assms(5), of send "(m, w)"] assms by (simp add: mpu_turn_def mpu_after_wait_def stuck_on_def)

theorem mpu_drain_refused_witness:
  "\<exists>m. mpu_put_recv (Some ex_mpu) ex_addr () (Some [2]) 1 = Inr (0, Some m)
     \<and> mpu_turn (Some (\<lambda>p mw. Inr (- EPROTO, mw))) (Some (quiet_handler (\<lambda>p w. w))) 0 (m, ()) = Inl No_return"
proof -
  have run: "mpu_running ex_mpu \<noteq> 0" by (simp add: ex_mpu_facts)
  obtain m where put: "mpu_put Recv_queue (Some ex_mpu) ex_addr () (Some [2]) 1 = Inr (0, Some m)" "mpu_wf m"
    "map pkt_msg (q_pkts Recv_queue m) = map pkt_msg (q_pkts Recv_queue ex_mpu) @ [(ex_addr, (), take (nat 1) [2])]"
    "mpu_running m = mpu_running ex_mpu"
    by (rule mpu_put_ok [OF ex_mpu_facts(1) run, of Recv_queue 1 "[2]" ex_addr "()"])
      (simp_all add: ex_mpu_facts(3))
  then obtain x where x: "q_pkts Recv_queue m = [x]" by (auto simp: ex_mpu_facts(3))
  have r: "refuses (\<lambda>_. True) (\<lambda>p mw. Inr (- EPROTO, mw)) x" by (auto simp: refuses_def)
  have l: "leaves_queues (\<lambda>_. True) (quiet_handler (\<lambda>p (w :: unit). w)) y" for y
    by (auto simp: leaves_queues_def quiet_handler_def)
  from put(4) run have "mpu_running m \<noteq> 0" by simp
  from mpu_drain_refused [OF put(2) this x TrueI r, of "quiet_handler (\<lambda>p (w :: unit). w)" "()"] l put(1)
  show ?thesis by (auto simp: mpu_put_recv_def)
qed

text \<open>Memory that can hold a unit: two arrays of packets, apart from each other.\<close>

definition mpu_memory :: "'d mpu \<Rightarrow> nat \<Rightarrow> nat \<Rightarrow> bool" where
  "mpu_memory m a b \<longleftrightarrow> a \<noteq> NULL \<and> b \<noteq> NULL \<and> (a + 32384 \<le> b \<or> b + 32384 \<le> a)
     \<and> (\<forall>x. \<exists>p. pkts m x = Some p \<and> length (p_buffer p) = MAX_MPU_DATA)"

lemma mpu_create_ok:
  assumes "mpu_memory m a b"
  obtains m' where "mpu_create (Some (m, a, b)) = (0, Some m')" and "mpu_wf m'" and "\<forall>q. q_pkts q m' = []"
proof -
  define m' where "m' = m\<lparr>
      recv_queue := (recv_queue m)\<lparr>head := 0, tail := 0, buffer := a, element_size := SIZEOF_PACKET, element_count := MAX_PDU_COUNT\<rparr>,
      send_queue := (send_queue m)\<lparr>head := 0, tail := 0, buffer := b, element_size := SIZEOF_PACKET, element_count := MAX_PDU_COUNT\<rparr>,
      mpu_timeout := 100\<rparr>"
  have wf: "mpu_wf m'" using assms by (simp add: mpu_wf_def m'_def q_ok_def rb_wf_def mpu_memory_def)
  have "ringbuf_empty (Some (get_queue q m'))" for q by (cases q) (simp_all add: m'_def)
  then have "q_pkts q m' = []" for q using q_pkts_empty [OF wf] by blast
  moreover have "mpu_create (Some (m, a, b)) = (0, Some m')" by (simp add: mpu_create_def m'_def)
  ultimately show ?thesis using that wf by blast
qed

lemma mpu_running_wf: "mpu_wf (m\<lparr>mpu_running := r\<rparr>) = mpu_wf m" "q_pkts q (m\<lparr>mpu_running := r\<rparr>) = q_pkts q m"
proof -
  have "get_queue q (m\<lparr>mpu_running := r\<rparr>) = get_queue q m" for q by (cases q) simp_all
  then show "mpu_wf (m\<lparr>mpu_running := r\<rparr>) = mpu_wf m" "q_pkts q (m\<lparr>mpu_running := r\<rparr>) = q_pkts q m"
    by (simp_all add: mpu_wf_def q_pkts_def)
qed

text \<open>Life cycle. \<open>mpu_create\<close> on any memory for the object gives a well-formed unit with two empty
  queues; \<open>mpu_start\<close> makes it run exactly when the thread could be created, and returns that
  result; \<open>mpu_stop\<close> of it, started, returns wherever its task is, as there is nothing to handle, and
  it does not run then. A wait that fails with anything but a timeout ends the task, with the mutex
  still locked; a timeout changes nothing.\<close>

theorem mpu_life_cycle:
  assumes "mpu_memory m a b"
  shows "\<exists>m'. mpu_create (Some (m, a, b)) = (0, Some m') \<and> mpu_wf m' \<and> q_pkts Recv_queue m' = []
    \<and> q_pkts Send_queue m' = []
    \<and> mpu_start 0 (Some m') = (0, Some (m'\<lparr>mpu_running := 1\<rparr>))
    \<and> (\<forall>e. e \<noteq> 0 \<longrightarrow> mpu_start e (Some m') = (e, Some (m'\<lparr>mpu_running := 0\<rparr>)))
    \<and> (\<forall>recv send ret w. ret \<noteq> 0 \<longrightarrow> mpu_turn recv send ret (m'\<lparr>mpu_running := 1\<rparr>, w) =
        Inr (if ret = ETIMEDOUT then (True, False, m'\<lparr>mpu_running := 1\<rparr>, w)
             else (False, True, m'\<lparr>mpu_running := 0\<rparr>, w)))
    \<and> (\<forall>recv send at w. mpu_stop recv send at (Some (m'\<lparr>mpu_running := 1\<rparr>)) w = Inr (Some (m'\<lparr>mpu_running := 0\<rparr>), w))
    \<and> (\<forall>recv send ret w. mpu_turn recv send ret (m'\<lparr>mpu_running := 0\<rparr>, w) = Inr (False, False, m'\<lparr>mpu_running := 0\<rparr>, w))"
proof -
  obtain m' where m': "mpu_create (Some (m, a, b)) = (0, Some m')" "mpu_wf m'" "\<forall>q. q_pkts q m' = []"
    by (rule mpu_create_ok [OF assms])
  have "mpu_stop recv send at (Some (m'\<lparr>mpu_running := 1\<rparr>)) w = Inr (Some (m'\<lparr>mpu_running := 0\<rparr>), w)" for recv send at w
    using mpu_drain_empty [of "m'\<lparr>mpu_running := 0\<rparr>" recv send w] m'(2,3)
    by (auto simp: mpu_stop_def mpu_after_wait_def mpu_running_wf Let_def split: option.split)
  then show ?thesis
    using m' by (intro exI [of _ m']) (auto simp: mpu_start_def mpu_turn_def mpu_after_wait_def)
qed

theorem mpu_life_cycle_witness:
  "\<exists>m. mpu_create (Some (ex_raw, 4096, 40960)) = (0, Some m) \<and> mpu_wf m \<and> q_pkts Send_queue m = []"
  using mpu_life_cycle [of ex_raw 4096 40960] by (auto simp: mpu_memory_def ex_raw_def ex_packet_def)

end
