(* ===== verification/Mpu_Threads.thy ===== *)
theory Mpu_Threads
  imports Mpu
begin

text \<open>
  One packet queue of \<open>core/mpu.c\<close> shared between threads. The locking calls in \<open>mpu_put_recv\<close> and
  \<open>mpu_put_send\<close> are commented out, so a put is three separate actions (\<open>put_step\<close>): ask for the free
  slot (\<open>ringbuf_data_peek\<close>), fill the packet there, commit it (\<open>ringbuf_data_put\<close>). The task's
  \<open>mpu_msg_handle\<close> is two (\<open>task_step\<close>): take the oldest packet (\<open>ringbuf_peek\<close>) and call the handler with it; and,
  when the handler returns, remove the packet (\<open>ringbuf_pop\<close>) if it returned 0, and leave it where it is
  otherwise. \<open>queue_step I\<close> interleaves these actions for the producers in \<open>I\<close> and the one task. Each
  action is one call of the ring buffer functions, taken as atomic on a sequentially consistent machine.
  A put that finds no free slot, and a task that finds no packet, change nothing.
\<close>

datatype 'a put_pc = Put_idle | Put_peeked nat 'a | Put_written nat 'a

record 'a chan =
  ring :: ring_buffer
  cells :: "nat \<Rightarrow> 'a"
  pcs :: "nat \<Rightarrow> 'a put_pc"
  handling :: "(nat \<times> 'a) option"  \<comment> \<open>the packet that the handler works on, and what it was when the handler was called\<close>
  accepted :: "'a list"           \<comment> \<open>messages whose put returned 0, in that order\<close>
  calls :: "('a \<times> bool) list"    \<comment> \<open>calls of the handler that returned: the message, and whether the result was 0\<close>

inductive put_step :: "nat set \<Rightarrow> 'a chan \<Rightarrow> 'a chan \<Rightarrow> bool" for I where
  put_peek: "i \<in> I \<Longrightarrow> pcs s i = Put_idle \<Longrightarrow> ringbuf_data_peek (Some (ring s)) = Inr p \<Longrightarrow> p \<noteq> NULL \<Longrightarrow>
    put_step I s (s\<lparr>pcs := (pcs s)(i := Put_peeked p x)\<rparr>)"
| put_fill: "i \<in> I \<Longrightarrow> pcs s i = Put_peeked p x \<Longrightarrow>
    put_step I s (s\<lparr>cells := (cells s)(p := x), pcs := (pcs s)(i := Put_written p x)\<rparr>)"
| put_commit: "i \<in> I \<Longrightarrow> pcs s i = Put_written p x \<Longrightarrow>
    ringbuf_data_put (Some (ring s)) p = Inr (ok, Some b) \<Longrightarrow>
    put_step I s (s\<lparr>ring := b, pcs := (pcs s)(i := Put_idle),
      accepted := (if ok then accepted s @ [x] else accepted s)\<rparr>)"

inductive task_step :: "'a chan \<Rightarrow> 'a chan \<Rightarrow> bool" where
  task_call: "handling s = None \<Longrightarrow> \<not> ringbuf_empty (Some (ring s)) \<Longrightarrow> ringbuf_peek (Some (ring s)) = Inr p \<Longrightarrow> p \<noteq> NULL \<Longrightarrow>
    task_step s (s\<lparr>handling := Some (p, cells s p)\<rparr>)"
| task_fail: "handling s = Some (p, x) \<Longrightarrow> task_step s (s\<lparr>handling := None, calls := calls s @ [(x, False)]\<rparr>)"
| task_pop: "handling s = Some (p, x) \<Longrightarrow> ringbuf_pop Map.empty (Some (ring s)) NULL = Inr (ok, Some b, m) \<Longrightarrow>
    task_step s (s\<lparr>ring := b, handling := None, calls := calls s @ [(x, True)]\<rparr>)"

definition queue_step :: "nat set \<Rightarrow> 'a chan \<Rightarrow> 'a chan \<Rightarrow> bool" where
  "queue_step I s s' \<longleftrightarrow> put_step I s s' \<or> task_step s s'"

lemma put_then: "put_step I s s' \<Longrightarrow> (queue_step I)\<^sup>*\<^sup>* s' t \<Longrightarrow> (queue_step I)\<^sup>*\<^sup>* s t"
  and task_then: "task_step s s' \<Longrightarrow> (queue_step I)\<^sup>*\<^sup>* s' t \<Longrightarrow> (queue_step I)\<^sup>*\<^sup>* s t"
  by (auto simp: queue_step_def intro: converse_rtranclp_into_rtranclp)

text \<open>The messages that the handler has done with.\<close>

definition delivered :: "'a chan \<Rightarrow> 'a list" where
  "delivered s = map fst (filter snd (calls s))"

text \<open>The queue starts empty, as \<open>mpu_create\<close> leaves it, with no put or handler under way.\<close>

definition chan_init :: "'a chan \<Rightarrow> bool" where
  "chan_init s \<longleftrightarrow> q_ok (ring s) \<and> ringbuf_empty (Some (ring s)) \<and> (\<forall>i. pcs s i = Put_idle)
     \<and> handling s = None \<and> accepted s = [] \<and> calls s = []"

definition pending :: "'a chan \<Rightarrow> 'a list" where
  "pending s = rb.content (\<lambda>i. cells s (slot_addr (ring s) i)) (ring s)"

definition free_cell :: "'a chan \<Rightarrow> nat" where
  "free_cell s = slot_addr (ring s) (rb_slot (ring s) (head (ring s)))"

text \<open>The slot of the oldest packet; and every call of the handler is with the message whose turn it is: the one
  that as many calls have succeeded before as accepted messages come before it.\<close>

definition first_cell :: "'a chan \<Rightarrow> nat" where
  "first_cell s = slot_addr (ring s) (rb_slot (ring s) (tail (ring s)))"

definition in_turn :: "'a list \<Rightarrow> ('a \<times> bool) list \<Rightarrow> bool" where
  "in_turn xs cs \<longleftrightarrow> (\<forall>ys x ok zs. cs = ys @ (x, ok) # zs \<longrightarrow>
     length (filter snd ys) < length xs \<and> x = xs ! length (filter snd ys))"

text \<open>The invariant with one producer, number 0.\<close>

definition chan_inv :: "'a chan \<Rightarrow> bool" where
  "chan_inv s \<longleftrightarrow> q_ok (ring s)
     \<and> (\<forall>p x. pcs s 0 = Put_peeked p x \<longrightarrow> p = free_cell s \<and> \<not> ringbuf_full (Some (ring s)))
     \<and> (\<forall>p x. pcs s 0 = Put_written p x \<longrightarrow> p = free_cell s \<and> \<not> ringbuf_full (Some (ring s)) \<and> cells s p = x)
     \<and> (\<forall>p x. handling s = Some (p, x) \<longrightarrow> p = first_cell s \<and> pending s \<noteq> [] \<and> x = hd (pending s))
     \<and> accepted s = delivered s @ pending s \<and> in_turn (delivered s @ pending s) (calls s)"

lemma in_turn_Nil: "in_turn xs []"
  by (simp add: in_turn_def)

lemma in_turn_snoc:
  assumes "in_turn xs cs" and "length (filter snd cs) < length xs" and "x = xs ! length (filter snd cs)"
  shows "in_turn xs (cs @ [(x, ok)])"
  unfolding in_turn_def
proof (intro allI impI)
  fix ys y b zs
  assume eq: "cs @ [(x, ok)] = ys @ (y, b) # zs"
  show "length (filter snd ys) < length xs \<and> y = xs ! length (filter snd ys)"
  proof (cases zs rule: rev_cases)
    case Nil
    then have "ys = cs" "y = x" using eq by simp_all
    then show ?thesis using assms(2,3) by simp
  next
    case (snoc zs' z)
    then show ?thesis using eq assms(1) unfolding in_turn_def by auto
  qed
qed

lemma in_turn_more: "in_turn (xs @ ys) cs \<Longrightarrow> in_turn (xs @ ys @ [y]) cs"
  unfolding in_turn_def append_assoc [symmetric] by (metis length_append_singleton less_Suc_eq nth_append)

lemma calls_first:
  assumes "pending s \<noteq> []" and "in_turn (delivered s @ pending s) (calls s)"
  shows "in_turn (delivered s @ pending s) (calls s @ [(hd (pending s), ok)])"
proof (rule in_turn_snoc [OF assms(2)])
  have "length (filter snd (calls s)) = length (delivered s)" by (simp add: delivered_def)
  then show "length (filter snd (calls s)) < length (delivered s @ pending s)"
    "hd (pending s) = (delivered s @ pending s) ! length (filter snd (calls s))"
    using assms(1) by (simp_all add: nth_append hd_conv_nth)
qed

lemma slot_addr_inj: "slot_addr b i = slot_addr b j \<longleftrightarrow> i = j"
  by (simp add: slot_addr_def)

lemma slot_addr_counters [simp]:
  "slot_addr (b\<lparr>head := h\<rparr>) = slot_addr b" "slot_addr (b\<lparr>tail := t\<rparr>) = slot_addr b"
  by (simp_all add: slot_addr_def fun_eq_iff)

lemma rb_slot_counters [simp]: "rb_slot (b\<lparr>head := h\<rparr>) = rb_slot b" "rb_slot (b\<lparr>tail := t\<rparr>) = rb_slot b"
  by (simp_all add: rb_slot_def fun_eq_iff)

lemma cells_slot: "(\<lambda>i. (f(slot_addr b k := x)) (slot_addr b i)) = (\<lambda>i. f (slot_addr b i))(k := x)"
  by (auto simp: fun_eq_iff slot_addr_inj)

text \<open>The four effects on the pending messages, from the contract of the slot bookkeeping.\<close>

lemma pending_fill:
  assumes "q_ok (ring s)" and "\<not> ringbuf_full (Some (ring s))"
  shows "pending (s\<lparr>cells := (cells s)(free_cell s := x)\<rparr>) = pending s"
  using rb.content_write [of "ring s" "\<lambda>i. cells s (slot_addr (ring s) i)" x] assms
  by (simp add: pending_def free_cell_def cells_slot q_ok_def del: fun_upd_apply)

lemma pending_commit:
  assumes "q_ok (ring s)" and "\<not> ringbuf_full (Some (ring s))" and "cells s (free_cell s) = x"
  shows "pending (s\<lparr>ring := rb_commit (ring s), pcs := f, accepted := a\<rparr>) = pending s @ [x]"
proof -
  have "(\<lambda>i. cells s (slot_addr (ring s) i))(rb_slot (ring s) (head (ring s)) := x) = (\<lambda>i. cells s (slot_addr (ring s) i))"
    using assms(3) by (auto simp: fun_eq_iff free_cell_def)
  then show ?thesis
    using rb.content_enqueue [of "ring s" "\<lambda>i. cells s (slot_addr (ring s) i)" x] assms(1,2)
    by (simp add: pending_def q_ok_def)
qed

lemma pending_first:
  assumes "q_ok (ring s)" and "\<not> ringbuf_empty (Some (ring s))"
  shows "pending s = cells s (first_cell s) # pending (s\<lparr>ring := rb_release (ring s), handling := h, calls := c\<rparr>)"
  using rb.content_dequeue [of "ring s" "\<lambda>i. cells s (slot_addr (ring s) i)"] assms
  by (simp add: pending_def q_ok_def first_cell_def)

lemma pending_other [simp]:
  "pending (s\<lparr>pcs := f\<rparr>) = pending s" "pending (s\<lparr>handling := h\<rparr>) = pending s" "pending (s\<lparr>calls := c\<rparr>) = pending s"
  by (simp_all add: pending_def)

lemma cell_other [simp]:
  "free_cell (s\<lparr>pcs := f\<rparr>) = free_cell s" "free_cell (s\<lparr>handling := h\<rparr>) = free_cell s" "free_cell (s\<lparr>calls := c\<rparr>) = free_cell s"
  "free_cell (s\<lparr>cells := d\<rparr>) = free_cell s" "free_cell (s\<lparr>ring := rb_release (ring s)\<rparr>) = free_cell s"
  "first_cell (s\<lparr>pcs := f\<rparr>) = first_cell s" "first_cell (s\<lparr>handling := h\<rparr>) = first_cell s"
  "first_cell (s\<lparr>calls := c\<rparr>) = first_cell s" "first_cell (s\<lparr>cells := d\<rparr>) = first_cell s"
  "first_cell (s\<lparr>accepted := a\<rparr>) = first_cell s" "first_cell (s\<lparr>ring := rb_commit (ring s)\<rparr>) = first_cell s"
  by (simp_all add: free_cell_def first_cell_def)

lemma delivered_other [simp]:
  "delivered (s\<lparr>ring := b\<rparr>) = delivered s" "delivered (s\<lparr>cells := d\<rparr>) = delivered s" "delivered (s\<lparr>pcs := f\<rparr>) = delivered s"
  "delivered (s\<lparr>handling := h\<rparr>) = delivered s" "delivered (s\<lparr>accepted := a\<rparr>) = delivered s"
  "delivered (s\<lparr>handling := h, calls := calls s @ [(x, ok)]\<rparr>) = delivered s @ (if ok then [x] else [])"
  "delivered (s\<lparr>ring := b, handling := h, calls := calls s @ [(x, ok)]\<rparr>) = delivered s @ (if ok then [x] else [])"
  by (simp_all add: delivered_def)

lemma pending_empty: "q_ok (ring s) \<Longrightarrow> ringbuf_empty (Some (ring s)) \<longleftrightarrow> pending s = []"
  using rb.content_empty [of "ring s"] by (simp add: pending_def q_ok_def del: ringbuf_empty.simps)

lemma chan_inv_put:
  assumes "chan_inv s" and "put_step {0} s s'"
  shows "chan_inv s'"
  using assms(2)
proof cases
  case (put_peek i p x)
  have ok: "q_ok (ring s)" using assms(1) by (simp add: chan_inv_def)
  have "\<not> ringbuf_full (Some (ring s))" and "p = free_cell s"
    using put_peek(4,5) q_ring_data [OF ok] by (auto simp: free_cell_def split: if_splits)
  then show ?thesis using assms(1) put_peek by (simp add: chan_inv_def)
next
  case (put_fill i p x)
  then have p: "p = free_cell s" "\<not> ringbuf_full (Some (ring s))" and ok: "q_ok (ring s)"
    using assms(1) by (auto simp: chan_inv_def)
  then show ?thesis
    using assms(1) put_fill(1,2) pending_fill [OF ok p(2)] by (simp add: chan_inv_def)
next
  case (put_commit i p x ok b)
  then have p: "p = free_cell s" "\<not> ringbuf_full (Some (ring s))" "cells s (free_cell s) = x" and q: "q_ok (ring s)"
    using assms(1) by (auto simp: chan_inv_def)
  have "ringbuf_data_put (Some (ring s)) p = Inr (True, Some (rb_commit (ring s)))"
    using p(1,2) q_ring_data [OF q] by (simp add: free_cell_def)
  with put_commit have b: "ok" "b = rb_commit (ring s)" by simp_all
  have "q_ok (rb_commit (ring s))"
    using q rb.inv_commit [of "ring s"] p(2) by (simp add: q_ok_def)
  then show ?thesis
    using assms(1) put_commit(1,2) b pending_commit [OF q p(2,3)] by (auto simp: chan_inv_def in_turn_more)
qed

lemma chan_inv_task:
  assumes "chan_inv s" and "task_step s s'"
  shows "chan_inv s'"
  using assms(2)
proof cases
  case (task_call p)
  have ok: "q_ok (ring s)" using assms(1) by (simp add: chan_inv_def)
  have p: "p = first_cell s"
    using task_call(3,4) q_ring_data [OF ok] by (simp add: first_cell_def del: ringbuf_empty.simps)
  then show ?thesis
    using assms(1) task_call(1) pending_first [OF ok task_call(3), where h = None and c = "calls s"] by (simp add: chan_inv_def)
next
  case (task_fail p x)
  then show ?thesis using assms(1) calls_first [of s False] by (simp add: chan_inv_def)
next
  case (task_pop p x ok b m)
  have q: "q_ok (ring s)" and ne: "pending s \<noteq> []" and x: "x = hd (pending s)" and acc: "accepted s = delivered s @ pending s"
    and turn: "in_turn (delivered s @ pending s) (calls s)"
    using assms(1) task_pop(2) by (simp_all add: chan_inv_def)
  then have nz: "\<not> ringbuf_empty (Some (ring s))" using pending_empty by blast
  have "ringbuf_pop Map.empty (Some (ring s)) NULL = Inr (True, Some (rb_release (ring s)), Map.empty)"
    using nz q_ring_data [OF q] by simp
  with task_pop have b: "b = rb_release (ring s)" by simp
  have "q_ok (rb_release (ring s))" using q rb.inv_release [of "ring s"] nz by (simp add: q_ok_def)
  moreover have "\<not> ringbuf_full (Some (rb_release (ring s)))" if "\<not> ringbuf_full (Some (ring s))"
  proof -
    have "unat (head (ring s) - (tail (ring s) + 1)) < unat (element_count (ring s))"
      using rb_not_full_less [of "ring s"] rb_count_release [OF nz] q that by (simp add: q_ok_def)
    then show ?thesis by auto
  qed
  moreover have rest: "pending s = x # pending (s\<lparr>ring := rb_release (ring s), handling := None, calls := c\<rparr>)" for c
    using x pending_first [OF q nz, where h = None and c = c] by simp
  moreover have "in_turn (delivered s @ pending s) (calls s @ [(x, True)])" using calls_first [OF ne turn] x by simp
  ultimately show ?thesis
    using assms(1) task_pop(1) b acc rest [of "calls s @ [(x, True)]"] by (auto simp: chan_inv_def simp del: ringbuf_full.simps)
qed

lemma chan_inv_init: "chan_init s \<Longrightarrow> chan_inv s"
  using pending_empty [of s] by (auto simp: chan_init_def chan_inv_def delivered_def in_turn_Nil)

lemma chan_inv_reach: "(queue_step {0})\<^sup>*\<^sup>* s s' \<Longrightarrow> chan_inv s \<Longrightarrow> chan_inv s'"
  by (induction rule: rtranclp_induct) (auto simp: queue_step_def intro: chan_inv_put chan_inv_task)

section \<open>Properties\<close>

definition ex_chan :: "nat chan" where
  "ex_chan = \<lparr>ring = \<lparr>buffer = 4096, element_size = 2024, element_count = 16, head = 0, tail = 0\<rparr>,
     cells = (\<lambda>_. 0), pcs = (\<lambda>_. Put_idle), handling = None, accepted = [], calls = []\<rparr>"

lemma ex_chan_init: "chan_init ex_chan"
  by (simp add: chan_init_def ex_chan_def q_ok_def rb_wf_def)

lemma ex_chan_ring:
  fixes b defines "b \<equiv> ring ex_chan"
  shows "ringbuf_data_peek (Some b) = Inr 4096" "ringbuf_data_put (Some b) 4096 = Inr (True, Some (rb_commit b))"
    "ringbuf_data_put (Some (rb_commit b)) 4096 = Inr (False, Some (rb_commit b))"
    "ringbuf_peek (Some (rb_commit b)) = Inr 4096" "\<not> ringbuf_empty (Some (rb_commit b))"
    "ringbuf_pop Map.empty (Some (rb_commit b)) NULL = Inr (True, Some (rb_release (rb_commit b)), Map.empty)"
  by (simp_all add: b_def ex_chan_def ring_data_def)

text \<open>C18. One producer needs no lock. However the steps of one producer and of the task interleave, and
  whatever the handler returns at each call: the messages whose handling succeeded are the accepted ones, each once,
  in the order in which they were accepted; at most 16 accepted messages wait; every call of the
  handler is with the message whose turn it is, which is the same one again after a call that failed; and while
  the handler runs, the packet that it works on is the oldest one that waits, and stays as it was.\<close>

theorem mpu_single_producer_fifo:
  assumes "chan_init s" and "(queue_step {0})\<^sup>*\<^sup>* s s'"
  shows "\<exists>rest. accepted s' = map fst (filter snd (calls s')) @ rest \<and> length rest \<le> 16
    \<and> (\<forall>ys x ok zs. calls s' = ys @ (x, ok) # zs \<longrightarrow>
        length (filter snd ys) < length (accepted s') \<and> x = accepted s' ! length (filter snd ys))
    \<and> (\<forall>p x. handling s' = Some (p, x) \<longrightarrow> rest \<noteq> [] \<and> x = hd rest \<and> cells s' p = x)"
proof -
  have inv: "chan_inv s'" using chan_inv_reach [OF assms(2) chan_inv_init [OF assms(1)]] .
  then have q: "q_ok (ring s')" by (simp add: chan_inv_def)
  then have "length (pending s') \<le> 16"
    using rb.content_length [of "ring s'"] by (simp add: pending_def q_ok_def)
  moreover have "cells s' (first_cell s') = hd (pending s')" if "pending s' \<noteq> []"
    using pending_first [OF q] pending_empty [OF q] that by (metis list.sel(1))
  ultimately show ?thesis
    using inv unfolding chan_inv_def in_turn_def delivered_def by (intro exI [of _ "pending s'"]) auto
qed

text \<open>A message is put; the first call of the handler fails, the second succeeds.\<close>

theorem mpu_single_producer_fifo_witness:
  "\<exists>s'. (queue_step {0})\<^sup>*\<^sup>* ex_chan s' \<and> calls s' = [(7, False), (7, True)]
    \<and> (\<exists>rest. accepted s' = [7] @ rest \<and> length rest \<le> 16)"
proof -
  let ?b = "ring ex_chan"
  let ?s1 = "ex_chan\<lparr>pcs := (pcs ex_chan)(0 := Put_peeked 4096 7)\<rparr>"
  let ?s2 = "?s1\<lparr>cells := (cells ?s1)(4096 := 7), pcs := (pcs ?s1)(0 := Put_written 4096 7)\<rparr>"
  let ?s3 = "?s2\<lparr>ring := rb_commit ?b, pcs := (pcs ?s2)(0 := Put_idle),
      accepted := (if True then accepted ?s2 @ [7] else accepted ?s2)\<rparr>"
  let ?s4 = "?s3\<lparr>handling := Some (4096, cells ?s3 4096)\<rparr>"
  let ?s5 = "?s4\<lparr>handling := None, calls := calls ?s4 @ [(7, False)]\<rparr>"
  let ?s6 = "?s5\<lparr>handling := Some (4096, cells ?s5 4096)\<rparr>"
  let ?s7 = "?s6\<lparr>ring := rb_release (rb_commit ?b), handling := None, calls := calls ?s6 @ [(7, True)]\<rparr>"
  have idle: "pcs ex_chan i = Put_idle" "handling ex_chan = None" "calls ex_chan = []" for i by (simp_all add: ex_chan_def)
  note ring = ex_chan_ring
  have p: "put_step {0} ex_chan ?s1" by (rule put_peek) (use ring idle in simp_all)
  have q: "put_step {0} ?s1 ?s2" by (rule put_fill) simp_all
  have r: "put_step {0} ?s2 ?s3" by (rule put_commit) (use ring in simp_all)
  have t: "task_step ?s3 ?s4" by (rule task_call) (use ring idle in simp_all)
  have u: "task_step ?s4 ?s5" by (rule task_fail) simp
  have v: "task_step ?s5 ?s6" by (rule task_call) (use ring in simp_all)
  have w: "task_step ?s6 ?s7" by (rule task_pop) (use ring in simp_all)
  have run: "(queue_step {0})\<^sup>*\<^sup>* ex_chan ?s7"
    by (rule put_then [OF p] put_then [OF q] put_then [OF r] task_then [OF t] task_then [OF u] task_then [OF v]
        task_then [OF w] rtranclp.rtrancl_refl)+
  have c: "calls ?s7 = [(7, False), (7, True)]" by (simp add: idle)
  obtain s where s: "(queue_step {0})\<^sup>*\<^sup>* ex_chan s" "calls s = [(7, False), (7, True)]" using run c by blast
  then have "map fst (filter snd (calls s)) = [7]" by simp
  then show ?thesis using mpu_single_producer_fifo [OF ex_chan_init s(1)] s by auto
qed

text \<open>Two producers need one. With two threads putting into the same queue, an interleaving leads to
  a state in which one put returned 0 for its message, the other put failed, and the message the
  handler has done with is the one whose put failed; the accepted message is lost, as nothing waits any more.\<close>

theorem mpu_two_producers_lose:
  "\<exists>s'. (queue_step {0, 1})\<^sup>*\<^sup>* ex_chan s' \<and> accepted s' = [7] \<and> calls s' = [(8, True)]
    \<and> (\<forall>i. pcs s' i = Put_idle) \<and> handling s' = None \<and> ringbuf_empty (Some (ring s'))"
proof -
  let ?b = "ring ex_chan"
  note ring = ex_chan_ring
  let ?s1 = "ex_chan\<lparr>pcs := (pcs ex_chan)(0 := Put_peeked 4096 7)\<rparr>"
  let ?s2 = "?s1\<lparr>pcs := (pcs ?s1)(1 := Put_peeked 4096 8)\<rparr>"
  let ?s3 = "?s2\<lparr>cells := (cells ?s2)(4096 := 7), pcs := (pcs ?s2)(0 := Put_written 4096 7)\<rparr>"
  let ?s4 = "?s3\<lparr>cells := (cells ?s3)(4096 := 8), pcs := (pcs ?s3)(1 := Put_written 4096 8)\<rparr>"
  let ?s5 = "?s4\<lparr>ring := rb_commit ?b, pcs := (pcs ?s4)(0 := Put_idle),
      accepted := (if True then accepted ?s4 @ [7] else accepted ?s4)\<rparr>"
  let ?s6 = "?s5\<lparr>ring := rb_commit ?b, pcs := (pcs ?s5)(1 := Put_idle),
      accepted := (if False then accepted ?s5 @ [8] else accepted ?s5)\<rparr>"
  let ?s7 = "?s6\<lparr>handling := Some (4096, cells ?s6 4096)\<rparr>"
  let ?s8 = "?s7\<lparr>ring := rb_release (rb_commit ?b), handling := None, calls := calls ?s7 @ [(8, True)]\<rparr>"
  have idle: "pcs ex_chan i = Put_idle" "handling ex_chan = None" "calls ex_chan = []" "accepted ex_chan = []" for i
    by (simp_all add: ex_chan_def)
  have p: "put_step {0, 1} ex_chan ?s1" by (rule put_peek) (use ring idle in simp_all)
  have q: "put_step {0, 1} ?s1 ?s2" by (rule put_peek) (use ring idle in simp_all)
  have r: "put_step {0, 1} ?s2 ?s3" by (rule put_fill) simp_all
  have s: "put_step {0, 1} ?s3 ?s4" by (rule put_fill) simp_all
  have t: "put_step {0, 1} ?s4 ?s5" by (rule put_commit) (use ring in simp_all)
  have u: "put_step {0, 1} ?s5 ?s6" by (rule put_commit) (use ring in simp_all)
  have v: "task_step ?s6 ?s7" by (rule task_call) (use ring idle in simp_all)
  have w: "task_step ?s7 ?s8" by (rule task_pop) (use ring in simp_all)
  have "(queue_step {0, 1})\<^sup>*\<^sup>* ex_chan ?s8"
    by (rule put_then [OF p] put_then [OF q] put_then [OF r] put_then [OF s] put_then [OF t] put_then [OF u] task_then [OF v]
        task_then [OF w] rtranclp.rtrancl_refl)+
  moreover have "accepted ?s8 = [7]" "calls ?s8 = [(8, True)]" "\<forall>i. pcs ?s8 i = Put_idle" "handling ?s8 = None"
    by (simp_all add: idle)
  moreover have "ringbuf_empty (Some (ring ?s8))" by (simp add: ex_chan_def)
  ultimately show ?thesis by blast
qed

end
