(* ===== verification/Session.thy ===== *)
theory Session
  imports Datalink
begin

text \<open>
  The session table of \<open>core/session.c\<close> and \<open>include/session.h\<close>: 255 slots that keep a confirmed
  request until its answer arrives, with the retry counter and the timer.

  The static variables are the record \<open>session_state\<close>; the two settings of \<open>core/apdu.c\<close> that this
  file reads through \<open>apdu_timeout()\<close> and \<open>apdu_retry()\<close> are kept in it as well. The \<open>timeout\<close>
  pointer of a slot is an abstract name \<open>'t\<close>, its \<open>data\<close> pointer an abstract \<open>'u\<close>; calling the one
  and sending to the other are arguments of \<open>umtp_session_process\<close>, functions on the table and the
  world \<open>'w\<close>. A session identifier is 0 exactly when the slot is free.
\<close>

section \<open>State\<close>

abbreviation (input) MAX_UMTP_SESSION :: nat where "MAX_UMTP_SESSION \<equiv> 255"

record ('t, 'u) umtp_session =
  session_id :: u8
  waiting :: bool
  retry :: u8
  timer :: u32
  s_timeout :: "'t option"
  s_dest :: umtp_addr
  s_pdu :: "u8 list"
  s_pdu_len :: u16
  s_data :: 'u

record ('t, 'u) session_state =
  next_session_id :: int
  sessions :: "('t, 'u) umtp_session list"
  umtp_apdu_timeout :: u32
  umtp_apdu_retry :: u8

definition apdu_retry :: "('t, 'u) session_state \<Rightarrow> u8" where
  "apdu_retry S = umtp_apdu_retry S"

definition apdu_retry_set :: "u8 \<Rightarrow> ('t, 'u) session_state \<Rightarrow> ('t, 'u) session_state" where
  "apdu_retry_set count S = S\<lparr>umtp_apdu_retry := count\<rparr>"

definition apdu_timeout :: "('t, 'u) session_state \<Rightarrow> u32" where
  "apdu_timeout S = umtp_apdu_timeout S"

definition apdu_timeout_set :: "u32 \<Rightarrow> ('t, 'u) session_state \<Rightarrow> ('t, 'u) session_state" where
  "apdu_timeout_set tmo S = S\<lparr>umtp_apdu_timeout := tmo\<rparr>"

section \<open>Operations\<close>

text \<open>The \<open>for\<close> loop over the table; \<open>MAX_UMTP_SESSION\<close> means not found.\<close>

fun index_loop :: "('t, 'u) umtp_session list \<Rightarrow> nat \<Rightarrow> u8 \<Rightarrow> u8" where
  "index_loop [] i sid = of_nat MAX_UMTP_SESSION"
| "index_loop (s # ss) i sid = (if session_id s = sid then of_nat i else index_loop ss (Suc i) sid)"

definition session_get_index :: "('t, 'u) session_state \<Rightarrow> u8 \<Rightarrow> u8" where
  "session_get_index S sid = index_loop (sessions S) 0 sid"

text \<open>\<open>session_id++; if (session_id == 0) session_id = 1;\<close> on the \<open>int\<close> counter.\<close>

definition incr_session_id :: "int \<Rightarrow> int res" where
  "incr_session_id n =
     (if n \<ge> INT_MAX then Inl Signed_overflow else Inr (if n + 1 = 0 then 1 else n + 1))"

definition upd_session ::
  "nat \<Rightarrow> (('t, 'u) umtp_session \<Rightarrow> ('t, 'u) umtp_session) \<Rightarrow> ('t, 'u) session_state \<Rightarrow> ('t, 'u) session_state res"
where
  "upd_session i f S =
     bindE (arr_get (sessions S) i) (\<lambda>s.
     bindE (arr_set (sessions S) i (f s)) (\<lambda>ss. Inr (S\<lparr>sessions := ss\<rparr>)))"

text \<open>The \<open>while (!fount)\<close> loop; \<open>session_id\<close> is truncated where it is passed as \<open>uint8_t\<close>.\<close>

partial_function (option) free_session_loop ::
  "('t, 'u) session_state \<Rightarrow> (u8 \<times> ('t, 'u) session_state) res option"
where
  "free_session_loop S =
     (let n = next_session_id S; idx = session_get_index S (word_of_int n) in
      if idx = of_nat MAX_UMTP_SESSION
      then (let idx = session_get_index S 0 in
        Some (if idx \<noteq> of_nat MAX_UMTP_SESSION
          then bindE (upd_session (unat idx) (\<lambda>s. s\<lparr>session_id := word_of_int n, waiting := False,
                 timer := apdu_timeout S\<rparr>) S) (\<lambda>S'.
               bindE (incr_session_id n) (\<lambda>n'. Inr (word_of_int n, S'\<lparr>next_session_id := n'\<rparr>)))
          else Inr (0, S)))
      else case incr_session_id n of
          Inl e \<Rightarrow> Some (Inl e)
        | Inr n' \<Rightarrow> free_session_loop (S\<lparr>next_session_id := n'\<rparr>))"

definition umtp_free_session :: "('t, 'u) session_state \<Rightarrow> (u8 \<times> ('t, 'u) session_state) res" where
  "umtp_free_session S =
     (if session_get_index S 0 = of_nat MAX_UMTP_SESSION then Inr (0, S)
      else case free_session_loop S of None \<Rightarrow> Inl No_return | Some r \<Rightarrow> r)"

definition umtp_session_set ::
  "u8 \<Rightarrow> 't option \<Rightarrow> 'u \<Rightarrow> umtp_addr \<Rightarrow> u8 list \<Rightarrow> u16 \<Rightarrow> ('t, 'u) session_state \<Rightarrow> ('t, 'u) session_state res"
where
  "umtp_session_set sid tmo data dst pdu pdu_len S =
     (if sid = 0 then Inr S
      else let idx = session_get_index S sid in
        if idx = of_nat MAX_UMTP_SESSION then Inr S
        else bindE (arr_get (sessions S) (unat idx)) (\<lambda>s.
             bindE (arr_read pdu 0 (uint pdu_len)) (\<lambda>xs.
             bindE (arr_write (s_pdu s) 0 xs) (\<lambda>buf.
             upd_session (unat idx) (\<lambda>s. s\<lparr>waiting := True, retry := 0, timer := apdu_timeout S,
               s_timeout := tmo, s_data := data, s_pdu := buf, s_pdu_len := pdu_len, s_dest := dst\<rparr>) S))))"

text \<open>A pointer into the table is the index of the slot.\<close>

definition umtp_get_session :: "u8 \<Rightarrow> ('t, 'u) session_state \<Rightarrow> nat option" where
  "umtp_get_session sid S =
     (if sid = 0 then None
      else let idx = session_get_index S sid in
        if idx = of_nat MAX_UMTP_SESSION then None else Some (unat idx))"

text \<open>The result: \<open>true\<close> with what is stored to \<open>*dest\<close>, \<open>pdu\<close> and \<open>*pdu_len\<close>, or \<open>false\<close> (\<open>None\<close>).\<close>

definition umtp_session_get ::
  "u8 \<Rightarrow> u8 list \<Rightarrow> ('t, 'u) session_state \<Rightarrow> (umtp_addr \<times> u8 list \<times> u16) option res"
where
  "umtp_session_get sid pdu S =
     (if sid = 0 then Inr None
      else let idx = session_get_index S sid in
        if idx = of_nat MAX_UMTP_SESSION then Inr None
        else bindE (arr_get (sessions S) (unat idx)) (\<lambda>s.
             bindE (arr_read (s_pdu s) 0 (uint (s_pdu_len s))) (\<lambda>xs.
             bindE (arr_write pdu 0 xs) (\<lambda>buf. Inr (Some (s_dest s, buf, s_pdu_len s))))))"

text \<open>
  One turn of the loop of \<open>umtp_session_process\<close>. \<open>send data dst pdu len\<close> is \<open>npdu_send\<close>, whose
  result is ignored; \<open>tmo_call t dst pdu len\<close> calls the timeout function. Both may change the table.
\<close>

type_synonym ('t, 'u, 'w) send_call =
  "'u \<Rightarrow> umtp_addr \<Rightarrow> u8 list \<Rightarrow> int \<Rightarrow> ('t, 'u) session_state \<times> 'w \<Rightarrow> (('t, 'u) session_state \<times> 'w) res"

type_synonym ('t, 'u, 'w) tmo_call =
  "'t \<Rightarrow> umtp_addr \<Rightarrow> u8 list \<Rightarrow> int \<Rightarrow> ('t, 'u) session_state \<times> 'w \<Rightarrow> (('t, 'u) session_state \<times> 'w) res"

definition session_tick ::
  "('t, 'u, 'w) send_call \<Rightarrow> ('t, 'u, 'w) tmo_call \<Rightarrow> u16 \<Rightarrow> nat \<Rightarrow> ('t, 'u) session_state \<times> 'w
   \<Rightarrow> (('t, 'u) session_state \<times> 'w) res"
where
  "session_tick send tmo_call milliseconds i Sw =
     bindE (arr_get (sessions (fst Sw)) i) (\<lambda>s.
       if \<not> waiting s then Inr Sw
       else let t = (if timer s > ucast milliseconds then timer s - ucast milliseconds else 0) in
         if t \<noteq> 0 then bindE (upd_session i (\<lambda>s. s\<lparr>timer := t\<rparr>) (fst Sw)) (\<lambda>S'. Inr (S', snd Sw))
         else if retry s < apdu_retry (fst Sw)
           then bindE (upd_session i (\<lambda>s. s\<lparr>timer := apdu_timeout (fst Sw), retry := retry s + 1\<rparr>) (fst Sw)) (\<lambda>S'.
                send (s_data s) (s_dest s) (s_pdu s) (uint (s_pdu_len s)) (S', snd Sw))
         else bindE (upd_session i (\<lambda>s. s\<lparr>timer := 0\<rparr>) (fst Sw)) (\<lambda>S'.
              bindE (case s_timeout s of None \<Rightarrow> Inr (S', snd Sw)
                     | Some f \<Rightarrow> tmo_call f (s_dest s) (s_pdu s) (uint (s_pdu_len s)) (S', snd Sw)) (\<lambda>(S'', w).
              bindE (upd_session i (\<lambda>s. s\<lparr>waiting := False, session_id := 0\<rparr>) S'') (\<lambda>S3. Inr (S3, w)))))"

definition umtp_session_process ::
  "('t, 'u, 'w) send_call \<Rightarrow> ('t, 'u, 'w) tmo_call \<Rightarrow> u16 \<Rightarrow> ('t, 'u) session_state \<times> 'w
   \<Rightarrow> (('t, 'u) session_state \<times> 'w) res"
where
  "umtp_session_process send tmo_call milliseconds Sw =
     foldE (session_tick send tmo_call milliseconds) [0..<MAX_UMTP_SESSION] Sw"

definition umtp_session_clear :: "u8 \<Rightarrow> ('t, 'u) session_state \<Rightarrow> ('t, 'u) session_state res" where
  "umtp_session_clear sid S =
     (let idx = session_get_index S sid in
      if idx < of_nat MAX_UMTP_SESSION
      then upd_session (unat idx) (\<lambda>s. s\<lparr>waiting := False, session_id := 0\<rparr>) S
      else Inr S)"

section \<open>The table as a set of identifiers\<close>

definition ids :: "('t, 'u) session_state \<Rightarrow> u8 list" where
  "ids S = map session_id (sessions S)"

definition sess_ok :: "('t, 'u) umtp_session \<Rightarrow> bool" where
  "sess_ok s \<longleftrightarrow> length (s_pdu s) = MAX_PDU \<and> unat (s_pdu_len s) \<le> MAX_PDU"

text \<open>The invariant: 255 slots, no identifier twice, and every stored request fits its buffer.\<close>

definition sess_wf :: "('t, 'u) session_state \<Rightarrow> bool" where
  "sess_wf S \<longleftrightarrow> length (sessions S) = MAX_UMTP_SESSION \<and> distinct (filter (\<lambda>i. i \<noteq> 0) (ids S))
     \<and> (\<forall>s \<in> set (sessions S). sess_ok s) \<and> 0 < next_session_id S"

definition live :: "('t, 'u) session_state \<Rightarrow> u8 set" where
  "live S = set (ids S) - {0}"

lemma distinct_filter_update:
  assumes "distinct (filter P xs)" and "i < length xs" and "\<not> P (xs ! i) \<or> \<not> P x" and "P x \<Longrightarrow> x \<notin> set xs"
  shows "distinct (filter P (xs[i := x]))"
proof -
  have xs: "xs = take i xs @ xs ! i # drop (Suc i) xs" using assms(2) by (simp add: id_take_nth_drop)
  have upd: "xs[i := x] = take i xs @ x # drop (Suc i) xs" using assms(2) by (simp add: upd_conv_take_nth_drop)
  have "set (take i xs) \<subseteq> set xs" "set (drop (Suc i) xs) \<subseteq> set xs"
    by (auto dest: in_set_takeD in_set_dropD)
  moreover have "distinct (filter P (take i xs) @ filter P (drop (Suc i) xs))"
  proof -
    have "distinct (filter P (take i xs @ xs ! i # drop (Suc i) xs))" using assms(1) xs by simp
    then show ?thesis by (auto split: if_splits)
  qed
  ultimately show ?thesis unfolding upd using assms(4) by auto
qed

lemma index_loop_cases:
  assumes "length ss + i \<le> 255"
  obtains "index_loop ss i sid = 255" and "sid \<notin> session_id ` set ss"
  | k where "k < length ss" and "index_loop ss i sid = of_nat (i + k)" and "session_id (ss ! k) = sid"
    and "\<forall>j < k. session_id (ss ! j) \<noteq> sid"
  using assms
proof (induction ss arbitrary: i thesis)
  case Nil
  then show ?case by simp
next
  case (Cons s ss)
  show ?case
  proof (cases "session_id s = sid")
    case True
    then show ?thesis using Cons.prems(2) [of 0] by simp
  next
    case False
    show ?thesis
    proof (rule Cons.IH [of "Suc i"])
      assume "index_loop ss (Suc i) sid = 255" "sid \<notin> session_id ` set ss"
      then show ?thesis using False by (intro Cons.prems(1)) auto
    next
      fix k assume "k < length ss" "index_loop ss (Suc i) sid = of_nat (Suc i + k)"
        "session_id (ss ! k) = sid" "\<forall>j < k. session_id (ss ! j) \<noteq> sid"
      then show ?thesis using False
        by (intro Cons.prems(2) [of "Suc k"]) (auto simp: less_Suc_eq_0_disj)
    qed (use Cons.prems(3) in simp)
  qed
qed

lemma session_index_cases:
  assumes "length (sessions S) = 255"
  obtains "session_get_index S sid = 255" and "sid \<notin> set (ids S)"
  | k where "k < 255" and "session_get_index S sid \<noteq> 255" and "unat (session_get_index S sid) = k"
    and "ids S ! k = sid" and "\<forall>j < k. ids S ! j \<noteq> sid" and "sid \<in> set (ids S)"
proof (rule index_loop_cases [of "sessions S" 0 sid])
  assume "index_loop (sessions S) 0 sid = 255" "sid \<notin> session_id ` set (sessions S)"
  then show ?thesis using that(1) by (simp add: session_get_index_def ids_def)
next
  fix k assume k: "k < length (sessions S)" "index_loop (sessions S) 0 sid = of_nat (0 + k)"
    "session_id (sessions S ! k) = sid" "\<forall>j < k. session_id (sessions S ! j) \<noteq> sid"
  then have un: "unat (session_get_index S sid) = k"
    using assms by (simp add: session_get_index_def unat_of_nat)
  have "sid \<in> set (ids S)" unfolding ids_def using k(1,3) by force
  moreover have "session_get_index S sid \<noteq> 255" using un k(1) assms by auto
  ultimately show ?thesis using k un assms by (intro that(2)) (auto simp: ids_def)
qed (use assms in simp)

lemma session_index_none: "length (sessions S) = 255 \<Longrightarrow> session_get_index S sid = 255 \<longleftrightarrow> sid \<notin> set (ids S)"
  by (rule session_index_cases [of S sid]) auto

lemma session_index_less: "length (sessions S) = 255 \<Longrightarrow> session_get_index S sid < 255 \<longleftrightarrow> sid \<in> set (ids S)"
  by (rule session_index_cases [of S sid]) (auto simp: word_less_nat_alt)

lemma ids_unique:
  assumes "sess_wf S" and "i < 255" and "j < 255" and "ids S ! i = ids S ! j" and "ids S ! i \<noteq> 0"
  shows "i = j"
proof -
  have len: "length (ids S) = 255" using assms(1) by (simp add: sess_wf_def ids_def)
  have "distinct (filter (\<lambda>i. i \<noteq> 0) xs) \<Longrightarrow> i < j \<Longrightarrow> j < length xs \<Longrightarrow> xs ! i = xs ! j \<Longrightarrow> xs ! i = 0" for xs :: "u8 list" and i j
  proof (induction xs arbitrary: i j)
    case (Cons x xs)
    show ?case
    proof (cases i)
      case 0
      then have "x \<in> set xs" using Cons.prems by (cases j) (auto intro: nth_mem)
      then show ?thesis using Cons.prems(1) 0 by (auto split: if_splits)
    next
      case (Suc i')
      then obtain j' where "j = Suc j'" using Cons.prems by (cases j) auto
      then show ?thesis using Cons.IH [of i' j'] Cons.prems Suc by (auto split: if_splits)
    qed
  qed simp
  from this [of "ids S" i j] this [of "ids S" j i] show ?thesis
    using assms len by (cases i j rule: linorder_cases) (auto simp: sess_wf_def)
qed

lemma umtp_get_session_iff:
  assumes "sess_wf S"
  shows "umtp_get_session sid S = Some i \<longleftrightarrow> sid \<noteq> 0 \<and> i < 255 \<and> ids S ! i = sid"
proof -
  have len: "length (sessions S) = 255" using assms by (simp add: sess_wf_def)
  then have li: "length (ids S) = 255" by (simp add: ids_def)
  show ?thesis
  proof (rule session_index_cases [OF len, of sid])
    assume "session_get_index S sid = 255" "sid \<notin> set (ids S)"
    then show ?thesis using li by (auto simp: umtp_get_session_def Let_def)
  next
    fix k assume "k < 255" "session_get_index S sid \<noteq> 255" "unat (session_get_index S sid) = k" "ids S ! k = sid"
    then show ?thesis using ids_unique [OF assms, of i k]
      by (auto simp: umtp_get_session_def Let_def)
  qed
qed

lemma umtp_get_session_None: "sess_wf S \<Longrightarrow> umtp_get_session sid S = None \<longleftrightarrow> sid \<notin> live S"
  using session_index_none [of S sid] by (auto simp: umtp_get_session_def Let_def live_def sess_wf_def)

lemma upd_session_ok:
  "i < length (sessions S) \<Longrightarrow> upd_session i f S = Inr (S\<lparr>sessions := (sessions S)[i := f (sessions S ! i)]\<rparr>)"
  by (simp add: upd_session_def)

lemma sess_wf_update:
  assumes "sess_wf S" and "i < 255" and "sess_ok s"
    and "session_id s = ids S ! i \<or> session_id s = 0 \<or> ids S ! i = 0 \<and> session_id s \<notin> set (ids S)"
  shows "sess_wf (S\<lparr>sessions := (sessions S)[i := s]\<rparr>)"
proof -
  have len: "length (ids S) = 255" using assms(1) by (simp add: sess_wf_def ids_def)
  have ids: "ids (S\<lparr>sessions := (sessions S)[i := s]\<rparr>) = (ids S)[i := session_id s]"
    by (simp add: ids_def map_update)
  have "distinct (filter (\<lambda>i. i \<noteq> 0) ((ids S)[i := session_id s]))"
  proof (cases "session_id s = ids S ! i")
    case True
    then show ?thesis using assms(1) by (simp add: sess_wf_def)
  next
    case False
    with assms len show ?thesis by (intro distinct_filter_update) (auto simp: sess_wf_def)
  qed
  then show ?thesis
    using assms by (auto simp: sess_wf_def ids dest: set_update_subset_insert [THEN subsetD])
qed

section \<open>Allocation\<close>

text \<open>What an allocation of \<open>sid\<close> does: the first free slot gets it, nothing else changes.\<close>

definition sess_alloc :: "('t, 'u) session_state \<Rightarrow> u8 \<Rightarrow> ('t, 'u) session_state \<Rightarrow> bool" where
  "sess_alloc S sid S' \<longleftrightarrow> sid \<notin> set (ids S)
     \<and> (\<exists>i n. i < 255 \<and> ids S ! i = 0 \<and> (\<forall>j < i. ids S ! j \<noteq> 0) \<and> next_session_id S < n
       \<and> S' = S\<lparr>next_session_id := n, sessions := (sessions S)[i := (sessions S ! i)
           \<lparr>session_id := sid, waiting := False, timer := umtp_apdu_timeout S\<rparr>]\<rparr>)"

lemma incr_session_id_Inr: "0 < n \<Longrightarrow> incr_session_id n = Inr n' \<longleftrightarrow> n < INT_MAX \<and> n' = n + 1"
  by (auto simp: incr_session_id_def)

text \<open>One turn of the loop: it ends with an allocation, or goes on with the next number.\<close>

lemma free_session_step:
  assumes "length (sessions S) = 255" and "0 \<in> set (ids S)" and "0 < next_session_id S" and "next_session_id S < INT_MAX"
  shows "if word_of_int (next_session_id S) \<notin> set (ids S)
    then \<exists>S'. free_session_loop S = Some (Inr (word_of_int (next_session_id S), S'))
      \<and> sess_alloc S (word_of_int (next_session_id S)) S' \<and> next_session_id S' = next_session_id S + 1
    else free_session_loop S = free_session_loop (S\<lparr>next_session_id := next_session_id S + 1\<rparr>)"
proof (cases "word_of_int (next_session_id S) \<in> set (ids S)")
  case True
  then have "session_get_index S (word_of_int (next_session_id S)) \<noteq> 255"
    using session_index_none [OF assms(1)] by blast
  then show ?thesis
    using True assms(3,4) by (simp add: free_session_loop.simps [of S] incr_session_id_def Let_def)
next
  case False
  then have idx: "session_get_index S (word_of_int (next_session_id S)) = 255"
    using session_index_none [OF assms(1)] by blast
  obtain k where k: "k < 255" "session_get_index S 0 \<noteq> 255" "unat (session_get_index S 0) = k"
    "ids S ! k = 0" "\<forall>j < k. ids S ! j \<noteq> 0"
    by (rule session_index_cases [OF assms(1), of 0]) (use assms(2) in auto)
  let ?S' = "S\<lparr>next_session_id := next_session_id S + 1, sessions := (sessions S)[k := (sessions S ! k)
      \<lparr>session_id := word_of_int (next_session_id S), waiting := False, timer := umtp_apdu_timeout S\<rparr>]\<rparr>"
  have "free_session_loop S = Some (Inr (word_of_int (next_session_id S), ?S'))"
    using idx k assms(1,3,4)
    by (simp add: free_session_loop.simps [of S] incr_session_id_def Let_def upd_session_ok apdu_timeout_def)
  moreover have "sess_alloc S (word_of_int (next_session_id S)) ?S'"
    unfolding sess_alloc_def using False k by (intro conjI exI [of _ k] exI [of _ "next_session_id S + 1"]) auto
  ultimately show ?thesis using False by auto
qed

lemma sess_alloc_mono:
  "sess_alloc (S\<lparr>next_session_id := n\<rparr>) sid S' \<Longrightarrow> next_session_id S \<le> n \<Longrightarrow> sess_alloc S sid S'"
proof -
  assume a: "sess_alloc (S\<lparr>next_session_id := n\<rparr>) sid S'" and n: "next_session_id S \<le> n"
  then obtain i m where "sid \<notin> set (ids S)" "i < 255" "ids S ! i = 0" "\<forall>j < i. ids S ! j \<noteq> 0" "n < m"
    "S' = S\<lparr>next_session_id := m, sessions := (sessions S)[i := (sessions S ! i)
           \<lparr>session_id := sid, waiting := False, timer := umtp_apdu_timeout S\<rparr>]\<rparr>"
    by (auto simp: sess_alloc_def ids_def)
  then show "sess_alloc S sid S'"
    unfolding sess_alloc_def using n by (intro conjI exI [of _ i] exI [of _ m]) auto
qed

lemma free_session_loop_alloc:
  assumes "free_session_loop S = Some r"
  shows "length (sessions S) = 255 \<longrightarrow> 0 \<in> set (ids S) \<longrightarrow> 0 < next_session_id S \<longrightarrow> r = Inr (sid, S')
    \<longrightarrow> sess_alloc S sid S'"
proof (rule free_session_loop.raw_induct [OF _ assms], intro impI)
  fix loop S r
  assume 1: "\<And>S r. loop S = Some r \<Longrightarrow> length (sessions S) = 255 \<longrightarrow> 0 \<in> set (ids S) \<longrightarrow> 0 < next_session_id S
      \<longrightarrow> r = Inr (sid, S') \<longrightarrow> sess_alloc S sid S'"
    and body: "(let n = next_session_id S; idx = session_get_index S (word_of_int n) in
      if idx = of_nat MAX_UMTP_SESSION
      then (let idx = session_get_index S 0 in
        Some (if idx \<noteq> of_nat MAX_UMTP_SESSION
          then bindE (upd_session (unat idx) (\<lambda>s. s\<lparr>session_id := word_of_int n, waiting := False,
                 timer := apdu_timeout S\<rparr>) S) (\<lambda>S'.
               bindE (incr_session_id n) (\<lambda>n'. Inr (word_of_int n, S'\<lparr>next_session_id := n'\<rparr>)))
          else Inr (0, S)))
      else case incr_session_id n of
          Inl e \<Rightarrow> Some (Inl e)
        | Inr n' \<Rightarrow> loop (S\<lparr>next_session_id := n'\<rparr>)) = Some r"
    and len: "length (sessions S) = 255" and z: "0 \<in> set (ids S)" and pos: "0 < next_session_id S"
    and r: "r = Inr (sid, S')"
  let ?n = "next_session_id S"
  obtain k where k: "k < 255" "session_get_index S 0 \<noteq> 255" "unat (session_get_index S 0) = k"
    "ids S ! k = 0" "\<forall>j < k. ids S ! j \<noteq> 0"
    by (rule session_index_cases [OF len, of 0]) (use z in auto)
  show "sess_alloc S sid S'"
  proof (cases "word_of_int ?n \<in> set (ids S)")
    case True
    then have "session_get_index S (word_of_int ?n) \<noteq> 255" using session_index_none [OF len] by blast
    with body r pos have lt: "?n < INT_MAX" and loop: "loop (S\<lparr>next_session_id := ?n + 1\<rparr>) = Some r"
      by (auto simp: Let_def incr_session_id_def split: if_splits)
    have "sess_alloc (S\<lparr>next_session_id := ?n + 1\<rparr>) sid S'"
      using 1 [OF loop] len z pos r by (simp add: ids_def)
    then show ?thesis by (rule sess_alloc_mono) simp
  next
    case False
    then have "session_get_index S (word_of_int ?n) = 255" using session_index_none [OF len] by blast
    with body r pos len k have "?n < INT_MAX" "sid = word_of_int ?n"
      "S' = S\<lparr>next_session_id := ?n + 1, sessions := (sessions S)[k := (sessions S ! k)
          \<lparr>session_id := word_of_int ?n, waiting := False, timer := umtp_apdu_timeout S\<rparr>]\<rparr>"
      by (auto simp: Let_def upd_session_ok apdu_timeout_def incr_session_id_def split: if_splits)
    then show ?thesis
      unfolding sess_alloc_def using False k by (intro conjI exI [of _ k] exI [of _ "?n + 1"]) auto
  qed
qed

text \<open>Among 256 consecutive numbers there is one whose low byte is not an identifier in use.\<close>

lemma free_number:
  assumes "length (sessions S) = 255"
  obtains k where "k < 256" and "word_of_int (n + int k) \<notin> set (ids S)"
proof -
  have "card (set (ids S)) \<le> 255" using card_length [of "ids S"] assms by (simp add: ids_def)
  moreover have "card (UNIV :: u8 set) = 256" by (simp add: card_word)
  ultimately have "set (ids S) \<noteq> UNIV" by auto
  then obtain v where v: "v \<notin> set (ids S)" by auto
  let ?k = "nat ((uint v - n) mod 256)"
  define m where "m = n + int ?k"
  have "m mod 256 = uint v" 
    using uint_lt2p [of v] by (simp add: m_def mod_simps)
  then have "uint (word_of_int m :: u8) = uint v" by (simp add: unsigned_of_int take_bit_eq_mod)
  then have "word_of_int (n + int ?k) = v" unfolding m_def by (simp only: word_uint_eq_iff)
  moreover have "?k < 256" by (simp add: nat_less_iff)
  ultimately show ?thesis using that v by metis
qed

lemma free_session_loop_returns:
  assumes "length (sessions S) = 255" and "0 \<in> set (ids S)" and "0 < next_session_id S"
    and "word_of_int (next_session_id S + int k) \<notin> set (ids S)" and "next_session_id S + int k < INT_MAX"
  shows "\<exists>sid S'. free_session_loop S = Some (Inr (sid, S')) \<and> next_session_id S' \<le> next_session_id S + int k + 1"
  using assms
proof (induction k arbitrary: S)
  case 0
  then show ?case using free_session_step [of S] by auto
next
  case (Suc k)
  show ?case
  proof (cases "word_of_int (next_session_id S) \<in> set (ids S)")
    case True
    have "\<exists>sid S'. free_session_loop (S\<lparr>next_session_id := next_session_id S + 1\<rparr>) = Some (Inr (sid, S'))
        \<and> next_session_id S' \<le> next_session_id S + 1 + int k + 1"
      using Suc.IH [of "S\<lparr>next_session_id := next_session_id S + 1\<rparr>"] Suc.prems
      by (simp add: ids_def algebra_simps)
    then show ?thesis using True free_session_step [of S] Suc.prems by (auto simp: algebra_simps)
  next
    case False
    then show ?thesis using free_session_step [of S] Suc.prems by auto
  qed
qed

lemma umtp_free_session_full: "length (sessions S) = 255 \<Longrightarrow> 0 \<notin> set (ids S) \<Longrightarrow> umtp_free_session S = Inr (0, S)"
  using session_index_none [of S 0] by (simp add: umtp_free_session_def)

lemma umtp_free_session_alloc:
  assumes "umtp_free_session S = Inr (sid, S')" and "sess_wf S"
  shows "if 0 \<in> set (ids S) then sess_alloc S sid S' \<and> sid \<noteq> 0 else sid = 0 \<and> S' = S"
proof (cases "0 \<in> set (ids S)")
  case True
  then have "session_get_index S 0 \<noteq> 255" using session_index_none [of S 0] assms(2) by (auto simp: sess_wf_def)
  with assms(1) have "free_session_loop S = Some (Inr (sid, S'))"
    by (auto simp: umtp_free_session_def split: option.splits)
  from free_session_loop_alloc [OF this] True assms(2) have "sess_alloc S sid S'"
    by (simp add: sess_wf_def)
  then show ?thesis using True by (auto simp: sess_alloc_def)
next
  case False
  then show ?thesis using assms umtp_free_session_full [of S] by (simp add: sess_wf_def)
qed

lemma umtp_free_session_returns:
  assumes "sess_wf S" and "0 \<in> set (ids S)" and "next_session_id S + 256 < INT_MAX"
  obtains sid S' where "umtp_free_session S = Inr (sid, S')" and "sess_alloc S sid S'" and "sid \<noteq> 0"
    and "next_session_id S' \<le> next_session_id S + 256"
proof -
  have len: "length (sessions S) = 255" and pos: "0 < next_session_id S" using assms(1) by (simp_all add: sess_wf_def)
  obtain k where "k < 256" "word_of_int (next_session_id S + int k) \<notin> set (ids S)"
    using free_number [OF len] by blast
  then obtain sid S' where loop: "free_session_loop S = Some (Inr (sid, S'))" "next_session_id S' \<le> next_session_id S + 256"
    using free_session_loop_returns [OF len assms(2) pos, of k] assms(3) by force
  then have f: "umtp_free_session S = Inr (sid, S')"
    using session_index_none [OF len, of 0] assms(2) by (simp add: umtp_free_session_def)
  show ?thesis using that [OF f] umtp_free_session_alloc [OF f assms(1)] assms(2) loop(2) by simp
qed

lemma sess_alloc_wf:
  assumes "sess_alloc S sid S'" and "sess_wf S"
  shows "sess_wf S'" and "live S' = (if sid = 0 then live S else insert sid (live S))"
proof -
  from assms(1) obtain i n where i: "sid \<notin> set (ids S)" "i < 255" "ids S ! i = 0" "next_session_id S < n"
    and S': "S' = S\<lparr>next_session_id := n, sessions := (sessions S)[i := (sessions S ! i)
           \<lparr>session_id := sid, waiting := False, timer := umtp_apdu_timeout S\<rparr>]\<rparr>"
    by (auto simp: sess_alloc_def)
  have len: "length (sessions S) = 255" "length (ids S) = 255" using assms(2) by (simp_all add: sess_wf_def ids_def)
  have "sess_wf (S\<lparr>sessions := (sessions S)[i := (sessions S ! i)
           \<lparr>session_id := sid, waiting := False, timer := umtp_apdu_timeout S\<rparr>]\<rparr>)"
    by (rule sess_wf_update [OF assms(2) i(2)]) (use i assms(2) len in \<open>auto simp: sess_wf_def sess_ok_def\<close>)
  then show "sess_wf S'" using i(4) assms(2) by (simp add: S' sess_wf_def ids_def)
  have "ids S' = (ids S)[i := sid]" by (simp add: S' ids_def map_update)
  moreover have "set ((ids S)[i := sid]) - {0} = (if sid = 0 then live S else insert sid (live S))"
  proof -
    have "x \<in> set ((ids S)[i := sid]) \<longleftrightarrow> x = sid \<or> x \<in> set (ids S)" if "x \<noteq> 0" for x
    proof -
      have "x \<in> set (ids S) \<Longrightarrow> x \<in> set ((ids S)[i := sid])"
        using that i(2,3) len by (metis in_set_conv_nth length_list_update nth_list_update_neq)
      then show ?thesis
        using i(2) len set_update_subset_insert [of "ids S" i sid] set_update_memI [of i "ids S" sid] by auto
    qed
    then show ?thesis by (auto simp: live_def)
  qed
  ultimately show "live S' = (if sid = 0 then live S else insert sid (live S))" by (simp add: live_def)
qed

section \<open>Tables of identifiers\<close>

text \<open>The contract on which the users of a table of identifiers rely.\<close>

locale id_table =
  fixes good :: "'s \<Rightarrow> bool"
    and held :: "'s \<Rightarrow> 'i set"
    and take_id :: "'s \<Rightarrow> ('i \<times> 's) option"
    and drop_id :: "'i \<Rightarrow> 's \<Rightarrow> 's option"
  assumes take_law: "good s \<Longrightarrow> take_id s = Some (i, s') \<Longrightarrow> good s' \<and> i \<notin> held s \<and> held s' = insert i (held s)"
    and drop_law: "good s \<Longrightarrow> drop_id i s = Some s' \<Longrightarrow> good s' \<and> held s' = held s - {i}"

fun take_many :: "('s \<Rightarrow> ('i \<times> 's) option) \<Rightarrow> nat \<Rightarrow> 's \<Rightarrow> ('i list \<times> 's) option" where
  "take_many f 0 s = Some ([], s)"
| "take_many f (Suc n) s =
     (case f s of None \<Rightarrow> None
      | Some (i, s1) \<Rightarrow> (case take_many f n s1 of None \<Rightarrow> None | Some (is, s2) \<Rightarrow> Some (i # is, s2)))"

context id_table begin

lemma take_drop:
  "good s \<Longrightarrow> take_id s = Some (i, s1) \<Longrightarrow> drop_id i s1 = Some s2 \<Longrightarrow> good s2 \<and> held s2 = held s"
  using take_law [of s i s1] drop_law [of s1 i s2] by auto

lemma drop_other:
  "good s \<Longrightarrow> take_id s = Some (i, s1) \<Longrightarrow> j \<in> held s \<Longrightarrow> drop_id j s1 = Some s2 \<Longrightarrow> i \<in> held s2"
  using take_law [of s i s1] drop_law [of s1 j s2] by auto

lemma take_many_fresh:
  "good s \<Longrightarrow> take_many take_id n s = Some (is, s') \<Longrightarrow>
   good s' \<and> distinct is \<and> length is = n \<and> set is \<inter> held s = {} \<and> held s' = set is \<union> held s"
proof (induction n arbitrary: s "is")
  case (Suc n)
  then obtain i s1 js where t: "take_id s = Some (i, s1)" "take_many take_id n s1 = Some (js, s')" "is = i # js"
    by (auto split: option.splits)
  with take_law [OF Suc.prems(1) t(1)] Suc.IH [of s1 js] show ?case by auto
qed simp

end

definition session_take :: "('t, 'u) session_state \<Rightarrow> (u8 \<times> ('t, 'u) session_state) option" where
  "session_take S = (case umtp_free_session S of
     Inr (sid, S') \<Rightarrow> if sid = 0 then None else Some (sid, S') | Inl e \<Rightarrow> None)"

definition session_drop :: "u8 \<Rightarrow> ('t, 'u) session_state \<Rightarrow> ('t, 'u) session_state option" where
  "session_drop sid S = (case umtp_session_clear sid S of Inr S' \<Rightarrow> Some S' | Inl e \<Rightarrow> None)"

lemma session_slot:
  assumes "sess_wf S" and "sid \<in> live S"
  obtains i where "i < 255" and "ids S ! i = sid" and "unat (session_get_index S sid) = i"
    and "session_get_index S sid \<noteq> 255" and "session_get_index S sid < 255"
  by (rule session_index_cases [of S sid])
    (use assms session_index_less [of S sid] in \<open>auto simp: sess_wf_def live_def intro: that\<close>)

lemma sess_ok_nth: "sess_wf S \<Longrightarrow> i < 255 \<Longrightarrow> sess_ok (sessions S ! i)"
  by (simp add: sess_wf_def)

lemma ids_nth: "i < length (sessions S) \<Longrightarrow> ids S ! i = session_id (sessions S ! i)"
  by (simp add: ids_def)

lemma free_slot_wf:
  assumes "sess_wf S" and "i < 255" and "sess_ok s" and "session_id s = 0"
  shows "sess_wf (S\<lparr>sessions := (sessions S)[i := s]\<rparr>)"
    and "live (S\<lparr>sessions := (sessions S)[i := s]\<rparr>) = live S - {ids S ! i}"
proof -
  have len: "length (ids S) = 255" using assms(1) by (simp add: sess_wf_def ids_def)
  show "sess_wf (S\<lparr>sessions := (sessions S)[i := s]\<rparr>)"
    using assms by (intro sess_wf_update) simp_all
  have ids: "ids (S\<lparr>sessions := (sessions S)[i := s]\<rparr>) = (ids S)[i := 0]"
    by (simp add: ids_def map_update assms(4))
  have "x \<in> set ((ids S)[i := 0]) \<longleftrightarrow> x \<in> set (ids S) \<and> x \<noteq> ids S ! i" if x: "x \<noteq> 0" for x
  proof
    assume "x \<in> set ((ids S)[i := 0])"
    then obtain j where j: "j < 255" "(ids S)[i := 0] ! j = x" using len by (auto simp: in_set_conv_nth)
    then have "j \<noteq> i" "ids S ! j = x" using x len assms(2) by (auto simp: nth_list_update split: if_splits)
    then show "x \<in> set (ids S) \<and> x \<noteq> ids S ! i"
      using ids_unique [OF assms(1), of j i] j(1) assms(2) x len by auto
  next
    assume "x \<in> set (ids S) \<and> x \<noteq> ids S ! i"
    then show "x \<in> set ((ids S)[i := 0])"
      by (metis in_set_conv_nth length_list_update nth_list_update_neq)
  qed
  then show "live (S\<lparr>sessions := (sessions S)[i := s]\<rparr>) = live S - {ids S ! i}"
    unfolding live_def ids by blast
qed

lemma umtp_session_clear_ok:
  assumes "sess_wf S"
  obtains S' where "umtp_session_clear sid S = Inr S'" and "sess_wf S'" and "live S' = live S - {sid}"
    and "\<And>j. j < 255 \<Longrightarrow> ids S ! j \<noteq> sid \<Longrightarrow> sessions S' ! j = sessions S ! j"
proof (rule session_index_cases [of S sid])
  show "length (sessions S) = 255" using assms by (simp add: sess_wf_def)
next
  assume idx: "session_get_index S sid = 255" "sid \<notin> set (ids S)"
  show ?thesis
    by (rule that [of S]) (use idx assms in \<open>auto simp: umtp_session_clear_def live_def\<close>)
next
  fix k assume k: "k < 255" "session_get_index S sid \<noteq> 255" "unat (session_get_index S sid) = k" "ids S ! k = sid"
    "sid \<in> set (ids S)"
  let ?s = "(sessions S ! k)\<lparr>waiting := False, session_id := 0\<rparr>"
  have len: "length (sessions S) = 255" using assms by (simp add: sess_wf_def)
  have ok: "sess_ok ?s" using sess_ok_nth [OF assms k(1)] by (simp add: sess_ok_def)
  have "session_get_index S sid < 255" using session_index_less [OF len] k(5) by blast
  then have "umtp_session_clear sid S = Inr (S\<lparr>sessions := (sessions S)[k := ?s]\<rparr>)"
    using k len by (simp add: umtp_session_clear_def upd_session_ok)
  then show ?thesis
    by (rule that) (use free_slot_wf [OF assms k(1) ok] k len in \<open>auto simp: nth_list_update\<close>)
qed

interpretation sess: id_table sess_wf live session_take session_drop
proof
  fix S :: "('a, 'b) session_state" and sid S'
  assume wf: "sess_wf S"
  show "sess_wf S' \<and> sid \<notin> live S \<and> live S' = insert sid (live S)" if "session_take S = Some (sid, S')"
  proof -
    from that have f: "umtp_free_session S = Inr (sid, S')" "sid \<noteq> 0"
      by (auto simp: session_take_def split: sum.splits if_splits)
    then have a: "sess_alloc S sid S'" using umtp_free_session_alloc [OF f(1) wf] by (auto split: if_splits)
    then show ?thesis using sess_alloc_wf [OF a wf] f(2) by (auto simp: sess_alloc_def live_def)
  qed
  show "sess_wf S' \<and> live S' = live S - {sid}" if "session_drop sid S = Some S'"
    by (rule umtp_session_clear_ok [OF wf, of sid]) (use that in \<open>auto simp: session_drop_def\<close>)
qed

section \<open>Time\<close>

text \<open>What one call of \<open>umtp_session_process\<close> does to a slot whose callbacks leave the table alone.\<close>

definition tick_slot :: "('t, 'u) session_state \<Rightarrow> u16 \<Rightarrow> ('t, 'u) umtp_session \<Rightarrow> ('t, 'u) umtp_session" where
  "tick_slot S ms s =
     (if \<not> waiting s then s
      else if timer s > ucast ms then s\<lparr>timer := timer s - ucast ms\<rparr>
      else if retry s < umtp_apdu_retry S then s\<lparr>timer := umtp_apdu_timeout S, retry := retry s + 1\<rparr>
      else s\<lparr>timer := 0, waiting := False, session_id := 0\<rparr>)"

text \<open>The call out that goes with it: a retransmission, the timeout callback, or nothing.\<close>

definition tick_call ::
  "('u \<Rightarrow> umtp_addr \<Rightarrow> u8 list \<Rightarrow> int \<Rightarrow> 'w \<Rightarrow> 'w res) \<Rightarrow> ('t \<Rightarrow> umtp_addr \<Rightarrow> u8 list \<Rightarrow> int \<Rightarrow> 'w \<Rightarrow> 'w res)
   \<Rightarrow> ('t, 'u) session_state \<Rightarrow> u16 \<Rightarrow> ('t, 'u) umtp_session \<Rightarrow> 'w \<Rightarrow> 'w res"
where
  "tick_call g c S ms s w =
     (if \<not> waiting s \<or> timer s > ucast ms then Inr w
      else if retry s < umtp_apdu_retry S then g (s_data s) (s_dest s) (s_pdu s) (uint (s_pdu_len s)) w
      else case s_timeout s of None \<Rightarrow> Inr w | Some t \<Rightarrow> c t (s_dest s) (s_pdu s) (uint (s_pdu_len s)) w)"

definition quiet_send ::
  "('u \<Rightarrow> umtp_addr \<Rightarrow> u8 list \<Rightarrow> int \<Rightarrow> 'w \<Rightarrow> 'w res) \<Rightarrow> ('t, 'u, 'w) send_call"
where
  "quiet_send g d a p l Sw = bindE (g d a p l (snd Sw)) (\<lambda>w. Inr (fst Sw, w))"

definition quiet_tmo ::
  "('t \<Rightarrow> umtp_addr \<Rightarrow> u8 list \<Rightarrow> int \<Rightarrow> 'w \<Rightarrow> 'w res) \<Rightarrow> ('t, 'u, 'w) tmo_call"
where
  "quiet_tmo c t a p l Sw = bindE (c t a p l (snd Sw)) (\<lambda>w. Inr (fst Sw, w))"

lemma session_tick_quiet:
  assumes "i < length (sessions S)"
  shows "session_tick (quiet_send g) (quiet_tmo c) ms i (S, w) =
    bindE (tick_call g c S ms (sessions S ! i) w)
      (\<lambda>w'. Inr (S\<lparr>sessions := (sessions S)[i := tick_slot S ms (sessions S ! i)]\<rparr>, w'))"
proof -
  have gt: "(if timer s > ucast ms then timer s - ucast ms else 0) \<noteq> (0 :: u32) \<longleftrightarrow> timer s > ucast ms"
    for s :: "('a, 'b) umtp_session" by auto
  show ?thesis
    using assms
    by (auto simp: session_tick_def tick_slot_def tick_call_def Let_def gt upd_session_ok quiet_send_def bindE_def
        quiet_tmo_def apdu_retry_def apdu_timeout_def split: option.split sum.split)
qed

lemma foldE_ticks:
  "n \<le> length (sessions S) \<Longrightarrow> foldE (session_tick (quiet_send g) (quiet_tmo c) ms) [0..<n] (S, w) =
    bindE (foldE (tick_call g c S ms) (take n (sessions S)) w)
      (\<lambda>w'. Inr (S\<lparr>sessions := map (tick_slot S ms) (take n (sessions S)) @ drop n (sessions S)\<rparr>, w'))"
proof (induction n)
  case (Suc n)
  let ?S = "S\<lparr>sessions := map (tick_slot S ms) (take n (sessions S)) @ drop n (sessions S)\<rparr>"
  have n: "n < length (sessions S)" using Suc.prems by simp
  have tk: "tick_slot ?S ms = tick_slot S ms" "tick_call g c ?S ms = tick_call g c S ms"
    by (simp_all add: tick_slot_def tick_call_def fun_eq_iff)
  have nth: "sessions ?S ! n = sessions S ! n" using n by (simp add: nth_append)
  have upd: "(sessions ?S)[n := x] = map (tick_slot S ms) (take n (sessions S)) @ x # drop (Suc n) (sessions S)" for x
    using n by (simp add: list_update_append Cons_nth_drop_Suc [symmetric])
  have tick: "session_tick (quiet_send g) (quiet_tmo c) ms n (?S, v) =
      bindE (tick_call g c S ms (sessions S ! n) v)
        (\<lambda>w'. Inr (?S\<lparr>sessions := (sessions ?S)[n := tick_slot S ms (sessions S ! n)]\<rparr>, w'))" for v
    using session_tick_quiet [of n ?S g c ms v] n unfolding tk nth by simp
  have "foldE (session_tick (quiet_send g) (quiet_tmo c) ms) [0..<Suc n] (S, w) =
      bindE (foldE (tick_call g c S ms) (take n (sessions S)) w)
        (\<lambda>v. session_tick (quiet_send g) (quiet_tmo c) ms n (?S, v))"
    using Suc by (simp add: foldE_append) (simp add: bindE_def split: sum.split)
  also have "\<dots> = bindE (foldE (tick_call g c S ms) (take (Suc n) (sessions S)) w)
      (\<lambda>w'. Inr (S\<lparr>sessions := map (tick_slot S ms) (take (Suc n) (sessions S)) @ drop (Suc n) (sessions S)\<rparr>, w'))"
    unfolding tick upd using n by (simp add: take_Suc_conv_app_nth foldE_append) (simp add: bindE_def split: sum.split)
  finally show ?case .
qed simp

lemma umtp_session_process_quiet:
  assumes "length (sessions S) = 255"
  shows "umtp_session_process (quiet_send g) (quiet_tmo c) ms (S, w) =
    bindE (foldE (tick_call g c S ms) (sessions S) w) (\<lambda>w'. Inr (S\<lparr>sessions := map (tick_slot S ms) (sessions S)\<rparr>, w'))"
  unfolding umtp_session_process_def using foldE_ticks [of 255 S g c ms w] assms by simp




lemma unat_ms [simp]: "unat (ucast (m :: u16) :: u32) = unat m"
  by (simp add: unsigned_ucast_eq take_bit_nat_eq_self unsigned_less [of m, where ?'a = nat, THEN less_trans])








section \<open>Sequences of operations\<close>

datatype ('t, 'u) session_op =
    Op_free
  | Op_set u8 "'t option" 'u umtp_addr "u8 list" u16
  | Op_clear u8
  | Op_process u16

fun session_step ::
  "('t, 'u, 'w) send_call \<Rightarrow> ('t, 'u, 'w) tmo_call \<Rightarrow> ('t, 'u) session_op
   \<Rightarrow> ('t, 'u) session_state \<times> 'w \<Rightarrow> (('t, 'u) session_state \<times> 'w) res"
where
  "session_step send tmo Op_free Sw = bindE (umtp_free_session (fst Sw)) (\<lambda>(_, S). Inr (S, snd Sw))"
| "session_step send tmo (Op_set sid t u a bs n) Sw =
     bindE (umtp_session_set sid t u a bs n (fst Sw)) (\<lambda>S. Inr (S, snd Sw))"
| "session_step send tmo (Op_clear sid) Sw = bindE (umtp_session_clear sid (fst Sw)) (\<lambda>S. Inr (S, snd Sw))"
| "session_step send tmo (Op_process ms) Sw = umtp_session_process send tmo ms Sw"

lemma umtp_session_set_Inr:
  assumes "umtp_session_set sid t u a bs n S = Inr S'" and "sess_wf S"
  shows "S' = S \<or> (\<exists>i < 255. \<exists>s. S' = S\<lparr>sessions := (sessions S)[i := s]\<rparr> \<and> sess_ok s \<and> session_id s = ids S ! i)"
proof -
  have len: "length (sessions S) = 255" using assms(2) by (simp add: sess_wf_def)
  show ?thesis
  proof (rule session_index_cases [OF len, of sid])
    assume "session_get_index S sid = 255"
    then show ?thesis using assms(1) by (auto simp: umtp_session_set_def Let_def split: if_splits)
  next
    fix k assume k: "k < 255" "session_get_index S sid \<noteq> 255" "unat (session_get_index S sid) = k"
    note ok = sess_ok_nth [OF assms(2) k(1)]
    show ?thesis
    proof (cases "sid = 0")
      case False
      then obtain xs buf where rd: "arr_read bs 0 (uint n) = Inr xs" and wr: "arr_write (s_pdu (sessions S ! k)) 0 xs = Inr buf"
        and S': "S' = S\<lparr>sessions := (sessions S)[k := (sessions S ! k)\<lparr>waiting := True, retry := 0, timer := apdu_timeout S,
               s_timeout := t, s_data := u, s_pdu := buf, s_pdu_len := n, s_dest := a\<rparr>]\<rparr>"
        using assms(1) k len by (auto simp: umtp_session_set_def Let_def res_simps upd_session_ok)
      have "unat n = length xs"
        using rd by (auto simp: arr_read_def nat_uint_eq split: if_splits)
      moreover have "length xs \<le> length (s_pdu (sessions S ! k))" "length buf = length (s_pdu (sessions S ! k))"
        using wr arr_write_length [OF wr] by (auto simp: arr_write_Inr)
      ultimately show ?thesis
        using ok k(1) len S' by (intro disjI2 exI [of _ k] conjI exI [of _ "sessions S' ! k"])
          (auto simp: sess_ok_def ids_nth)
    qed (use assms(1) in \<open>simp add: umtp_session_set_def\<close>)
  qed
qed

definition keeps_wf :: "(('t, 'u) session_state \<times> 'w \<Rightarrow> (('t, 'u) session_state \<times> 'w) res) \<Rightarrow> bool" where
  "keeps_wf f \<longleftrightarrow> (\<forall>S w S' w'. sess_wf S \<longrightarrow> f (S, w) = Inr (S', w') \<longrightarrow> sess_wf S')"

lemma keeps_wfD: "keeps_wf f \<Longrightarrow> sess_wf S \<Longrightarrow> f (S, w) = Inr (S', w') \<Longrightarrow> sess_wf S'"
  by (auto simp: keeps_wf_def)

lemma session_tick_Inr_wf:
  assumes send: "\<And>d a p l. keeps_wf (send d a p l)" and tmo: "\<And>t a p l. keeps_wf (tmo t a p l)"
    and "sess_wf S" and "session_tick send tmo ms i (S, w) = Inr (S', w')" and "i < 255"
  shows "sess_wf S'"
proof -
  let ?s = "sessions S ! i"
  have len: "length (sessions S) = 255" using assms(3) by (simp add: sess_wf_def)
  have keep: "sess_wf (S\<lparr>sessions := (sessions S)[i := s]\<rparr>)" if "session_id s = session_id ?s" "s_pdu s = s_pdu ?s"
      "s_pdu_len s = s_pdu_len ?s" for s
    using that sess_ok_nth [OF assms(3,5)] assms(5) len
    by (intro sess_wf_update [OF assms(3)]) (simp_all add: sess_ok_def ids_nth)
  have free: "sess_wf S3" if wf: "sess_wf S2" and "upd_session i (\<lambda>s. s\<lparr>waiting := False, session_id := 0\<rparr>) S2 = Inr S3" for S2 S3
    using that(2) sess_ok_nth [OF wf assms(5)] assms(5) wf
    by (auto simp: upd_session_ok sess_wf_def [of S2] intro!: free_slot_wf(1) [OF wf assms(5)] simp: sess_ok_def)
  consider (idle) "\<not> waiting ?s" | (wait) "waiting ?s" "timer ?s > ucast ms"
    | (again) "waiting ?s" "\<not> timer ?s > ucast ms" "retry ?s < apdu_retry S"
    | (out) "waiting ?s" "\<not> timer ?s > ucast ms" "\<not> retry ?s < apdu_retry S" by blast
  then show ?thesis
  proof cases
    case idle
    then show ?thesis using assms(3,4,5) len by (simp add: session_tick_def)
  next
    case wait
    then have "S' = S\<lparr>sessions := (sessions S)[i := ?s\<lparr>timer := timer ?s - ucast ms\<rparr>]\<rparr>"
      using assms(4,5) len by (auto simp: session_tick_def upd_session_ok Let_def split: if_splits)
    then show ?thesis using keep [of "?s\<lparr>timer := timer ?s - ucast ms\<rparr>"] by simp
  next
    case again
    then have "send (s_data ?s) (s_dest ?s) (s_pdu ?s) (uint (s_pdu_len ?s))
        (S\<lparr>sessions := (sessions S)[i := ?s\<lparr>timer := apdu_timeout S, retry := retry ?s + 1\<rparr>]\<rparr>, w) = Inr (S', w')"
      using assms(4,5) len by (simp add: session_tick_def upd_session_ok Let_def)
    from keeps_wfD [OF send _ this] show ?thesis using keep by simp
  next
    case out
    let ?S1 = "S\<lparr>sessions := (sessions S)[i := ?s\<lparr>timer := 0\<rparr>]\<rparr>"
    from out obtain S2 w2 where call: "(case s_timeout ?s of None \<Rightarrow> Inr (?S1, w)
          | Some f \<Rightarrow> tmo f (s_dest ?s) (s_pdu ?s) (uint (s_pdu_len ?s)) (?S1, w)) = Inr (S2, w2)"
      and S': "upd_session i (\<lambda>s. s\<lparr>waiting := False, session_id := 0\<rparr>) S2 = Inr S'"
      using assms(4,5) len by (auto simp: session_tick_def upd_session_ok Let_def res_simps cong: option.case_cong)
    have "sess_wf ?S1" using keep by simp
    with call have "sess_wf S2" by (auto split: option.splits dest: keeps_wfD [OF tmo])
    then show ?thesis using free S' by blast
  qed
qed

lemma foldE_keeps_wf:
  "(\<And>x. x \<in> set xs \<Longrightarrow> keeps_wf (f x)) \<Longrightarrow> keeps_wf (foldE f xs)"
proof (induction xs)
  case (Cons x xs)
  then have "keeps_wf (f x)" "keeps_wf (foldE f xs)" by simp_all
  note fx = this
  show ?case unfolding keeps_wf_def
  proof (intro allI impI)
    fix S w S' w' assume wf: "sess_wf S" and "foldE f (x # xs) (S, w) = Inr (S', w')"
    then obtain S1 w1 where "f x (S, w) = Inr (S1, w1)" "foldE f xs (S1, w1) = Inr (S', w')"
      by (auto simp: bindE_eq_Inr)
    then show "sess_wf S'" using keeps_wfD [OF fx(1) wf] keeps_wfD [OF fx(2)] by blast
  qed
qed (simp add: keeps_wf_def)

lemma session_process_wf:
  assumes "\<And>d a p l. keeps_wf (send d a p l)" and "\<And>t a p l. keeps_wf (tmo t a p l)"
  shows "keeps_wf (umtp_session_process send tmo ms)"
proof -
  have "keeps_wf (session_tick send tmo ms i)" if "i < 255" for i
    unfolding keeps_wf_def using session_tick_Inr_wf [of send tmo, OF assms _ _ that] by blast
  then have "keeps_wf (foldE (session_tick send tmo ms) [0..<255])"
    by (intro foldE_keeps_wf) simp
  then show ?thesis by (simp add: keeps_wf_def umtp_session_process_def)
qed

lemma session_step_wf:
  assumes "\<And>d a p l. keeps_wf (send d a p l)" and "\<And>t a p l. keeps_wf (tmo t a p l)"
  shows "keeps_wf (session_step send tmo op)"
proof (cases op)
  case Op_free
  then show ?thesis
    by (auto simp: keeps_wf_def res_simps dest!: umtp_free_session_alloc sess_alloc_wf(1) split: if_splits)
next
  case (Op_set sid t u a bs n)
  show ?thesis unfolding keeps_wf_def
  proof (intro allI impI)
    fix S w S' w' assume wf: "sess_wf S" and "session_step send tmo op (S, w) = Inr (S', w')"
    then have "umtp_session_set sid t u a bs n S = Inr S'" by (auto simp: Op_set res_simps)
    from umtp_session_set_Inr [OF this wf] show "sess_wf S'"
      using wf by (auto intro!: sess_wf_update)
  qed
next
  case (Op_clear sid)
  show ?thesis unfolding keeps_wf_def
  proof (intro allI impI)
    fix S w S' w' assume wf: "sess_wf S" and "session_step send tmo op (S, w) = Inr (S', w')"
    then have "umtp_session_clear sid S = Inr S'" by (auto simp: Op_clear res_simps)
    then show "sess_wf S'" by (auto intro: umtp_session_clear_ok [OF wf, of sid])
  qed
next
  case (Op_process ms)
  then show ?thesis using session_process_wf [of send tmo ms, OF assms] by (simp add: keeps_wf_def)
qed

section \<open>Properties\<close>

definition ex_blank :: "(unit, unit) umtp_session" where
  "ex_blank = \<lparr>session_id = 0, waiting = False, retry = 0, timer = 0, s_timeout = None,
     s_dest = ex_addr, s_pdu = replicate MAX_PDU 0, s_pdu_len = 0, s_data = ()\<rparr>"

text \<open>The table as the program starts, and with one session waiting in its first slot.\<close>

definition ex_sess :: "(unit, unit) session_state" where
  "ex_sess = \<lparr>next_session_id = 1, sessions = replicate MAX_UMTP_SESSION ex_blank,
     umtp_apdu_timeout = 3000, umtp_apdu_retry = 1\<rparr>"

definition ex_wait :: "(unit, unit) session_state" where
  "ex_wait = ex_sess\<lparr>next_session_id := 2, sessions := (sessions ex_sess)[0 :=
     ex_blank\<lparr>session_id := 1, waiting := True, timer := 3000\<rparr>]\<rparr>"

lemma ex_sess_facts: "sess_wf ex_sess" "length (sessions ex_sess) = 255" "ids ex_sess = replicate 255 0"
    "next_session_id ex_sess = 1"
  by (simp_all add: ex_sess_def ex_blank_def sess_wf_def ids_def sess_ok_def filter_replicate)

lemma ex_wait_facts: "sess_wf ex_wait" "live ex_wait = {1}" "length (sessions ex_wait) = 255" "ids ex_wait ! 0 = 1"
    "sessions ex_wait ! 0 = ex_blank\<lparr>session_id := 1, waiting := True, timer := 3000\<rparr>"
    "umtp_apdu_timeout ex_wait = 3000" "umtp_apdu_retry ex_wait = 1"
proof -
  have i: "ids ex_wait = (replicate 255 0)[0 := 1]"
    using ex_sess_facts(3) by (simp add: ex_wait_def ids_def map_update)
  then have c: "ids ex_wait = 1 # replicate 254 0" using replicate_Suc [of 254 "0 :: u8"] by simp
  have "sess_wf (ex_sess\<lparr>sessions := (sessions ex_sess)[0 := ex_blank\<lparr>session_id := 1, waiting := True, timer := 3000\<rparr>]\<rparr>)"
    by (rule sess_wf_update [OF ex_sess_facts(1)])
      (simp_all add: ex_sess_facts ex_blank_def sess_ok_def)
  then show "sess_wf ex_wait" by (simp add: ex_wait_def sess_wf_def ids_def)
  show "live ex_wait = {1}" "ids ex_wait ! 0 = 1" by (auto simp: live_def c)
  show "length (sessions ex_wait) = 255" "umtp_apdu_timeout ex_wait = 3000" "umtp_apdu_retry ex_wait = 1"
    "sessions ex_wait ! 0 = ex_blank\<lparr>session_id := 1, waiting := True, timer := 3000\<rparr>"
    by (simp_all add: ex_wait_def ex_sess_def)
qed

text \<open>C8. Allocation. \<open>umtp_free_session\<close> always returns (as long as the \<open>int\<close> counter is 256 below its
  maximum): with a free slot it gives an identifier that is neither 0 nor in use, stores it with the
  configured timer in the first free slot, and changes no other slot; the counter advances by at
  most 256. Without a free slot it gives 0 and changes nothing.\<close>

theorem umtp_free_session_spec:
  assumes "sess_wf S" and "next_session_id S + 256 < INT_MAX"
  shows "\<exists>sid S'. umtp_free_session S = Inr (sid, S') \<and> sess_wf S'
    \<and> (if 0 \<in> set (ids S) then
         sid \<noteq> 0 \<and> sid \<notin> live S \<and> live S' = insert sid (live S)
         \<and> next_session_id S < next_session_id S' \<and> next_session_id S' \<le> next_session_id S + 256
         \<and> (\<exists>i < MAX_UMTP_SESSION. ids S ! i = 0 \<and> (\<forall>j < i. ids S ! j \<noteq> 0)
           \<and> sessions S' = (sessions S)[i := (sessions S ! i)
               \<lparr>session_id := sid, waiting := False, timer := umtp_apdu_timeout S\<rparr>])
       else sid = 0 \<and> S' = S)"
proof (cases "0 \<in> set (ids S)")
  case False
  then show ?thesis using umtp_free_session_full assms(1) by (auto simp: sess_wf_def)
next
  case True
  obtain sid S' where f: "umtp_free_session S = Inr (sid, S')" and a: "sess_alloc S sid S'" "sid \<noteq> 0"
    and le: "next_session_id S' \<le> next_session_id S + 256"
    by (rule umtp_free_session_returns [OF assms(1) True assms(2)])
  from a(1) obtain i n where i: "i < 255" "ids S ! i = 0" "\<forall>j < i. ids S ! j \<noteq> 0" "sid \<notin> set (ids S)" "next_session_id S < n"
    and S': "S' = S\<lparr>next_session_id := n, sessions := (sessions S)[i := (sessions S ! i)
           \<lparr>session_id := sid, waiting := False, timer := umtp_apdu_timeout S\<rparr>]\<rparr>"
    by (auto simp: sess_alloc_def)
  have "\<exists>i < MAX_UMTP_SESSION. ids S ! i = 0 \<and> (\<forall>j < i. ids S ! j \<noteq> 0)
           \<and> sessions S' = (sessions S)[i := (sessions S ! i)
               \<lparr>session_id := sid, waiting := False, timer := umtp_apdu_timeout S\<rparr>]"
    by (rule exI [of _ i]) (use i S' in simp)
  moreover have "next_session_id S < next_session_id S'" "sid \<notin> live S" using i(4,5) S' by (simp_all add: live_def)
  ultimately show ?thesis
    using f True le a sess_alloc_wf [OF a(1) assms(1)] by simp
qed

theorem umtp_free_session_spec_witness:
  "\<exists>sid S'. umtp_free_session ex_sess = Inr (sid, S') \<and> sid \<noteq> 0 \<and> live S' = {sid}"
  using umtp_free_session_spec [of ex_sess] by (auto simp: ex_sess_facts live_def)

text \<open>Outstanding sessions never share an identifier: any number of allocations in a row gives
  pairwise different identifiers, none of them 0 and none in use before; and releasing one of
  them with \<open>umtp_session_clear\<close> makes the table forget that one only.\<close>

theorem sessions_distinct:
  assumes "sess_wf S" and "take_many session_take n S = Some (xs, S')"
  shows "sess_wf S' \<and> distinct xs \<and> length xs = n \<and> set xs \<inter> live S = {} \<and> live S' = set xs \<union> live S \<and> 0 \<notin> set xs
    \<and> (\<forall>sid. \<exists>S2. umtp_session_clear sid S' = Inr S2 \<and> sess_wf S2 \<and> live S2 = live S' - {sid})"
proof -
  have "\<exists>S2. umtp_session_clear sid S' = Inr S2 \<and> sess_wf S2 \<and> live S2 = live S' - {sid}" if "sess_wf S'" for sid
    by (rule umtp_session_clear_ok [OF that, of sid]) blast
  then show ?thesis
    using sess.take_many_fresh [OF assms] by (auto simp: live_def)
qed

theorem sessions_distinct_witness:
  "\<exists>a b S'. take_many session_take 2 ex_sess = Some ([a, b], S') \<and> a \<noteq> b \<and> live S' = {a, b}"
proof -
  obtain a S1 where a: "umtp_free_session ex_sess = Inr (a, S1)" "sess_alloc ex_sess a S1" "a \<noteq> 0"
    and n: "next_session_id S1 \<le> 257"
    by (rule umtp_free_session_returns [OF ex_sess_facts(1)]) (simp_all add: ex_sess_facts)
  have wf: "sess_wf S1" by (rule sess_alloc_wf(1) [OF a(2) ex_sess_facts(1)])
  obtain i where "i < 255" "ids S1 = (ids ex_sess)[i := a]"
    using a(2) by (auto simp: sess_alloc_def ids_def map_update)
  then have "ids S1 ! (if i = 0 then 1 else 0) = 0" "length (ids S1) = 255" by (auto simp: ex_sess_facts)
  then have z: "0 \<in> set (ids S1)" by (metis nth_mem one_less_numeral_iff semiring_norm(77) zero_less_numeral)
  obtain b S2 where b: "umtp_free_session S1 = Inr (b, S2)" "b \<noteq> 0"
    by (rule umtp_free_session_returns [OF wf z]) (use n in simp_all)
  then have t: "take_many session_take 2 ex_sess = Some ([a, b], S2)"
    using a(1,3) by (simp add: numeral_2_eq_2 session_take_def)
  from sessions_distinct [OF ex_sess_facts(1) t] t show ?thesis
    by (auto simp: live_def ex_sess_facts)
qed

lemma live_iff: "sid \<in> live S \<longleftrightarrow> sid \<noteq> 0 \<and> sid \<in> set (ids S)"
  by (auto simp: live_def)

lemma umtp_session_set_ok:
  assumes "sess_wf S" and "sid \<in> live S" and "unat n \<le> length bs" and "unat n \<le> MAX_PDU"
  obtains i s S' where "umtp_session_set sid t u dst bs n S = Inr S'" and "sess_wf S'" and "ids S' = ids S" and "i < 255"
    and "umtp_get_session sid S' = Some i" and "S' = S\<lparr>sessions := (sessions S)[i := s]\<rparr>" and "sessions S' ! i = s"
    and "s = (sessions S ! i)\<lparr>waiting := True, retry := 0, timer := umtp_apdu_timeout S, s_timeout := t, s_data := u,
      s_pdu := take (unat n) bs @ drop (unat n) (s_pdu (sessions S ! i)), s_pdu_len := n, s_dest := dst\<rparr>"
proof -
  have len: "length (sessions S) = 255" using assms(1) by (simp add: sess_wf_def)
  obtain i where i: "i < 255" "ids S ! i = sid" "unat (session_get_index S sid) = i" "session_get_index S sid \<noteq> 255"
    by (rule session_slot [OF assms(1,2)])
  have sid: "sid \<noteq> 0" using assms(2) by (simp add: live_def)
  have ok: "length (s_pdu (sessions S ! i)) = MAX_PDU" using sess_ok_nth [OF assms(1) i(1)] by (simp add: sess_ok_def)
  define buf where "buf = take (unat n) bs @ drop (unat n) (s_pdu (sessions S ! i))"
  define s where "s = (sessions S ! i)\<lparr>waiting := True, retry := 0, timer := umtp_apdu_timeout S,
             s_timeout := t, s_data := u, s_pdu := buf, s_pdu_len := n, s_dest := dst\<rparr>"
  define S' where "S' = S\<lparr>sessions := (sessions S)[i := s]\<rparr>"
  have rd: "arr_read bs 0 (uint n) = Inr (take (unat n) bs)" using assms(3) by (simp add: arr_read_def nat_uint_eq)
  have wr: "arr_write (s_pdu (sessions S ! i)) 0 (take (unat n) bs) = Inr buf"
    using assms(3,4) ok by (simp add: arr_write_def buf_def min_def)
  have set: "umtp_session_set sid t u dst bs n S = Inr S'"
    using i sid len by (simp add: umtp_session_set_def rd wr upd_session_ok S'_def s_def Let_def apdu_timeout_def)
  have lenb: "length buf = MAX_PDU" using arr_write_length [OF wr] ok by simp
  have ids: "ids S' = ids S"
    using i len by (simp add: S'_def s_def ids_def map_update list_update_same_conv)
  have wf: "sess_wf S'"
    unfolding S'_def by (rule sess_wf_update [OF assms(1) i(1)])
      (use i len lenb assms(4) in \<open>simp_all add: sess_ok_def s_def ids_nth\<close>)
  have "umtp_get_session sid S' = Some i"
    using umtp_get_session_iff [OF wf] i sid by (simp add: ids)
  moreover have "sessions S' ! i = s" using i(1) len by (simp add: S'_def)
  ultimately show ?thesis using that set wf ids i(1) S'_def s_def buf_def by blast
qed

text \<open>Storing a request. For an identifier in use, \<open>umtp_session_set\<close> stores a PDU of at most 2049
  bytes, its destination, the timeout function and the owner, starts the timer and resets the retry
  counter; \<open>umtp_session_get\<close> then gives back the same PDU, length and destination, and after
  \<open>umtp_session_clear\<close> neither \<open>umtp_session_get\<close> nor \<open>umtp_get_session\<close> finds the session. The
  length is not checked: a PDU longer than the buffer of the slot is written past its end.\<close>

theorem session_set_get_clear:
  assumes "sess_wf S" and "sid \<in> live S" and "unat n \<le> length bs" and "unat n \<le> length out"
  shows "if MAX_PDU < unat n then umtp_session_set sid t u dst bs n S = Inl Out_of_bounds
    else \<exists>S'. umtp_session_set sid t u dst bs n S = Inr S' \<and> sess_wf S' \<and> live S' = live S
      \<and> umtp_session_get sid out S' = Inr (Some (dst, take (unat n) bs @ drop (unat n) out, n))
      \<and> (\<exists>i. umtp_get_session sid S' = Some i \<and> waiting (sessions S' ! i) \<and> retry (sessions S' ! i) = 0
          \<and> timer (sessions S' ! i) = umtp_apdu_timeout S \<and> s_timeout (sessions S' ! i) = t
          \<and> s_data (sessions S' ! i) = u)
      \<and> (\<exists>S2. umtp_session_clear sid S' = Inr S2 \<and> umtp_get_session sid S2 = None
          \<and> umtp_session_get sid out S2 = Inr None)"
proof (cases "MAX_PDU < unat n")
  case True
  obtain i where i: "i < 255" "unat (session_get_index S sid) = i" "session_get_index S sid \<noteq> 255"
    by (rule session_slot [OF assms(1,2)])
  have "length (s_pdu (sessions S ! i)) = MAX_PDU" using sess_ok_nth [OF assms(1) i(1)] by (simp add: sess_ok_def)
  then show ?thesis using True i assms
    by (simp add: umtp_session_set_def arr_read_def arr_write_def nat_uint_eq min_def live_def sess_wf_def)
next
  case False
  then have le: "unat n \<le> MAX_PDU" by simp
  obtain i s S' where S': "umtp_session_set sid t u dst bs n S = Inr S'" "sess_wf S'" "ids S' = ids S" "i < 255"
      "umtp_get_session sid S' = Some i" "sessions S' ! i = s"
    and s: "s = (sessions S ! i)\<lparr>waiting := True, retry := 0, timer := umtp_apdu_timeout S, s_timeout := t, s_data := u,
      s_pdu := take (unat n) bs @ drop (unat n) (s_pdu (sessions S ! i)), s_pdu_len := n, s_dest := dst\<rparr>"
    by (rule umtp_session_set_ok [OF assms(1-3) le, of t u dst])
  have sid: "sid \<noteq> 0" using assms(2) by (simp add: live_def)
  have "session_get_index S' sid \<noteq> 255" "unat (session_get_index S' sid) = i"
    using S'(5) by (auto simp: umtp_get_session_def Let_def split: if_splits)
  then have "umtp_session_get sid out S' = Inr (Some (dst, take (unat n) bs @ drop (unat n) out, n))"
    using S'(2,4,6) sid s sess_ok_nth [OF assms(1) S'(4)] le assms(3,4)
    by (simp add: umtp_session_get_def sess_wf_def sess_ok_def arr_read_def arr_write_def nat_uint_eq min_def Let_def)
  moreover have "\<exists>S2. umtp_session_clear sid S' = Inr S2 \<and> umtp_get_session sid S2 = None
        \<and> umtp_session_get sid out S2 = Inr None"
  proof (rule umtp_session_clear_ok [OF S'(2), of sid])
    fix S2 assume S2: "umtp_session_clear sid S' = Inr S2" "sess_wf S2" "live S2 = live S' - {sid}"
    have "sid \<notin> set (ids S2)" using S2(3) sid unfolding live_def by blast
    then have "session_get_index S2 sid = 255"
      using session_index_none [of S2 sid] S2(2) by (simp add: sess_wf_def)
    with S2(1) show ?thesis by (simp add: umtp_get_session_def umtp_session_get_def)
  qed
  ultimately show ?thesis
    using S' s False by (simp add: live_def)
qed

theorem session_set_get_clear_witness:
  "\<exists>S'. umtp_session_set 1 None () ex_addr [9, 8, 7] 3 ex_wait = Inr S'
     \<and> umtp_session_get 1 [0, 0, 0, 0] S' = Inr (Some (ex_addr, [9, 8, 7, 0], 3))"
  using session_set_get_clear [OF ex_wait_facts(1), of 1 3 "[9, 8, 7]" "[0, 0, 0, 0]" None "()" ex_addr]
  by (auto simp: ex_wait_facts)

text \<open>C9. One pass over the table. When sending and the timeout function do not touch the table,
  \<open>umtp_session_process\<close> treats every slot on its own: a slot that is not waiting is left alone; a
  timer above the elapsed time is lowered by it; an expired slot with retries left is sent again,
  exactly the stored PDU to its destination, with the timer restarted and the counter raised by one;
  an expired slot without retries left has its timeout function called once and is freed. The
  calls happen in the order of the slots. A call that
  faults ends the pass with its fault.\<close>

theorem session_process_pass:
  assumes "sess_wf S"
  shows "umtp_session_process (quiet_send g) (quiet_tmo c) ms (S, w) =
      bindE (foldE (tick_call g c S ms) (sessions S) w) (\<lambda>w'. Inr (S\<lparr>sessions := map (tick_slot S ms) (sessions S)\<rparr>, w'))"
  using assms by (intro umtp_session_process_quiet) (simp add: sess_wf_def)

theorem session_process_pass_witness:
  "umtp_session_process (quiet_send (\<lambda>d a p l w. Inr (l # w))) (quiet_tmo (\<lambda>t a p l w. Inr w)) 3000 (ex_wait, [])
   = Inr (ex_wait\<lparr>sessions := (sessions ex_wait)[0 := (sessions ex_wait ! 0)\<lparr>retry := 1\<rparr>]\<rparr>, [0])"
proof -
  let ?s = "ex_blank\<lparr>session_id := 1, waiting := True, timer := 3000\<rparr>"
  let ?call = "tick_call (\<lambda>d a p l w. Inr (l # w)) (\<lambda>t a p l w. Inr w) ex_wait 3000"
  have s: "sessions ex_wait = ?s # replicate 254 ex_blank"
    using replicate_Suc [of 254 ex_blank] by (simp add: ex_wait_def ex_sess_def)
  have slots: "tick_slot ex_wait 3000 ex_blank = ex_blank" "tick_slot ex_wait 3000 ?s = ?s\<lparr>retry := 1\<rparr>"
    by (simp_all add: tick_slot_def ex_wait_facts) (simp_all add: ex_blank_def)
  have calls: "?call ex_blank v = Inr v" "?call ?s [] = Inr [0]" for v
    by (simp_all add: tick_call_def ex_wait_facts) (simp_all add: ex_blank_def)
  have "foldE ?call (replicate n ex_blank) v = Inr v" for n v
    by (induction n) (simp_all add: calls)
  then have "foldE ?call (sessions ex_wait) [] = Inr [0]" unfolding s by (simp add: calls)
  moreover have "map (tick_slot ex_wait 3000) (sessions ex_wait) = (sessions ex_wait)[0 := (sessions ex_wait ! 0)\<lparr>retry := 1\<rparr>]"
    unfolding s by (simp add: slots)
  ultimately show ?thesis
    using session_process_pass [OF ex_wait_facts(1), of "\<lambda>d a p l w. Inr (l # w)" "\<lambda>t a p l w. Inr w" 3000 "[]"] by simp
qed



text \<open>The invariant. Whatever sequence of allocations, stores, releases and passes of
  \<open>umtp_session_process\<close> the program performs, and whatever the sending and timeout functions do as
  long as they too go through these operations, a run without a fault keeps 255 slots, no
  identifier in two slots, and every stored length within the slot's buffer.\<close>

theorem session_run_invariant:
  assumes "sess_wf S" and "\<And>d a p l. keeps_wf (send d a p l)" and "\<And>t a p l. keeps_wf (tmo t a p l)"
    and "foldE (session_step send tmo) ops (S, w) = Inr (S', w')"
  shows "length (sessions S') = MAX_UMTP_SESSION
    \<and> (\<forall>i < MAX_UMTP_SESSION. \<forall>j < MAX_UMTP_SESSION. ids S' ! i = ids S' ! j \<and> ids S' ! i \<noteq> 0 \<longrightarrow> i = j)
    \<and> (\<forall>s \<in> set (sessions S'). unat (s_pdu_len s) \<le> length (s_pdu s)) \<and> sess_wf S'"
proof -
  have "keeps_wf (foldE (session_step send tmo) ops)"
    by (intro foldE_keeps_wf session_step_wf assms(2,3))
  then have wf: "sess_wf S'" using assms(1,4) unfolding keeps_wf_def by blast
  then show ?thesis using ids_unique [OF wf] by (auto simp: sess_wf_def sess_ok_def)
qed

theorem session_run_invariant_witness:
  "\<exists>S'. foldE (session_step (quiet_send (\<lambda>d a p l w. Inr w)) (quiet_tmo (\<lambda>t a p l w. Inr w))) [Op_clear 1] (ex_wait, ())
      = Inr (S', ()) \<and> length (sessions S') = 255 \<and> sess_wf S'"
proof -
  obtain S' where S': "umtp_session_clear 1 ex_wait = Inr S'"
    by (rule umtp_session_clear_ok [OF ex_wait_facts(1), of 1])
  have q: "keeps_wf (quiet_send (\<lambda>d a p l (w :: unit). Inr w) d a p l)" "keeps_wf (quiet_tmo (\<lambda>t a p l (w :: unit). Inr w) t a p l)"
    for d a p l t
    by (simp_all add: keeps_wf_def quiet_send_def quiet_tmo_def)
  have run: "foldE (session_step (quiet_send (\<lambda>d a p l w. Inr w)) (quiet_tmo (\<lambda>t a p l w. Inr w))) [Op_clear 1] (ex_wait, ())
      = Inr (S', ())" using S' by simp
  from session_run_invariant [OF ex_wait_facts(1) q run] run show ?thesis by blast
qed

end
