(* ===== verification/Session_Threads.thy ===== *)
theory Session_Threads
  imports Session
begin

text \<open>
  The session table of \<open>core/session.c\<close> shared between threads. Nothing in that file takes a lock. The
  thread that submits a request runs \<open>umtp_free_session\<close> and \<open>umtp_session_set\<close>; the protocol task runs
  \<open>umtp_session_process\<close>; the task that handles an answer runs \<open>umtp_session_clear\<close>.

  A submission is split here into its accesses to the table: \<open>sub_next\<close> is one access, a read of one slot's
  number in one of the searches, a write of one member, or an access to the counter. The copy of the PDU is one
  step. \<open>table_step I\<close> interleaves the submitters in \<open>I\<close> with the turns of the task, one slot at a time, and with
  an answer that finds a slot and, later, frees it. Memory is sequentially consistent.
\<close>

section \<open>A submission, access by access\<close>

record ('t, 'u) request =
  rq_timeout :: "'t option"
  rq_data :: 'u
  rq_dest :: umtp_addr
  rq_pdu :: "u8 \<Rightarrow> u8 list"    \<comment> \<open>the PDU holds the session number\<close>
  rq_len :: u16

text \<open>Where a submitter is. \<open>Check\<close>, \<open>Look\<close> and \<open>Slot\<close> are the searches of lines 47, 51 and 54, \<open>Find\<close>
  that of line 86, each with the slot that it reads next. Line 51 passes \<open>session_id\<close> by value.\<close>

datatype phase = Done | Check nat | Loop | Look u8 nat | Next | Slot nat | Store nat | Store_waiting nat u8
  | Store_timer nat u8 | Count u8 | Got u8 | Find u8 nat | Write nat u8 nat

text \<open>The eight assignments of \<open>umtp_session_set\<close>, lines 90 to 98, in their order.\<close>

definition set_write :: "('t, 'u) request \<Rightarrow> u8 \<Rightarrow> u32 \<Rightarrow> nat \<Rightarrow> ('t, 'u) umtp_session \<Rightarrow> ('t, 'u) umtp_session res" where
  "set_write x sid tmo j s =
     (if j = 0 then Inr (s\<lparr>waiting := True\<rparr>)
      else if j = 1 then Inr (s\<lparr>retry := 0\<rparr>)
      else if j = 2 then Inr (s\<lparr>timer := tmo\<rparr>)
      else if j = 3 then Inr (s\<lparr>s_timeout := rq_timeout x\<rparr>)
      else if j = 4 then Inr (s\<lparr>s_data := rq_data x\<rparr>)
      else if j = 5 then bindE (arr_read (rq_pdu x sid) 0 (uint (rq_len x))) (\<lambda>xs.
        bindE (arr_write (s_pdu s) 0 xs) (\<lambda>buf. Inr (s\<lparr>s_pdu := buf\<rparr>)))
      else if j = 6 then Inr (s\<lparr>s_pdu_len := rq_len x\<rparr>)
      else Inr (s\<lparr>s_dest := rq_dest x\<rparr>))"

fun sub_next :: "('t, 'u) request \<Rightarrow> phase \<Rightarrow> ('t, 'u) session_state \<Rightarrow> (phase \<times> ('t, 'u) session_state) res" where
  "sub_next x Done S = Inr (Done, S)"
| "sub_next x (Check k) S =
     (if k = MAX_UMTP_SESSION then Inr (Got 0, S)
      else bindE (arr_get (sessions S) k) (\<lambda>s. Inr (if session_id s = 0 then Loop else Check (Suc k), S)))"
| "sub_next x Loop S = Inr (Look (word_of_int (next_session_id S)) 0, S)"
| "sub_next x (Look n k) S =
     (if k = MAX_UMTP_SESSION then Inr (Slot 0, S)
      else bindE (arr_get (sessions S) k) (\<lambda>s. Inr (if session_id s = n then Next else Look n (Suc k), S)))"
| "sub_next x Next S = bindE (incr_session_id (next_session_id S)) (\<lambda>n. Inr (Loop, S\<lparr>next_session_id := n\<rparr>))"
| "sub_next x (Slot k) S =
     (if k = MAX_UMTP_SESSION then Inr (Got 0, S)
      else bindE (arr_get (sessions S) k) (\<lambda>s. Inr (if session_id s = 0 then Store k else Slot (Suc k), S)))"
| "sub_next x (Store i) S =
     bindE (upd_session i (\<lambda>s. s\<lparr>session_id := word_of_int (next_session_id S)\<rparr>) S) (\<lambda>S'.
     Inr (Store_waiting i (word_of_int (next_session_id S)), S'))"
| "sub_next x (Store_waiting i n) S =
     bindE (upd_session i (\<lambda>s. s\<lparr>waiting := False\<rparr>) S) (\<lambda>S'. Inr (Store_timer i n, S'))"
| "sub_next x (Store_timer i n) S =
     bindE (upd_session i (\<lambda>s. s\<lparr>timer := apdu_timeout S\<rparr>) S) (\<lambda>S'. Inr (Count n, S'))"
| "sub_next x (Count n) S = bindE (incr_session_id (next_session_id S)) (\<lambda>m. Inr (Got n, S\<lparr>next_session_id := m\<rparr>))"
| "sub_next x (Got n) S = Inr (if n = 0 then Check 0 else Find n 0, S)"
| "sub_next x (Find n k) S =
     (if k = MAX_UMTP_SESSION then Inr (Done, S)
      else bindE (arr_get (sessions S) k) (\<lambda>s. Inr (if session_id s = n then Write k n 0 else Find n (Suc k), S)))"
| "sub_next x (Write i n j) S =
     (if j = 8 then Inr (Done, S)
      else bindE (arr_get (sessions S) i) (\<lambda>s.
           bindE (set_write x n (apdu_timeout S) j s) (\<lambda>s'.
           bindE (arr_set (sessions S) i s') (\<lambda>ss. Inr (Write i n (Suc j), S\<lparr>sessions := ss\<rparr>)))))"

definition alone :: "('t, 'u) request \<Rightarrow> phase \<times> ('t, 'u) session_state \<Rightarrow> phase \<times> ('t, 'u) session_state \<Rightarrow> bool" where
  "alone x c c' \<longleftrightarrow> sub_next x (fst c) (snd c) = Inr c'"

section \<open>The threads\<close>

record ('t, 'u, 'w) threads =
  tab :: "('t, 'u) session_state"
  phase :: "nat \<Rightarrow> phase"
  rq :: "nat \<Rightarrow> ('t, 'u) request"
  answered :: "nat option"    \<comment> \<open>the slot that \<open>umtp_session_clear\<close> has found\<close>
  tworld :: 'w

inductive table_step ::
  "nat set \<Rightarrow> ('u \<Rightarrow> umtp_addr \<Rightarrow> u8 list \<Rightarrow> int \<Rightarrow> 'w \<Rightarrow> 'w res) \<Rightarrow> ('t \<Rightarrow> umtp_addr \<Rightarrow> u8 list \<Rightarrow> int \<Rightarrow> 'w \<Rightarrow> 'w res)
   \<Rightarrow> ('t, 'u, 'w) threads \<Rightarrow> ('t, 'u, 'w) threads \<Rightarrow> bool"
  for I g c
where
  start: "i \<in> I \<Longrightarrow> phase r i = Done \<Longrightarrow>
    table_step I g c r (r\<lparr>phase := (phase r)(i := Check 0), rq := (rq r)(i := x)\<rparr>)"
| submit: "i \<in> I \<Longrightarrow> sub_next (rq r i) (phase r i) (tab r) = Inr (p, S) \<Longrightarrow>
    table_step I g c r (r\<lparr>tab := S, phase := (phase r)(i := p)\<rparr>)"
| tick: "session_tick (quiet_send g) (quiet_tmo c) ms k (tab r, tworld r) = Inr (S, w) \<Longrightarrow>
    table_step I g c r (r\<lparr>tab := S, tworld := w\<rparr>)"
| clear_find: "answered r = None \<Longrightarrow> session_get_index (tab r) sid < of_nat MAX_UMTP_SESSION \<Longrightarrow>
    table_step I g c r (r\<lparr>answered := Some (unat (session_get_index (tab r) sid))\<rparr>)"
| clear_write: "answered r = Some k \<Longrightarrow> upd_session k (\<lambda>s. s\<lparr>waiting := False, session_id := 0\<rparr>) (tab r) = Inr S \<Longrightarrow>
    table_step I g c r (r\<lparr>tab := S, answered := None\<rparr>)"

text \<open>The accesses of the submitters by themselves: the first two rules, so nothing frees a slot.\<close>

inductive submit_step :: "nat set \<Rightarrow> ('t, 'u, 'w) threads \<Rightarrow> ('t, 'u, 'w) threads \<Rightarrow> bool" for I where
  only_start: "i \<in> I \<Longrightarrow> phase r i = Done \<Longrightarrow>
    submit_step I r (r\<lparr>phase := (phase r)(i := Check 0), rq := (rq r)(i := x)\<rparr>)"
| only_submit: "i \<in> I \<Longrightarrow> sub_next (rq r i) (phase r i) (tab r) = Inr (p, S) \<Longrightarrow>
    submit_step I r (r\<lparr>tab := S, phase := (phase r)(i := p)\<rparr>)"

lemma submit_table: "submit_step I r r' \<Longrightarrow> table_step I g c r r'"
  by (induction rule: submit_step.induct) (auto intro: start submit)

lemma submits_table: "(submit_step I)\<^sup>*\<^sup>* r r' \<Longrightarrow> (table_step I g c)\<^sup>*\<^sup>* r r'"
  by (erule rtranclp_mono [THEN predicate2D, rotated]) (auto intro: submit_table)

definition threads_init :: "('t, 'u, 'w) threads \<Rightarrow> bool" where
  "threads_init r \<longleftrightarrow> sess_wf (tab r) \<and> (\<forall>i. phase r i = Done) \<and> answered r = None"

section \<open>A submitter alone\<close>

lemma alone_scan:
  assumes "\<And>j. k \<le> j \<Longrightarrow> j < m \<Longrightarrow> sub_next x (C j) S = Inr (C (Suc j), S)" and "k \<le> m"
  shows "(alone x)\<^sup>*\<^sup>* (C k, S) (C m, S)"
  using assms(2,1)
proof (induction m rule: dec_induct)
  case (step m)
  have "(alone x)\<^sup>*\<^sup>* (C k, S) (C m, S)" by (rule step.IH) (simp add: step.prems)
  moreover have "alone x (C m, S) (C (Suc m), S)" using step.prems [of m] step.hyps by (simp add: alone_def)
  ultimately show ?case by (rule rtranclp.rtrancl_into_rtrancl)
qed simp

lemma slot_id: "length (sessions S) = 255 \<Longrightarrow> k < 255 \<Longrightarrow> session_id (sessions S ! k) = ids S ! k"
  by (simp add: ids_def)

lemma alone_one: "sub_next x p S = Inr (p', S') \<Longrightarrow> (alone x)\<^sup>*\<^sup>* (p', S') c \<Longrightarrow> (alone x)\<^sup>*\<^sup>* (p, S) c"
  by (rule converse_rtranclp_into_rtranclp) (simp_all add: alone_def)

text \<open>A search that reads the slots from 0 on, in each of its four places.\<close>

lemma alone_search:
  assumes "length (sessions S) = 255" and "k \<le> 255" and "\<forall>j < k. ids S ! j \<noteq> n"
  shows "(alone x)\<^sup>*\<^sup>* (Look n 0, S) (Look n k, S)" and "(alone x)\<^sup>*\<^sup>* (Find n 0, S) (Find n k, S)"
    and "n = 0 \<Longrightarrow> (alone x)\<^sup>*\<^sup>* (Check 0, S) (Check k, S)" and "n = 0 \<Longrightarrow> (alone x)\<^sup>*\<^sup>* (Slot 0, S) (Slot k, S)"
proof -
  have id: "session_id (sessions S ! j) \<noteq> n" if "j < k" for j using slot_id [OF assms(1), of j] assms(2,3) that by simp
  show "(alone x)\<^sup>*\<^sup>* (Look n 0, S) (Look n k, S)" by (rule alone_scan) (use id assms(1,2) in auto)
  show "(alone x)\<^sup>*\<^sup>* (Find n 0, S) (Find n k, S)" by (rule alone_scan) (use id assms(1,2) in auto)
  show "(alone x)\<^sup>*\<^sup>* (Check 0, S) (Check k, S)" if "n = 0" by (rule alone_scan) (use id assms(1,2) that in auto)
  show "(alone x)\<^sup>*\<^sup>* (Slot 0, S) (Slot k, S)" if "n = 0" by (rule alone_scan) (use id assms(1,2) that in auto)
qed

lemma first_slot:
  assumes "length (sessions S) = 255" and "n \<in> set (ids S)"
  obtains k where "k < 255" and "ids S ! k = n" and "\<forall>j < k. ids S ! j \<noteq> n" and "unat (session_get_index S n) = k"
    and "session_get_index S n \<noteq> 255"
  by (rule session_index_cases [OF assms(1), of n]) (use assms(2) that in auto)

text \<open>The loop, up to the point where it has found a number that is not in use and a slot that is free.\<close>

lemma alone_found:
  assumes "length (sessions S) = 255" and "word_of_int (next_session_id S) \<notin> set (ids S)"
    and "i < 255" and "ids S ! i = 0" and "\<forall>j < i. ids S ! j \<noteq> 0"
  shows "(alone x)\<^sup>*\<^sup>* (Loop, S) (Store i, S)"
proof -
  let ?n = "word_of_int (next_session_id S) :: u8"
  have li: "length (ids S) = 255" using assms(1) by (simp add: ids_def)
  have none: "\<forall>j < 255. ids S ! j \<noteq> ?n" using assms(2) nth_mem [of _ "ids S"] unfolding li by metis
  have "(alone x)\<^sup>*\<^sup>* (Look ?n 0, S) (Look ?n 255, S)" by (rule alone_search(1) [OF assms(1) order_refl none])
  moreover have "(alone x)\<^sup>*\<^sup>* (Look ?n 255, S) (Slot 0, S)" by (rule alone_one) auto
  moreover have "(alone x)\<^sup>*\<^sup>* (Slot 0, S) (Slot i, S)" by (rule alone_search(4) [OF assms(1) _ assms(5)]) (use assms(3) in auto)
  moreover have "(alone x)\<^sup>*\<^sup>* (Slot i, S) (Store i, S)"
    by (rule alone_one) (use assms slot_id [OF assms(1,3)] in auto)
  ultimately have "(alone x)\<^sup>*\<^sup>* (Look ?n 0, S) (Store i, S)" by (meson rtranclp_trans)
  then show ?thesis by (rule alone_one [rotated]) simp
qed

lemma alone_next:
  assumes "length (sessions S) = 255" and "word_of_int (next_session_id S) \<in> set (ids S)"
    and "0 < next_session_id S" and "next_session_id S < INT_MAX"
  shows "(alone x)\<^sup>*\<^sup>* (Loop, S) (Loop, S\<lparr>next_session_id := next_session_id S + 1\<rparr>)"
proof -
  let ?n = "word_of_int (next_session_id S) :: u8" and ?S = "S\<lparr>next_session_id := next_session_id S + 1\<rparr>"
  obtain k where k: "k < 255" "ids S ! k = ?n" "\<forall>j < k. ids S ! j \<noteq> ?n" by (rule first_slot [OF assms(1,2)])
  have "(alone x)\<^sup>*\<^sup>* (Look ?n 0, S) (Look ?n k, S)" by (rule alone_search(1) [OF assms(1) _ k(3)]) (use k(1) in simp)
  moreover have "(alone x)\<^sup>*\<^sup>* (Look ?n k, S) (Next, S)"
    by (rule alone_one) (use k assms(1) slot_id [OF assms(1) k(1)] in auto)
  moreover have "(alone x)\<^sup>*\<^sup>* (Next, S) (Loop, ?S)"
    by (rule alone_one) (use assms(3,4) in \<open>auto simp: incr_session_id_def\<close>)
  ultimately have "(alone x)\<^sup>*\<^sup>* (Look ?n 0, S) (Loop, ?S)" by (meson rtranclp_trans)
  then show ?thesis by (rule alone_one [rotated]) simp
qed

lemma alone_loop:
  assumes "length (sessions S) = 255" and "0 \<in> set (ids S)" and "0 < next_session_id S"
    and "word_of_int (next_session_id S + int k) \<notin> set (ids S)" and "next_session_id S + int k < INT_MAX"
  shows "\<exists>n. (alone x)\<^sup>*\<^sup>* (Loop, S) (Loop, S\<lparr>next_session_id := n\<rparr>) \<and> word_of_int n \<notin> set (ids S)
    \<and> next_session_id S \<le> n \<and> n \<le> next_session_id S + int k
    \<and> free_session_loop S = free_session_loop (S\<lparr>next_session_id := n\<rparr>)"
  using assms
proof (induction k arbitrary: S)
  case 0
  then show ?case by (intro exI [of _ "next_session_id S"]) auto
next
  case (Suc k)
  show ?case
  proof (cases "word_of_int (next_session_id S) \<in> set (ids S)")
    case False
    then show ?thesis by (intro exI [of _ "next_session_id S"]) auto
  next
    case True
    let ?S = "S\<lparr>next_session_id := next_session_id S + 1\<rparr>"
    have "(alone x)\<^sup>*\<^sup>* (Loop, S) (Loop, ?S)" by (rule alone_next) (use True Suc.prems in auto)
    moreover obtain n where n: "(alone x)\<^sup>*\<^sup>* (Loop, ?S) (Loop, S\<lparr>next_session_id := n\<rparr>)" "word_of_int n \<notin> set (ids S)"
      "next_session_id S + 1 \<le> n" "n \<le> next_session_id S + 1 + int k" "free_session_loop ?S = free_session_loop (S\<lparr>next_session_id := n\<rparr>)"
      using Suc.IH [of ?S] Suc.prems by (auto simp: ids_def algebra_simps)
    moreover have "free_session_loop S = free_session_loop ?S" using free_session_step [of S] True Suc.prems by simp
    ultimately show ?thesis by (intro exI [of _ n]) (auto intro: rtranclp_trans)
  qed
qed

lemma alone_to_store:
  assumes "sess_wf S" and "0 \<in> set (ids S)" and "next_session_id S + 256 < INT_MAX"
    and i: "i < 255" "ids S ! i = 0" "\<forall>j < i. ids S ! j \<noteq> 0"
  obtains n where "(alone x)\<^sup>*\<^sup>* (Check 0, S) (Store i, S\<lparr>next_session_id := n\<rparr>)" and "word_of_int n \<notin> set (ids S)"
    and "next_session_id S \<le> n" and "n \<le> next_session_id S + 255" and "word_of_int (next_session_id S) \<notin> set (ids S) \<Longrightarrow> n = next_session_id S"
    and "free_session_loop S = free_session_loop (S\<lparr>next_session_id := n\<rparr>)"
proof -
  have len: "length (sessions S) = 255" and pos: "0 < next_session_id S" using assms(1) by (simp_all add: sess_wf_def)
  obtain k where k: "k < 256" "word_of_int (next_session_id S + int k) \<notin> set (ids S)"
    "word_of_int (next_session_id S) \<notin> set (ids S) \<Longrightarrow> k = 0"
  proof (cases "word_of_int (next_session_id S) \<in> set (ids S)")
    case True
    then show ?thesis using that free_number [OF len, of "next_session_id S"] by blast
  qed (use that [of 0] in simp)
  obtain n where n: "(alone x)\<^sup>*\<^sup>* (Loop, S) (Loop, S\<lparr>next_session_id := n\<rparr>)" "word_of_int n \<notin> set (ids S)"
    "next_session_id S \<le> n" "n \<le> next_session_id S + int k" "free_session_loop S = free_session_loop (S\<lparr>next_session_id := n\<rparr>)"
    using alone_loop [OF len assms(2) pos k(2)] assms(3) k(1) by force
  have "(alone x)\<^sup>*\<^sup>* (Check 0, S) (Check i, S)" by (rule alone_search(3) [OF len _ i(3)]) (use i(1) in auto)
  moreover have "(alone x)\<^sup>*\<^sup>* (Check i, S) (Loop, S)" by (rule alone_one) (use len i slot_id [OF len i(1)] in auto)
  moreover have "(alone x)\<^sup>*\<^sup>* (Loop, S\<lparr>next_session_id := n\<rparr>) (Store i, S\<lparr>next_session_id := n\<rparr>)"
    by (rule alone_found) (use len n(2) i in \<open>simp_all add: ids_def\<close>)
  ultimately have "(alone x)\<^sup>*\<^sup>* (Check 0, S) (Store i, S\<lparr>next_session_id := n\<rparr>)" using n(1) by (meson rtranclp_trans)
  then show ?thesis using that [of n] n k by (cases "k = 0") auto
qed

text \<open>From the first store on: the three members, and the counter.\<close>

definition claimed :: "nat \<Rightarrow> int \<Rightarrow> ('t, 'u) session_state \<Rightarrow> ('t, 'u) session_state" where
  "claimed i n S = S\<lparr>sessions := (sessions S)[i := (sessions S ! i)
     \<lparr>session_id := word_of_int n, waiting := False, timer := umtp_apdu_timeout S\<rparr>], next_session_id := n + 1\<rparr>"

lemma alone_stores:
  assumes "length (sessions S) = 255" and "i < 255"
  shows "(alone x)\<^sup>*\<^sup>* (Store i, S) (Count (word_of_int (next_session_id S)), S\<lparr>sessions := (sessions S)[i := (sessions S ! i)
     \<lparr>session_id := word_of_int (next_session_id S), waiting := False, timer := umtp_apdu_timeout S\<rparr>]\<rparr>)"
    (is "(alone x)\<^sup>*\<^sup>* _ (_, ?S')")
proof -
  let ?n = "word_of_int (next_session_id S) :: u8"
  define ss where "ss f = (sessions S)[i := f (sessions S ! i)]" for f
  have "(alone x)\<^sup>*\<^sup>* (Store_timer i ?n, S\<lparr>sessions := ss (\<lambda>s. s\<lparr>session_id := ?n, waiting := False\<rparr>)\<rparr>) (Count ?n, ?S')"
    by (rule alone_one [OF _ rtranclp.rtrancl_refl]) (use assms in \<open>simp add: upd_session_ok ss_def apdu_timeout_def\<close>)
  then have "(alone x)\<^sup>*\<^sup>* (Store_waiting i ?n, S\<lparr>sessions := ss (\<lambda>s. s\<lparr>session_id := ?n\<rparr>)\<rparr>) (Count ?n, ?S')"
    by (rule alone_one [rotated]) (use assms in \<open>simp add: upd_session_ok ss_def\<close>)
  then show ?thesis
    by (rule alone_one [rotated]) (use assms in \<open>simp add: upd_session_ok ss_def\<close>)
qed

lemma alone_claim:
  assumes "length (sessions S) = 255" and "i < 255" and "0 < n" and "n < INT_MAX"
  shows "(alone x)\<^sup>*\<^sup>* (Store i, S\<lparr>next_session_id := n\<rparr>) (Got (word_of_int n), claimed i n S)"
proof -
  have "(alone x)\<^sup>*\<^sup>* (Store i, S\<lparr>next_session_id := n\<rparr>) (Count (word_of_int n), S\<lparr>next_session_id := n,
      sessions := (sessions S)[i := (sessions S ! i)\<lparr>session_id := word_of_int n, waiting := False, timer := umtp_apdu_timeout S\<rparr>]\<rparr>)"
    using alone_stores [of "S\<lparr>next_session_id := n\<rparr>" i x] assms by simp
  also have "(alone x)\<^sup>*\<^sup>* \<dots> (Got (word_of_int n), claimed i n S)"
    by (rule alone_one [OF _ rtranclp.rtrancl_refl]) (use assms in \<open>simp add: incr_session_id_def claimed_def\<close>)
  finally show ?thesis .
qed

lemma free_session_claimed:
  assumes "length (sessions S) = 255" and "0 < n" and "n < INT_MAX" and "word_of_int n \<notin> set (ids S)"
    and "i < 255" and "ids S ! i = 0" and "\<forall>j < i. ids S ! j \<noteq> 0"
  shows "free_session_loop (S\<lparr>next_session_id := n\<rparr>) = Some (Inr (word_of_int n, claimed i n S))"
proof -
  let ?S = "S\<lparr>next_session_id := n\<rparr>"
  have ids: "ids ?S = ids S" by (simp add: ids_def)
  have none: "session_get_index ?S (word_of_int n) = 255" using session_index_none [of ?S] assms(1,4) by (simp add: ids)
  have zero: "0 \<in> set (ids S)" using assms(1,5,6) nth_mem [of i "ids S"] by (simp add: ids_def)
  obtain k where k: "k < 255" "ids S ! k = 0" "\<forall>j < k. ids S ! j \<noteq> 0" "unat (session_get_index ?S 0) = k" "session_get_index ?S 0 \<noteq> 255"
    by (rule first_slot [of ?S 0, unfolded ids]) (use zero assms(1) in \<open>simp_all add: ids\<close>)
  have "k = i" using k(1-3) assms(5-7) by (cases k i rule: linorder_cases) auto
  then show ?thesis
    using none k(4,5) assms(1-3,5)
    by (simp add: free_session_loop.simps [of ?S] Let_def upd_session_ok incr_session_id_def apdu_timeout_def claimed_def)
qed

text \<open>The eight writes.\<close>

lemma alone_write:
  assumes "(alone x)\<^sup>*\<^sup>* (Write i n j', S\<lparr>sessions := (sessions S)[i := s']\<rparr>) c"
    and "j' = Suc j" and "set_write x n (apdu_timeout S) j s = Inr s'" and "j < 8" and "i < length (sessions S)"
  shows "(alone x)\<^sup>*\<^sup>* (Write i n j, S\<lparr>sessions := (sessions S)[i := s]\<rparr>) c"
  by (rule alone_one [OF _ assms(1)]) (use assms(2-5) in \<open>simp add: apdu_timeout_def\<close>)

lemma alone_set:
  assumes len: "length (sessions S) = 255" and "sid \<noteq> 0"
    and set: "umtp_session_set sid (rq_timeout x) (rq_data x) (rq_dest x) (rq_pdu x sid) (rq_len x) S = Inr S'"
  shows "(alone x)\<^sup>*\<^sup>* (Got sid, S) (Done, S')"
proof -
  have "(alone x)\<^sup>*\<^sup>* (Find sid 0, S) (Done, S')"
  proof (cases "sid \<in> set (ids S)")
    case False
    have li: "length (ids S) = 255" using len by (simp add: ids_def)
    have "\<forall>j < 255. ids S ! j \<noteq> sid" using False nth_mem [of _ "ids S"] unfolding li by metis
    note search = alone_search(2) [OF len order_refl this, of x]
    have "session_get_index S sid = 255" using session_index_none [OF len] False by blast
    then have "S' = S" using set assms(2) by (simp add: umtp_session_set_def)
    moreover have "(alone x)\<^sup>*\<^sup>* (Find sid 255, S) (Done, S)" by (rule alone_one) auto
    ultimately show ?thesis using search by (meson rtranclp_trans)
  next
    case True
    obtain k where k: "k < 255" "ids S ! k = sid" "\<forall>j < k. ids S ! j \<noteq> sid" "unat (session_get_index S sid) = k"
      "session_get_index S sid \<noteq> 255" by (rule first_slot [OF len True])
    let ?s = "sessions S ! k"
    obtain xs buf where buf: "arr_read (rq_pdu x sid) 0 (uint (rq_len x)) = Inr xs" "arr_write (s_pdu ?s) 0 xs = Inr buf"
      and S': "S' = S\<lparr>sessions := (sessions S)[k := ?s\<lparr>waiting := True, retry := 0, timer := apdu_timeout S,
        s_timeout := rq_timeout x, s_data := rq_data x, s_pdu := buf, s_pdu_len := rq_len x, s_dest := rq_dest x\<rparr>]\<rparr>"
    proof -
      let ?r = "arr_read (rq_pdu x sid) 0 (uint (rq_len x))"
      have eq: "umtp_session_set sid (rq_timeout x) (rq_data x) (rq_dest x) (rq_pdu x sid) (rq_len x) S
          = bindE ?r (\<lambda>xs. bindE (arr_write (s_pdu ?s) 0 xs) (\<lambda>buf.
              Inr (S\<lparr>sessions := (sessions S)[k := ?s\<lparr>waiting := True, retry := 0, timer := apdu_timeout S,
                s_timeout := rq_timeout x, s_data := rq_data x, s_pdu := buf, s_pdu_len := rq_len x, s_dest := rq_dest x\<rparr>]\<rparr>)))"
        using assms(2) k(1,4,5) len by (simp add: umtp_session_set_def upd_session_ok Let_def)
      obtain xs where xs: "?r = Inr xs" using set unfolding eq by (cases ?r) simp_all
      obtain buf where "arr_write (s_pdu ?s) 0 xs = Inr buf" using set unfolding eq xs by (cases "arr_write (s_pdu ?s) 0 xs") simp_all
      then show ?thesis using that xs set unfolding eq by simp
    qed
    let ?s3 = "?s\<lparr>waiting := True, retry := 0, timer := apdu_timeout S\<rparr>"
    let ?s5 = "?s3\<lparr>s_timeout := rq_timeout x, s_data := rq_data x\<rparr>"
    have "(alone x)\<^sup>*\<^sup>* (Write k sid 8, S\<lparr>sessions := (sessions S)[k := ?s5\<lparr>s_pdu := buf, s_pdu_len := rq_len x, s_dest := rq_dest x\<rparr>]\<rparr>) (Done, S')"
      by (rule alone_one) (auto simp: S')
    then have "(alone x)\<^sup>*\<^sup>* (Write k sid 7, S\<lparr>sessions := (sessions S)[k := ?s5\<lparr>s_pdu := buf, s_pdu_len := rq_len x\<rparr>]\<rparr>) (Done, S')"
      by (rule alone_write) (use k(1) len in \<open>simp_all add: set_write_def S'\<close>)
    then have "(alone x)\<^sup>*\<^sup>* (Write k sid 6, S\<lparr>sessions := (sessions S)[k := ?s5\<lparr>s_pdu := buf\<rparr>]\<rparr>) (Done, S')"
      by (rule alone_write) (use k(1) len in \<open>simp_all add: set_write_def\<close>)
    then have "(alone x)\<^sup>*\<^sup>* (Write k sid 5, S\<lparr>sessions := (sessions S)[k := ?s5]\<rparr>) (Done, S')"
      by (rule alone_write) (use k(1) len buf in \<open>simp_all add: set_write_def\<close>)
    then have "(alone x)\<^sup>*\<^sup>* (Write k sid 4, S\<lparr>sessions := (sessions S)[k := ?s3\<lparr>s_timeout := rq_timeout x\<rparr>]\<rparr>) (Done, S')"
      by (rule alone_write) (use k(1) len in \<open>simp_all add: set_write_def\<close>)
    then have "(alone x)\<^sup>*\<^sup>* (Write k sid 3, S\<lparr>sessions := (sessions S)[k := ?s3]\<rparr>) (Done, S')"
      by (rule alone_write) (use k(1) len in \<open>simp_all add: set_write_def\<close>)
    then have "(alone x)\<^sup>*\<^sup>* (Write k sid 2, S\<lparr>sessions := (sessions S)[k := ?s\<lparr>waiting := True, retry := 0\<rparr>]\<rparr>) (Done, S')"
      by (rule alone_write) (use k(1) len in \<open>simp_all add: set_write_def\<close>)
    then have "(alone x)\<^sup>*\<^sup>* (Write k sid 1, S\<lparr>sessions := (sessions S)[k := ?s\<lparr>waiting := True\<rparr>]\<rparr>) (Done, S')"
      by (rule alone_write) (use k(1) len in \<open>simp_all add: set_write_def eval_nat_numeral\<close>)
    then have "(alone x)\<^sup>*\<^sup>* (Write k sid 0, S\<lparr>sessions := (sessions S)[k := ?s]\<rparr>) (Done, S')"
      by (rule alone_write) (use k(1) len in \<open>simp_all add: set_write_def\<close>)
    then have "(alone x)\<^sup>*\<^sup>* (Write k sid 0, S) (Done, S')" by simp
    moreover have "(alone x)\<^sup>*\<^sup>* (Find sid k, S) (Write k sid 0, S)"
      by (rule alone_one) (use k len slot_id [OF len k(1)] in auto)
    moreover have "(alone x)\<^sup>*\<^sup>* (Find sid 0, S) (Find sid k, S)" by (rule alone_search(2) [OF len _ k(3)]) (use k(1) in simp)
    ultimately show ?thesis by (meson rtranclp_trans)
  qed
  then show ?thesis by (rule alone_one [rotated]) (simp add: assms(2))
qed

lemma alone_full:
  assumes "length (sessions S) = 255" and "0 \<notin> set (ids S)"
  shows "(alone x)\<^sup>*\<^sup>* (Check 0, S) (Got 0, S)"
proof -
  have li: "length (ids S) = 255" using assms(1) by (simp add: ids_def)
  have "\<forall>j < 255. ids S ! j \<noteq> 0" using assms(2) nth_mem [of _ "ids S"] unfolding li by metis
  note search = alone_search(3) [OF assms(1) order_refl this refl, of x]
  have "(alone x)\<^sup>*\<^sup>* (Check 255, S) (Got 0, S)" by (rule alone_one) auto
  then show ?thesis using search by (rule rtranclp_trans [rotated])
qed

lemma alone_got:
  assumes "sess_wf S" and "0 \<in> set (ids S)" and "next_session_id S + 256 < INT_MAX" and "umtp_free_session S = Inr (sid, S')"
  shows "(alone x)\<^sup>*\<^sup>* (Check 0, S) (Got sid, S')"
proof -
  have len: "length (sessions S) = 255" and pos: "0 < next_session_id S" using assms(1) by (simp_all add: sess_wf_def)
  obtain i where i: "i < 255" "ids S ! i = 0" "\<forall>j < i. ids S ! j \<noteq> 0" "session_get_index S 0 \<noteq> 255" by (rule first_slot [OF len assms(2)])
  obtain n where n: "(alone x)\<^sup>*\<^sup>* (Check 0, S) (Store i, S\<lparr>next_session_id := n\<rparr>)" "word_of_int n \<notin> set (ids S)"
    "next_session_id S \<le> n" "n \<le> next_session_id S + 255" "free_session_loop S = free_session_loop (S\<lparr>next_session_id := n\<rparr>)"
    by (rule alone_to_store [OF assms(1-3) i(1-3)])
  have n': "0 < n" "n < INT_MAX" using n(3,4) pos assms(3) by simp_all
  have "free_session_loop S = Some (Inr (word_of_int n, claimed i n S))"
    unfolding n(5) by (rule free_session_claimed [OF len n' n(2) i(1-3)])
  then have "sid = word_of_int n" "S' = claimed i n S" using assms(4) i(4) by (simp_all add: umtp_free_session_def)
  then show ?thesis using n(1) alone_claim [OF len i(1) n', of x] by (auto intro: rtranclp_trans)
qed

section \<open>One submitter\<close>

text \<open>The others only ever free slots.\<close>

definition frees :: "('t, 'u) session_state \<Rightarrow> ('t, 'u) session_state \<Rightarrow> bool" where
  "frees S S' \<longleftrightarrow> length (sessions S) = 255 \<and> length (sessions S') = 255 \<and> next_session_id S' = next_session_id S
     \<and> (\<forall>j < 255. ids S' ! j = ids S ! j \<or> ids S' ! j = 0)"

lemma frees_update:
  assumes "upd_session k f S = Inr S'" and "length (sessions S) = 255" and "\<And>s. session_id (f s) = session_id s \<or> session_id (f s) = 0"
  shows "frees S S'"
proof -
  have k: "k < 255" "S' = S\<lparr>sessions := (sessions S)[k := f (sessions S ! k)]\<rparr>"
    using assms(1,2) by (auto simp: upd_session_def arr_get_def arr_set_def res_simps split: if_splits)
  then show ?thesis using assms(2,3) by (auto simp: frees_def ids_def nth_list_update)
qed

lemma frees_refl: "length (sessions S) = 255 \<Longrightarrow> frees S S"
  by (simp add: frees_def)

lemma frees_trans: "frees S S' \<Longrightarrow> frees S' S'' \<Longrightarrow> frees S S''"
  unfolding frees_def by metis

lemma frees_tick:
  assumes "session_tick (quiet_send g) (quiet_tmo c) ms k (S, w) = Inr (S', w')" and len: "length (sessions S) = 255"
  shows "frees S S'"
proof -
  have k: "k < length (sessions S)" using assms(1) by (auto simp: session_tick_def arr_get_def split: if_splits)
  then have "S' = S\<lparr>sessions := (sessions S)[k := tick_slot S ms (sessions S ! k)]\<rparr>"
    using assms(1) by (simp add: session_tick_quiet bindE_def split: sum.splits)
  moreover have "session_id (tick_slot S ms s) = session_id s \<or> session_id (tick_slot S ms s) = 0" for s
    by (simp add: tick_slot_def Let_def)
  ultimately show ?thesis using frees_update [OF upd_session_ok [OF k]] len by metis
qed

text \<open>Two slots never have the same number, and what a submitter has found in a search stays true while others free slots.\<close>

definition ids_distinct :: "('t, 'u) session_state \<Rightarrow> bool" where
  "ids_distinct S \<longleftrightarrow> (\<forall>i < 255. \<forall>j < 255. ids S ! i = ids S ! j \<longrightarrow> ids S ! i \<noteq> 0 \<longrightarrow> i = j)"

fun phase_inv :: "('t, 'u) session_state \<Rightarrow> phase \<Rightarrow> bool" where
  "phase_inv S Loop \<longleftrightarrow> (\<exists>m < 255. ids S ! m = 0)"
| "phase_inv S Next \<longleftrightarrow> (\<exists>m < 255. ids S ! m = 0)"
| "phase_inv S (Look n k) \<longleftrightarrow> n = word_of_int (next_session_id S) \<and> k \<le> 255
     \<and> (\<exists>m < 255. ids S ! m = 0 \<and> (n = 0 \<longrightarrow> k \<le> m)) \<and> (n \<noteq> 0 \<longrightarrow> (\<forall>j < k. ids S ! j \<noteq> n))"
| "phase_inv S (Slot k) \<longleftrightarrow> (\<exists>m < 255. ids S ! m = 0 \<and> k \<le> m)
     \<and> word_of_int (next_session_id S) \<noteq> (0 :: u8) \<and> (\<forall>j < 255. ids S ! j \<noteq> word_of_int (next_session_id S))"
| "phase_inv S (Store i) \<longleftrightarrow> i < 255 \<and> ids S ! i = 0
     \<and> word_of_int (next_session_id S) \<noteq> (0 :: u8) \<and> (\<forall>j < 255. ids S ! j \<noteq> word_of_int (next_session_id S))"
| "phase_inv S p \<longleftrightarrow> True"

lemma phase_inv_frees: "phase_inv S p \<Longrightarrow> frees S S' \<Longrightarrow> phase_inv S' p"
proof (cases p)
  case (Look n k)
  assume "phase_inv S p" "frees S S'"
  then show ?thesis unfolding Look frees_def phase_inv.simps by (metis order.strict_trans2)
qed (auto simp: frees_def; metis)+

lemma ids_distinct_frees: "ids_distinct S \<Longrightarrow> frees S S' \<Longrightarrow> ids_distinct S'"
  unfolding ids_distinct_def frees_def by metis

definition table_inv :: "('t, 'u) session_state \<Rightarrow> phase \<Rightarrow> bool" where
  "table_inv S p \<longleftrightarrow> length (sessions S) = 255 \<and> ids_distinct S \<and> phase_inv S p"

lemma table_inv_frees: "table_inv S p \<Longrightarrow> frees S S' \<Longrightarrow> table_inv S' p"
  unfolding table_inv_def using phase_inv_frees ids_distinct_frees frees_def by metis

lemma table_inv_sub:
  assumes "table_inv S p" and "sub_next x p S = Inr (p', S')"
  shows "table_inv S' p'"
proof -
  have len: "length (sessions S) = 255" and un: "ids_distinct S" and inv: "phase_inv S p" using assms(1) by (simp_all add: table_inv_def)
  have id: "session_id (sessions S ! k) = ids S ! k" if "k < 255" for k using slot_id [OF len that] .
  have quiet: "table_inv S1 q" if "upd_session k f S = Inr S1" "\<And>s. session_id (f s) = session_id s" "phase_inv S q" for k f S1 q
  proof -
    have "frees S S1" by (rule frees_update [OF that(1) len]) (simp add: that(2))
    then show ?thesis using table_inv_frees [of S q S1] len un that(3) by (simp add: table_inv_def)
  qed
  have count: "table_inv (S\<lparr>next_session_id := n\<rparr>) q" if "phase_inv (S\<lparr>next_session_id := n\<rparr>) q" for n q
    using that len un by (simp add: table_inv_def ids_distinct_def ids_def)
  show ?thesis
  proof (cases p)
    case (Look n k)
    have n: "n = word_of_int (next_session_id S)" "k \<le> 255" and m: "\<exists>m < 255. ids S ! m = 0 \<and> (n = 0 \<longrightarrow> k \<le> m)"
      and none: "n \<noteq> 0 \<longrightarrow> (\<forall>j < k. ids S ! j \<noteq> n)" using inv unfolding Look phase_inv.simps by blast+
    show ?thesis
    proof (cases "k = 255")
      case True
      then have "n \<noteq> 0" using m by auto
      then have "phase_inv S (Slot 0)" using m none n True by auto
      moreover have "p' = Slot 0" "S' = S" using assms(2) True by (auto simp: Look)
      ultimately show ?thesis using len un by (simp add: table_inv_def)
    next
      case False
      then have k: "k < 255" using n(2) by simp
      have "p' = (if ids S ! k = n then Next else Look n (Suc k))" "S' = S" using assms(2) k len id [OF k] by (auto simp: Look)
      moreover have "phase_inv S (Look n (Suc k))" if "ids S ! k \<noteq> n"
        using m none n k that by (auto simp: less_Suc_eq le_less Suc_le_eq)
      moreover have "phase_inv S Next" using m by auto
      ultimately show ?thesis using len un by (simp add: table_inv_def)
    qed
  next
    case (Slot k)
    obtain m where m: "m < 255" "ids S ! m = 0" "k \<le> m" using inv by (auto simp: Slot)
    then have k: "k < 255" by simp
    have "p' = (if ids S ! k = 0 then Store k else Slot (Suc k))" "S' = S" using assms(2) k len id [OF k] by (auto simp: Slot)
    moreover have "phase_inv S (Slot (Suc k))" if "ids S ! k \<noteq> 0"
    proof -
      have "Suc k \<le> m" using m that by (cases "k = m") auto
      then show ?thesis using inv m by (auto simp: Slot)
    qed
    moreover have "phase_inv S (Store k)" if "ids S ! k = 0" using inv k that by (simp add: Slot)
    ultimately show ?thesis using len un by (simp add: table_inv_def)
  next
    case (Store i)
    let ?n = "word_of_int (next_session_id S) :: u8"
    have i: "i < 255" and new: "\<forall>j < 255. ids S ! j \<noteq> ?n" using inv by (simp_all add: Store)
    have S': "p' = Store_waiting i ?n" "S' = S\<lparr>sessions := (sessions S)[i := (sessions S ! i)\<lparr>session_id := ?n\<rparr>]\<rparr>"
      using assms(2) i len by (auto simp: Store upd_session_ok)
    have "ids S' = (ids S)[i := ?n]" by (simp add: S'(2) ids_def map_update)
    moreover have "length (ids S) = 255" using len by (simp add: ids_def)
    ultimately have "ids_distinct S'" using un new i by (auto simp: ids_distinct_def nth_list_update)
    then show ?thesis using len by (simp add: table_inv_def S'(1)) (simp add: S'(2))
  next
    case (Check k)
    show ?thesis
      using assms(2) len un id [of k] by (auto simp: Check table_inv_def bindE_def arr_get_def split: if_splits)
  next
    case Next
    then obtain n where "p' = Loop" "S' = S\<lparr>next_session_id := n\<rparr>" using assms(2) by (auto simp: bindE_def split: sum.splits)
    then show ?thesis using count [where n = n and q = Loop] inv by (simp add: Next ids_def)
  next
    case (Write i n j)
    show ?thesis
    proof (cases "j = 8")
      case True
      then show ?thesis using assms(2) len un by (simp add: Write table_inv_def)
    next
      case False
      then obtain s' where i: "i < length (sessions S)" and s': "set_write x n (apdu_timeout S) j (sessions S ! i) = Inr s'"
        and S': "p' = Write i n (Suc j)" "S' = S\<lparr>sessions := (sessions S)[i := s']\<rparr>"
        using assms(2) by (auto simp: Write bindE_def arr_get_def arr_set_def split: if_splits sum.splits)
      have "session_id s' = session_id (sessions S ! i)"
        using s' by (auto simp: set_write_def bindE_def split: if_splits sum.splits)
      then have "ids S' = ids S" using i by (simp add: S'(2) ids_def map_update list_update_same_conv)
      then show ?thesis using un len by (simp add: table_inv_def ids_distinct_def S'(1)) (simp add: S'(2))
    qed
  next
    case (Store_waiting i n)
    then show ?thesis using assms(2) by (auto simp: bindE_def split: sum.splits elim!: quiet)
  next
    case (Store_timer i n)
    then show ?thesis using assms(2) by (auto simp: bindE_def split: sum.splits elim!: quiet)
  next
    case (Count n)
    then show ?thesis using assms(2) by (auto simp: bindE_def split: sum.splits intro!: count)
  qed (use assms in \<open>auto simp: table_inv_def bindE_def arr_get_def split: if_splits sum.splits\<close>)
qed

lemma table_inv_step:
  assumes "table_inv (tab r) (phase r 0)" and "table_step {0} g c r r'"
  shows "table_inv (tab r') (phase r' 0)"
  using assms(2)
proof cases
  case (start i x)
  then show ?thesis using assms(1) by (simp add: table_inv_def)
next
  case (submit i p S)
  then show ?thesis using table_inv_sub [OF assms(1)] by simp
next
  case (tick ms k S w)
  then show ?thesis using table_inv_frees [OF assms(1) frees_tick [OF tick(2)]] assms(1) by (simp add: table_inv_def)
next
  case (clear_find sid)
  then show ?thesis using assms(1) by simp
next
  case (clear_write k S)
  have "frees (tab r) S" by (rule frees_update [OF clear_write(3)]) (use assms(1) in \<open>simp_all add: table_inv_def\<close>)
  then show ?thesis using table_inv_frees [OF assms(1)] clear_write(1) by simp
qed

lemma table_inv_reach: "(table_step {0} g c)\<^sup>*\<^sup>* r r' \<Longrightarrow> table_inv (tab r) (phase r 0) \<Longrightarrow> table_inv (tab r') (phase r' 0)"
  by (induction rule: rtranclp_induct) (auto intro: table_inv_step)

lemma table_inv_init: "threads_init r \<Longrightarrow> table_inv (tab r) (phase r 0)"
  using ids_unique [of "tab r"] by (auto simp: threads_init_def table_inv_def ids_distinct_def sess_wf_def)

section \<open>From a submitter alone to the threads\<close>

lemma alone_submits:
  assumes "(alone x)\<^sup>*\<^sup>* (p, S) (p', S')" and "i \<in> I"
  shows "tab r = S \<Longrightarrow> phase r i = p \<Longrightarrow> rq r i = x \<Longrightarrow>
    (submit_step I)\<^sup>*\<^sup>* r (r\<lparr>tab := S', phase := (phase r)(i := p')\<rparr>)"
  using assms(1)
proof (induction "(p', S')" arbitrary: p' S' rule: rtranclp_induct)
  case base
  then have "r\<lparr>tab := S, phase := (phase r)(i := p)\<rparr> = r" by (cases r) (auto simp: fun_upd_idem)
  then show ?case by simp
next
  case (step c1 p' S')
  obtain q T where c1: "c1 = (q, T)" by (cases c1)
  let ?r = "r\<lparr>tab := T, phase := (phase r)(i := q)\<rparr>"
  have "(submit_step I)\<^sup>*\<^sup>* r ?r" using step(3) [OF c1] step(4-6) by simp
  moreover have "submit_step I ?r (?r\<lparr>tab := S', phase := (phase ?r)(i := p')\<rparr>)"
    by (rule only_submit [OF assms(2)]) (use step(2,6) in \<open>simp add: c1 alone_def\<close>)
  ultimately show ?case by simp
qed

lemmas alone_threads = submits_table [OF alone_submits]

section \<open>Properties\<close>

text \<open>The threads of a fresh table, and a request of four bytes. The callbacks count.\<close>

definition ex_request :: "u8 \<Rightarrow> (unit, unit) request" where
  "ex_request svc = \<lparr>rq_timeout = None, rq_data = (), rq_dest = ex_addr, rq_pdu = (\<lambda>k. [1, 0, svc, k]), rq_len = 4\<rparr>"

definition ex_threads :: "(unit, unit, nat) threads" where
  "ex_threads = \<lparr>tab = ex_sess, phase = (\<lambda>_. Done), rq = (\<lambda>_. ex_request 0), answered = None, tworld = 0\<rparr>"

abbreviation (input) ex_count :: "'x \<Rightarrow> umtp_addr \<Rightarrow> u8 list \<Rightarrow> int \<Rightarrow> nat \<Rightarrow> nat res" where
  "ex_count \<equiv> \<lambda>_ _ _ _ w. Inr (w + 1)"

lemma ex_threads_facts: "threads_init ex_threads" "0 \<in> set (ids (tab ex_threads))" "next_session_id (tab ex_threads) + 256 < INT_MAX"
  "live ex_sess = {}" "tab ex_threads = ex_sess" "tworld ex_threads = 0"
  using ex_sess_facts by (simp_all add: threads_init_def ex_threads_def live_def)

text \<open>C15. A submission by itself is the code. When no other thread runs, the accesses of a submitter on a well-formed table do
  what the functions do: they end with the number that \<open>umtp_free_session\<close> returns and the table that it
  leaves, and from there with the table that \<open>umtp_session_set\<close> leaves.\<close>

theorem submission_alone:
  assumes "sess_wf S" and "next_session_id S + 256 < INT_MAX" and "umtp_free_session S = Inr (sid, S1)"
  shows "(alone x)\<^sup>*\<^sup>* (Check 0, S) (Got sid, S1)
    \<and> (\<forall>S2. sid \<noteq> 0 \<and> umtp_session_set sid (rq_timeout x) (rq_data x) (rq_dest x) (rq_pdu x sid) (rq_len x) S1 = Inr S2
        \<longrightarrow> (alone x)\<^sup>*\<^sup>* (Got sid, S1) (Done, S2))"
proof (cases "0 \<in> set (ids S)")
  case True
  have "sess_alloc S sid S1" using umtp_free_session_alloc [OF assms(3,1)] True by simp
  then have "length (sessions S1) = 255" using sess_alloc_wf(1) [OF _ assms(1)] by (simp add: sess_wf_def)
  then show ?thesis using alone_got [OF assms(1) True assms(2,3)] alone_set [of S1 sid x] by blast
next
  case False
  then have "sid = 0" "S1 = S" using umtp_free_session_alloc [OF assms(3,1)] by simp_all
  then show ?thesis using alone_full [of S x] False assms(1) by (simp add: sess_wf_def)
qed

theorem submission_alone_witness:
  "\<exists>sid S1. (alone (ex_request 1))\<^sup>*\<^sup>* (Check 0, ex_sess) (Got sid, S1) \<and> sid \<noteq> 0 \<and> sid \<in> live S1"
proof -
  have n: "next_session_id ex_sess + 256 < INT_MAX" "0 \<in> set (ids ex_sess)" by (simp_all add: ex_sess_facts)
  obtain sid S1 where s: "umtp_free_session ex_sess = Inr (sid, S1)" "sess_alloc ex_sess sid S1" "sid \<noteq> 0"
    by (rule umtp_free_session_returns [OF ex_sess_facts(1) n(2,1)])
  show ?thesis
    using submission_alone [OF ex_sess_facts(1) n(1) s(1), of "ex_request 1"] sess_alloc_wf(2) [OF s(2) ex_sess_facts(1)] s(3) by auto
qed

text \<open>C14. One submitter needs no lock to number its requests. However the accesses of one submitting thread interleave with the
  turns of the protocol task and with answers that end sessions, whatever the callbacks do to the world, no
  two slots ever have the same number, and when the submitter is about to store a number, the slot is
  free and no slot has that number.\<close>

theorem one_submitter_exclusive:
  assumes "threads_init r" and "(table_step {0} g c)\<^sup>*\<^sup>* r r'"
  shows "(\<forall>i < 255. \<forall>j < 255. ids (tab r') ! i = ids (tab r') ! j \<and> ids (tab r') ! i \<noteq> 0 \<longrightarrow> i = j)
    \<and> (\<forall>i. phase r' 0 = Store i \<longrightarrow> ids (tab r') ! i = 0 \<and> word_of_int (next_session_id (tab r')) \<noteq> (0 :: u8)
        \<and> (\<forall>j < 255. ids (tab r') ! j \<noteq> word_of_int (next_session_id (tab r'))))"
proof -
  have "table_inv (tab r') (phase r' 0)" by (rule table_inv_reach [OF assms(2) table_inv_init [OF assms(1)]])
  then show ?thesis by (auto simp: table_inv_def ids_distinct_def)
qed

theorem one_submitter_exclusive_witness:
  "\<exists>r' i. (table_step {0} ex_count ex_count)\<^sup>*\<^sup>* ex_threads r' \<and> phase r' 0 = Store i \<and> ids (tab r') ! i = 0"
proof -
  obtain i where i: "i < 255" "ids ex_sess ! i = 0" "\<forall>j < i. ids ex_sess ! j \<noteq> 0"
    by (rule first_slot [of ex_sess 0]) (use ex_sess_facts in simp_all)
  obtain n where n: "(alone (ex_request 1))\<^sup>*\<^sup>* (Check 0, ex_sess) (Store i, ex_sess\<lparr>next_session_id := n\<rparr>)"
    by (rule alone_to_store [OF ex_sess_facts(1) _ _ i]) (simp_all add: ex_sess_facts)
  let ?r = "ex_threads\<lparr>phase := (phase ex_threads)(0 := Check 0), rq := (rq ex_threads)(0 := ex_request 1)\<rparr>"
  let ?r' = "?r\<lparr>tab := ex_sess\<lparr>next_session_id := n\<rparr>, phase := (phase ?r)(0 := Store i)\<rparr>"
  have "table_step {0} ex_count ex_count ex_threads ?r" by (rule start) (simp_all add: ex_threads_def)
  also have "(table_step {0} ex_count ex_count)\<^sup>*\<^sup>* ?r ?r'"
    by (rule alone_threads [OF n]) (simp_all add: ex_threads_facts)
  finally have run: "(table_step {0} ex_count ex_count)\<^sup>*\<^sup>* ex_threads ?r'" .
  show ?thesis
    using one_submitter_exclusive [OF ex_threads_facts(1) run] run by (intro exI [of _ ?r'] exI [of _ i]) simp
qed

text \<open>The slot waits for the answer to the request with the number \<open>sid\<close>; what it sends again is that request.\<close>

definition holds :: "('t, 'u) request \<Rightarrow> u8 \<Rightarrow> ('t, 'u) umtp_session \<Rightarrow> bool" where
  "holds x sid s \<longleftrightarrow> session_id s = sid \<and> waiting s \<and> s_timeout s = rq_timeout x \<and> s_data s = rq_data x \<and> s_dest s = rq_dest x
     \<and> s_pdu_len s = rq_len x \<and> take (unat (rq_len x)) (s_pdu s) = take (unat (rq_len x)) (rq_pdu x sid)"

text \<open>Two submitters that are both about to store: each stores, counts, and finds the one slot.\<close>

lemma two_stores:
  fixes x y :: "('t, 'u) request"
  assumes "sess_wf S" and "next_session_id S + 256 < INT_MAX" and i: "i < 255" "ids S ! i = 0" "\<forall>j < i. ids S ! j \<noteq> 0"
    and n: "word_of_int n \<notin> set (ids S)" "next_session_id S \<le> n" "n \<le> next_session_id S + 255"
    and x: "unat (rq_len x) \<le> MAX_PDU" "\<And>k. unat (rq_len x) \<le> length (rq_pdu x k)"
    and y: "unat (rq_len y) \<le> MAX_PDU" "\<And>k. unat (rq_len y) \<le> length (rq_pdu y k)"
  obtains T1 T S1 S2 where "(alone x)\<^sup>*\<^sup>* (Store i, S\<lparr>next_session_id := n\<rparr>) (Count (word_of_int n), T1)"
    and "(alone y)\<^sup>*\<^sup>* (Store i, T1) (Count (word_of_int n), T1)"
    and "(alone x)\<^sup>*\<^sup>* (Count (word_of_int n), T1) (Got (word_of_int n), T1\<lparr>next_session_id := n + 1\<rparr>)"
    and "(alone y)\<^sup>*\<^sup>* (Count (word_of_int n), T1\<lparr>next_session_id := n + 1\<rparr>) (Got (word_of_int n), T)"
    and "(alone x)\<^sup>*\<^sup>* (Got (word_of_int n), T) (Done, S1)" and "(alone y)\<^sup>*\<^sup>* (Got (word_of_int n), S1) (Done, S2)"
    and "live S2 = insert (word_of_int n) (live S)" and "sess_wf S2" and "holds y (word_of_int n) (sessions S2 ! i)"
    and "\<forall>j. j \<noteq> i \<longrightarrow> sessions S2 ! j = sessions S ! j"
proof -
  let ?n = "word_of_int n :: u8"
  let ?s = "(sessions S ! i)\<lparr>session_id := ?n, waiting := False, timer := umtp_apdu_timeout S\<rparr>"
  define T1 where "T1 = S\<lparr>next_session_id := n, sessions := (sessions S)[i := ?s]\<rparr>"
  define T where "T = S\<lparr>next_session_id := n + 2, sessions := (sessions S)[i := ?s]\<rparr>"
  have len: "length (sessions S) = 255" and pos: "0 < next_session_id S" using assms(1) by (simp_all add: sess_wf_def)
  have a: "sess_alloc S ?n T" unfolding sess_alloc_def using i n by (intro conjI exI [of _ i] exI [of _ "n + 2"]) (auto simp: T_def)
  have zero: "0 \<in> set (ids S)" using i(1,2) len nth_mem [of i "ids S"] by (simp add: ids_def)
  then have nz: "?n \<noteq> 0" using n(1) by auto
  have wf: "sess_wf T" "live T = insert ?n (live S)" using sess_alloc_wf [OF a assms(1)] nz by simp_all
  then have liveT: "?n \<in> live T" by simp
  obtain k1 s1 S1 where S1: "umtp_session_set ?n (rq_timeout x) (rq_data x) (rq_dest x) (rq_pdu x ?n) (rq_len x) T = Inr S1"
    "sess_wf S1" "ids S1 = ids T" "umtp_get_session ?n S1 = Some k1" "S1 = T\<lparr>sessions := (sessions T)[k1 := s1]\<rparr>"
    by (rule umtp_session_set_ok [OF wf(1) liveT x(2,1)])
  have l1: "?n \<in> live S1" using S1(3) liveT by (simp add: live_def)
  obtain k2 s2 S2 where S2: "umtp_session_set ?n (rq_timeout y) (rq_data y) (rq_dest y) (rq_pdu y ?n) (rq_len y) S1 = Inr S2"
    "sess_wf S2" "ids S2 = ids S1" "umtp_get_session ?n S2 = Some k2" "S2 = S1\<lparr>sessions := (sessions S1)[k2 := s2]\<rparr>" "sessions S2 ! k2 = s2"
    and s2: "s2 = (sessions S1 ! k2)\<lparr>waiting := True, retry := 0, timer := umtp_apdu_timeout S1, s_timeout := rq_timeout y, s_data := rq_data y,
      s_pdu := take (unat (rq_len y)) (rq_pdu y ?n) @ drop (unat (rq_len y)) (s_pdu (sessions S1 ! k2)), s_pdu_len := rq_len y, s_dest := rq_dest y\<rparr>"
    by (rule umtp_session_set_ok [OF S1(2) l1 y(2) [of ?n] y(1), where t = "rq_timeout y" and u = "rq_data y" and dst = "rq_dest y"])
  have ids: "ids S1 ! i = ?n" "ids S2 ! i = ?n" using i(1) len S1(3) S2(3) by (simp_all add: T_def ids_def)
  then have "umtp_get_session ?n S1 = Some i" "umtp_get_session ?n S2 = Some i"
    using umtp_get_session_iff [OF S1(2), of ?n i] umtp_get_session_iff [OF S2(2), of ?n i] nz i(1) by simp_all
  then have k: "k1 = i" "k2 = i" using S1(4) S2(4) by simp_all
  have "length (sessions S1) = 255" using S1(2) by (simp add: sess_wf_def)
  then have "session_id (sessions S1 ! i) = ?n" using slot_id [of S1 i] ids(1) i(1) by simp
  then have y_slot: "holds y ?n (sessions S2 ! i)" using S2(6) s2 y(2) [of ?n] by (simp add: holds_def k)
  have others: "sessions S2 ! j = sessions S ! j" if "j \<noteq> i" for j
    using that S2(5) S1(5) by (simp add: k T_def)
  have c: "(alone x)\<^sup>*\<^sup>* (Store i, S\<lparr>next_session_id := n\<rparr>) (Count ?n, T1)"
    using alone_stores [of "S\<lparr>next_session_id := n\<rparr>" i x] len i(1) by (simp add: T1_def)
  have d: "(alone y)\<^sup>*\<^sup>* (Store i, T1) (Count ?n, T1)"
    using alone_stores [of T1 i y] len i(1) by (simp add: T1_def)
  have e: "(alone x)\<^sup>*\<^sup>* (Count ?n, T1) (Got ?n, T1\<lparr>next_session_id := n + 1\<rparr>)"
    by (rule alone_one [OF _ rtranclp.rtrancl_refl]) (use n(2,3) pos assms(2) in \<open>simp add: T1_def incr_session_id_def\<close>)
  have f: "(alone y)\<^sup>*\<^sup>* (Count ?n, T1\<lparr>next_session_id := n + 1\<rparr>) (Got ?n, T)"
    by (rule alone_one [OF _ rtranclp.rtrancl_refl]) (use n(2,3) pos assms(2) in \<open>simp add: T1_def T_def incr_session_id_def\<close>)
  have lens: "length (sessions T) = 255" "length (sessions S1) = 255" using wf(1) S1(2) by (simp_all add: sess_wf_def)
  show ?thesis
    by (rule that [OF c d e f alone_set [OF lens(1) nz S1(1)] alone_set [OF lens(2) nz S2(1)]])
      (use S1(3) S2(2,3) wf(2) y_slot others in \<open>simp_all add: live_def\<close>)
qed

lemma two_to_store:
  assumes "sess_wf S" and "0 \<in> set (ids S)" and "next_session_id S + 256 < INT_MAX"
  obtains i n where "(alone x)\<^sup>*\<^sup>* (Check 0, S) (Store i, S\<lparr>next_session_id := n\<rparr>)"
    and "(alone y)\<^sup>*\<^sup>* (Check 0, S\<lparr>next_session_id := n\<rparr>) (Store i, S\<lparr>next_session_id := n\<rparr>)"
    and "i < 255" and "ids S ! i = 0" and "\<forall>j < i. ids S ! j \<noteq> 0" and "word_of_int n \<notin> set (ids S)"
    and "next_session_id S \<le> n" and "n \<le> next_session_id S + 255"
proof -
  have len: "length (sessions S) = 255" and pos: "0 < next_session_id S" using assms(1) by (simp_all add: sess_wf_def)
  obtain i where i: "i < 255" "ids S ! i = 0" "\<forall>j < i. ids S ! j \<noteq> 0" by (rule first_slot [OF len assms(2)])
  obtain n where n: "(alone x)\<^sup>*\<^sup>* (Check 0, S) (Store i, S\<lparr>next_session_id := n\<rparr>)" "word_of_int n \<notin> set (ids S)"
    "next_session_id S \<le> n" "n \<le> next_session_id S + 255"
    by (rule alone_to_store [OF assms(1-3) i])
  let ?S = "S\<lparr>next_session_id := n\<rparr>"
  have ids: "ids ?S = ids S" by (simp add: ids_def)
  have 1: "(alone y)\<^sup>*\<^sup>* (Check 0, ?S) (Check i, ?S)" by (rule alone_search(3)) (use len i ids in simp_all)
  have 2: "(alone y)\<^sup>*\<^sup>* (Check i, ?S) (Loop, ?S)" by (rule alone_one) (use len i slot_id [OF len i(1)] in auto)
  have 3: "(alone y)\<^sup>*\<^sup>* (Loop, ?S) (Store i, ?S)" by (rule alone_found) (use len n(2) i ids in simp_all)
  have "(alone y)\<^sup>*\<^sup>* (Check 0, ?S) (Store i, ?S)" using 1 2 3 by (meson rtranclp_trans)
  then show ?thesis using that n i by blast
qed

text \<open>C16. Two submitters need one. On any table with a free slot, two threads that submit confirmed requests \<open>x\<close> and \<open>y\<close>, with nothing
  else running, can come to a state in which both have been given the same number at the same time. Both
  submissions then end normally, but one session was added: its slot holds the request \<open>y\<close>, and every other
  slot is as it was before, so the request \<open>x\<close> is stored nowhere and never sent again. Clearing that one
  session, as the answer to either request does, leaves none of the two.\<close>

theorem two_submitters_share:
  fixes r :: "('t, 'u, 'w) threads"
  assumes "threads_init r" and "0 \<in> set (ids (tab r))" and "next_session_id (tab r) + 256 < INT_MAX"
    and "unat (rq_len x) \<le> MAX_PDU" and "\<And>k. unat (rq_len x) \<le> length (rq_pdu x k)"
    and "unat (rq_len y) \<le> MAX_PDU" and "\<And>k. unat (rq_len y) \<le> length (rq_pdu y k)"
  shows "\<exists>r1 r2 sid i. (submit_step {0, 1})\<^sup>*\<^sup>* r r1 \<and> phase r1 0 = Got sid \<and> phase r1 1 = Got sid \<and> sid \<noteq> 0
    \<and> (submit_step {0, 1})\<^sup>*\<^sup>* r1 r2 \<and> phase r2 0 = Done \<and> phase r2 1 = Done
    \<and> rq r1 0 = x \<and> rq r2 0 = x \<and> rq r1 1 = y \<and> rq r2 1 = y
    \<and> sid \<notin> live (tab r) \<and> live (tab r2) = insert sid (live (tab r))
    \<and> i < 255 \<and> holds y sid (sessions (tab r2) ! i) \<and> (\<forall>j. j \<noteq> i \<longrightarrow> sessions (tab r2) ! j = sessions (tab r) ! j)
    \<and> (\<exists>S. umtp_session_clear sid (tab r2) = Inr S \<and> live S = live (tab r))"
proof -
  let ?S = "tab r"
  have wf: "sess_wf ?S" and idle: "phase r i = Done" for i using assms(1) by (simp_all add: threads_init_def)
  obtain i n where s: "(alone x)\<^sup>*\<^sup>* (Check 0, ?S) (Store i, ?S\<lparr>next_session_id := n\<rparr>)"
    "(alone y)\<^sup>*\<^sup>* (Check 0, ?S\<lparr>next_session_id := n\<rparr>) (Store i, ?S\<lparr>next_session_id := n\<rparr>)"
    and i: "i < 255" "ids ?S ! i = 0" "\<forall>j < i. ids ?S ! j \<noteq> 0" and n: "word_of_int n \<notin> set (ids ?S)"
      "next_session_id ?S \<le> n" "n \<le> next_session_id ?S + 255"
    by (rule two_to_store [OF wf assms(2,3)])
  let ?n = "word_of_int n :: u8"
  obtain T1 T S1 S2 where t: "(alone x)\<^sup>*\<^sup>* (Store i, ?S\<lparr>next_session_id := n\<rparr>) (Count ?n, T1)"
    "(alone y)\<^sup>*\<^sup>* (Store i, T1) (Count ?n, T1)" "(alone x)\<^sup>*\<^sup>* (Count ?n, T1) (Got ?n, T1\<lparr>next_session_id := n + 1\<rparr>)"
    "(alone y)\<^sup>*\<^sup>* (Count ?n, T1\<lparr>next_session_id := n + 1\<rparr>) (Got ?n, T)"
    "(alone x)\<^sup>*\<^sup>* (Got ?n, T) (Done, S1)" "(alone y)\<^sup>*\<^sup>* (Got ?n, S1) (Done, S2)"
    and S2: "live S2 = insert ?n (live ?S)" "sess_wf S2" "holds y ?n (sessions S2 ! i)" "\<forall>j. j \<noteq> i \<longrightarrow> sessions S2 ! j = sessions ?S ! j"
    by (rule two_stores [OF wf assms(3) i n assms(4-7)])
  define r0 where "r0 = r\<lparr>phase := (phase r)(0 := Check 0, 1 := Check 0), rq := (rq r)(0 := x, 1 := y)\<rparr>"
  define at where "at S p q = r0\<lparr>tab := S, phase := (phase r0)(0 := p, 1 := q)\<rparr>" for S p q
  note lift = alone_submits [where I = "{0, 1}"]
  have first: "(submit_step {0, 1})\<^sup>*\<^sup>* (at S p q) (at S' p' q)" if "(alone x)\<^sup>*\<^sup>* (p, S) (p', S')" for S p q S' p'
    using lift [OF that, of 0 "at S p q"] by (simp add: at_def r0_def fun_upd_twist)
  have second: "(submit_step {0, 1})\<^sup>*\<^sup>* (at S p q) (at S' p q')" if "(alone y)\<^sup>*\<^sup>* (q, S) (q', S')" for S p q S' q'
    using lift [OF that, of 1 "at S p q"] by (simp add: at_def r0_def)
  have "submit_step {0, 1} r (r\<lparr>phase := (phase r)(0 := Check 0), rq := (rq r)(0 := x)\<rparr>)"
    by (rule only_start) (simp_all add: idle)
  moreover have "submit_step {0, 1} (r\<lparr>phase := (phase r)(0 := Check 0), rq := (rq r)(0 := x)\<rparr>) r0"
    using only_start [of 1 "{0, 1}" "r\<lparr>phase := (phase r)(0 := Check 0), rq := (rq r)(0 := x)\<rparr>" y] by (simp add: idle r0_def)
  moreover have "r0 = at ?S (Check 0) (Check 0)" by (cases r) (simp add: r0_def at_def fun_upd_idem fun_upd_twist)
  ultimately have "(submit_step {0, 1})\<^sup>*\<^sup>* r (at ?S (Check 0) (Check 0))" by (metis r_into_rtranclp rtranclp.rtrancl_into_rtrancl)
  also note first [OF s(1)]
  also note second [OF s(2)]
  also note first [OF t(1)]
  also note second [OF t(2)]
  also note first [OF t(3)]
  also note second [OF t(4)]
  finally have both: "(submit_step {0, 1})\<^sup>*\<^sup>* r (at T (Got ?n) (Got ?n))" .
  note first [OF t(5)]
  also note second [OF t(6)]
  finally have ends: "(submit_step {0, 1})\<^sup>*\<^sup>* (at T (Got ?n) (Got ?n)) (at S2 Done Done)" .
  have new: "?n \<notin> live ?S" "?n \<noteq> 0" using n(1) assms(2) by (auto simp: live_def)
  obtain S where "umtp_session_clear ?n S2 = Inr S" "live S = live S2 - {?n}"
    by (rule umtp_session_clear_ok [OF S2(2), of ?n])
  then have clear: "\<exists>S. umtp_session_clear ?n S2 = Inr S \<and> live S = live ?S" using S2(1) new(1) by auto
  show ?thesis
    using both ends new S2(1,3,4) i(1) clear
    by (intro exI [of _ "at T (Got ?n) (Got ?n)"] exI [of _ "at S2 Done Done"] exI [of _ ?n] exI [of _ i]) (simp add: at_def r0_def)
qed

text \<open>Both requests have four bytes; the second one is what is left, and the steps are steps of all threads.\<close>

theorem two_submitters_share_witness:
  "\<exists>r1 r2 sid i. (table_step {0, 1} ex_count ex_count)\<^sup>*\<^sup>* ex_threads r1 \<and> phase r1 0 = Got sid \<and> phase r1 1 = Got sid
     \<and> (submit_step {0, 1})\<^sup>*\<^sup>* r1 r2 \<and> phase r2 0 = Done \<and> phase r2 1 = Done \<and> live (tab r2) = {sid}
     \<and> take 4 (s_pdu (sessions (tab r2) ! i)) = [1, 0, 2, sid]"
proof -
  have x: "unat (rq_len (ex_request k)) \<le> MAX_PDU" "unat (rq_len (ex_request k)) \<le> length (rq_pdu (ex_request k) j)" for k j
    by (simp_all add: ex_request_def)
  obtain r1 r2 sid i where r: "(submit_step {0, 1})\<^sup>*\<^sup>* ex_threads r1" "phase r1 0 = Got sid" "phase r1 1 = Got sid"
    "(submit_step {0, 1})\<^sup>*\<^sup>* r1 r2" "phase r2 0 = Done" "phase r2 1 = Done" "live (tab r2) = insert sid (live (tab ex_threads))"
    "holds (ex_request 2) sid (sessions (tab r2) ! i)"
    using two_submitters_share [where x = "ex_request 1" and y = "ex_request 2", OF ex_threads_facts(1-3) x(1) x(2) x(1) x(2)] by metis
  have "take 4 (s_pdu (sessions (tab r2) ! i)) = [1, 0, 2, sid]" using r(8) by (simp add: holds_def ex_request_def)
  moreover have "live (tab r2) = {sid}" using r(7) by (simp add: ex_threads_facts)
  ultimately show ?thesis using submits_table [OF r(1)] r(2-6) by blast
qed

lemma alone_first_write:
  assumes "sess_wf S" and "0 \<in> set (ids S)" and "next_session_id S + 256 < INT_MAX"
  obtains i n T where "(alone x)\<^sup>*\<^sup>* (Check 0, S) (Write i (word_of_int n) 1, T)" and "i < 255" and "ids S ! i = 0"
    and "word_of_int n \<notin> set (ids S)" and "T = S\<lparr>next_session_id := n + 1, sessions := (sessions S)[i := (sessions S ! i)\<lparr>session_id := word_of_int n,
       timer := umtp_apdu_timeout S, waiting := True\<rparr>]\<rparr>"
proof -
  have len: "length (sessions S) = 255" and pos: "0 < next_session_id S" using assms(1) by (simp_all add: sess_wf_def)
  obtain i where i: "i < 255" "ids S ! i = 0" "\<forall>j < i. ids S ! j \<noteq> 0" by (rule first_slot [OF len assms(2)])
  obtain n where n: "(alone x)\<^sup>*\<^sup>* (Check 0, S) (Store i, S\<lparr>next_session_id := n\<rparr>)" "word_of_int n \<notin> set (ids S)"
    "next_session_id S \<le> n" "n \<le> next_session_id S + 255"
    by (rule alone_to_store [OF assms i])
  let ?n = "word_of_int n :: u8"
  let ?T = "S\<lparr>next_session_id := n + 1, sessions := (sessions S)[i := (sessions S ! i)\<lparr>session_id := ?n, timer := umtp_apdu_timeout S, waiting := True\<rparr>]\<rparr>"
  have nz: "?n \<noteq> 0" using n(2) assms(2) by auto
  have li: "length (ids S) = 255" using len by (simp add: ids_def)
  have C: "length (sessions (claimed i n S)) = 255" "ids (claimed i n S) = (ids S)[i := ?n]"
    using len by (simp_all add: claimed_def ids_def map_update)
  have "ids S ! j \<noteq> ?n" if "j < i" for j
    using n(2) nth_mem [of j "ids S"] that i(1) unfolding li by (metis order.strict_trans)
  then have "\<forall>j < i. ids (claimed i n S) ! j \<noteq> ?n" by (simp add: C(2))
  then have find: "(alone x)\<^sup>*\<^sup>* (Find ?n 0, claimed i n S) (Find ?n i, claimed i n S)"
    using alone_search(2) [OF C(1), of i ?n x] i(1) by simp
  have "session_id (sessions (claimed i n S) ! i) = ?n" using len i(1) by (simp add: claimed_def)
  then have "(alone x)\<^sup>*\<^sup>* (Find ?n i, claimed i n S) (Write i ?n 0, claimed i n S)"
    by (intro alone_one [OF _ rtranclp.rtrancl_refl]) (use C(1) i(1) in simp)
  moreover have "(alone x)\<^sup>*\<^sup>* (Write i ?n 0, claimed i n S) (Write i ?n 1, ?T)"
    by (rule alone_one [OF _ rtranclp.rtrancl_refl]) (use len i(1) in \<open>simp add: set_write_def claimed_def\<close>)
  moreover have "(alone x)\<^sup>*\<^sup>* (Got ?n, claimed i n S) (Find ?n 0, claimed i n S)"
    by (rule alone_one [OF _ rtranclp.rtrancl_refl]) (simp add: nz)
  moreover have "(alone x)\<^sup>*\<^sup>* (Store i, S\<lparr>next_session_id := n\<rparr>) (Got ?n, claimed i n S)"
    by (rule alone_claim [OF len i(1)]) (use n(3,4) pos assms(3) in simp_all)
  ultimately have "(alone x)\<^sup>*\<^sup>* (Check 0, S) (Write i ?n 1, ?T)" using n(1) find by (meson rtranclp_trans)
  then show ?thesis by (rule that) (use i n(2) in simp_all)
qed

text \<open>C17. The first member that a submission sets is the one that makes the protocol task look at the slot. On any table with a
  free slot, a single submitter reaches a state in which \<open>waiting\<close> is set and the rest of the slot is what the
  session before left there. If the task then sees an elapsed time of at least the timeout, it sends the
  old request to the old destination again, or, when the old retries are used up, calls the old timeout
  function and frees the slot of the new request.\<close>

theorem stale_request_sent:
  fixes r :: "('t, 'u, 'w) threads"
  assumes "threads_init r" and "0 \<in> set (ids (tab r))" and "next_session_id (tab r) + 256 < INT_MAX"
    and "umtp_apdu_timeout (tab r) \<le> ucast (ms :: u16)"
  shows "\<exists>r' sid i. (table_step {0} g c)\<^sup>*\<^sup>* r r' \<and> phase r' 0 = Write i sid 1 \<and> rq r' 0 = x \<and> tworld r' = tworld r
    \<and> sid \<in> live (tab r') \<and> i < 255 \<and> ids (tab r) ! i = 0
    \<and> (let s = sessions (tab r) ! i in
        if retry s < umtp_apdu_retry (tab r)
        then \<forall>w. g (s_data s) (s_dest s) (s_pdu s) (uint (s_pdu_len s)) (tworld r) = Inr w \<longrightarrow>
          (\<exists>r''. table_step {0} g c r' r'' \<and> tworld r'' = w \<and> sid \<in> live (tab r''))
        else \<forall>w. (case s_timeout s of None \<Rightarrow> Inr (tworld r)
            | Some t \<Rightarrow> c t (s_dest s) (s_pdu s) (uint (s_pdu_len s)) (tworld r)) = Inr w \<longrightarrow>
          (\<exists>r''. table_step {0} g c r' r'' \<and> tworld r'' = w \<and> sid \<notin> live (tab r'')))"
proof -
  let ?S = "tab r"
  have wf: "sess_wf ?S" and idle: "phase r 0 = Done" using assms(1) by (simp_all add: threads_init_def)
  obtain i n T where T: "(alone x)\<^sup>*\<^sup>* (Check 0, ?S) (Write i (word_of_int n) 1, T)" "i < 255" "ids ?S ! i = 0"
    "word_of_int n \<notin> set (ids ?S)" and T_def: "T = ?S\<lparr>next_session_id := n + 1,
       sessions := (sessions ?S)[i := (sessions ?S ! i)\<lparr>session_id := word_of_int n, timer := umtp_apdu_timeout ?S, waiting := True\<rparr>]\<rparr>"
    by (rule alone_first_write [OF wf assms(2,3)])
  let ?s = "sessions ?S ! i" and ?n = "word_of_int n :: u8"
  have len: "length (sessions ?S) = 255" using wf by (simp add: sess_wf_def)
  define r' where "r' = r\<lparr>rq := (rq r)(0 := x), tab := T, phase := (phase r)(0 := Write i ?n 1)\<rparr>"
  have "table_step {0} g c r (r\<lparr>phase := (phase r)(0 := Check 0), rq := (rq r)(0 := x)\<rparr>)"
    by (rule start) (simp_all add: idle)
  also have "(table_step {0} g c)\<^sup>*\<^sup>* \<dots> r'"
    using alone_threads [OF T(1), of 0 "{0}" "r\<lparr>phase := (phase r)(0 := Check 0), rq := (rq r)(0 := x)\<rparr>" g c] by (simp add: r'_def)
  finally have run: "(table_step {0} g c)\<^sup>*\<^sup>* r r'" .
  have slot: "sessions T ! i = ?s\<lparr>session_id := ?n, timer := umtp_apdu_timeout ?S, waiting := True\<rparr>" "i < length (sessions T)"
    using T(2) len by (simp_all add: T_def)
  have ids: "ids T = (ids ?S)[i := ?n]" "length (ids ?S) = 255" using len by (simp_all add: T_def ids_def map_update)
  have zero: "0 \<in> set (ids ?S)" by (rule assms(2))
  then have nz: "?n \<noteq> 0" using T(4) by auto
  have in_live: "?n \<in> live T" using ids T(2) nz by (simp add: live_def set_update_memI)
  have go: "table_step {0} g c r' (r'\<lparr>tab := T\<lparr>sessions := (sessions T)[i := tick_slot T ms (sessions T ! i)]\<rparr>, tworld := w\<rparr>)"
    if "tick_call g c T ms (sessions T ! i) (tworld r) = Inr w" for w
    by (rule tick [where ms = ms and k = i]) (use that in \<open>simp add: session_tick_quiet [OF slot(2)] r'_def\<close>)
  have due: "\<not> timer (sessions T ! i) > ucast ms" "waiting (sessions T ! i)" using assms(4) slot(1) by (simp_all add: not_less)
  have same: "umtp_apdu_retry T = umtp_apdu_retry ?S" by (simp add: T_def)
  have new_ids: "ids (T\<lparr>sessions := (sessions T)[i := s]\<rparr>) = (ids ?S)[i := session_id s]" for s
    using ids(1) T(2) by (simp add: ids_def map_update)
  show ?thesis
  proof (intro exI [of _ r'] exI [of _ ?n] exI [of _ i] conjI run)
    show "let s = ?s in if retry s < umtp_apdu_retry ?S
        then \<forall>w. g (s_data s) (s_dest s) (s_pdu s) (uint (s_pdu_len s)) (tworld r) = Inr w \<longrightarrow>
          (\<exists>r''. table_step {0} g c r' r'' \<and> tworld r'' = w \<and> ?n \<in> live (tab r''))
        else \<forall>w. (case s_timeout s of None \<Rightarrow> Inr (tworld r)
            | Some t \<Rightarrow> c t (s_dest s) (s_pdu s) (uint (s_pdu_len s)) (tworld r)) = Inr w \<longrightarrow>
          (\<exists>r''. table_step {0} g c r' r'' \<and> tworld r'' = w \<and> ?n \<notin> live (tab r''))"
    proof (cases "retry ?s < umtp_apdu_retry ?S")
      case True
      have tk: "tick_call g c T ms (sessions T ! i) (tworld r) = g (s_data ?s) (s_dest ?s) (s_pdu ?s) (uint (s_pdu_len ?s)) (tworld r)"
        "session_id (tick_slot T ms (sessions T ! i)) = ?n"
        using due True by (simp_all add: tick_call_def tick_slot_def same) (simp_all add: slot(1))
      have "?n \<in> live (T\<lparr>sessions := (sessions T)[i := tick_slot T ms (sessions T ! i)]\<rparr>)"
        using nz T(2) ids(2) by (simp add: live_def new_ids tk(2) set_update_memI)
      then show ?thesis using True go unfolding Let_def tk(1) by (auto intro!: exI)
    next
      case False
      have tk: "tick_call g c T ms (sessions T ! i) (tworld r) = (case s_timeout ?s of None \<Rightarrow> Inr (tworld r)
            | Some t \<Rightarrow> c t (s_dest ?s) (s_pdu ?s) (uint (s_pdu_len ?s)) (tworld r))"
        "session_id (tick_slot T ms (sessions T ! i)) = 0"
        using due False by (simp_all add: tick_call_def tick_slot_def same) (simp_all add: slot(1) cong: option.case_cong)
      have "(ids ?S)[i := 0] = ids ?S" using T(3) by (metis list_update_id)
      then have "?n \<notin> live (T\<lparr>sessions := (sessions T)[i := tick_slot T ms (sessions T ! i)]\<rparr>)"
        using T(4) by (simp add: live_def new_ids tk(2))
      then show ?thesis using False go unfolding Let_def tk(1) by (auto intro!: exI)
    qed
  qed (use T(2,3) in_live in \<open>simp_all add: r'_def\<close>)
qed

theorem stale_request_sent_witness:
  "\<exists>r' r'' sid. (table_step {0} ex_count ex_count)\<^sup>*\<^sup>* ex_threads r' \<and> table_step {0} ex_count ex_count r' r'' \<and> tworld r'' = 1
     \<and> sid \<in> live (tab r'')"
proof -
  have "umtp_apdu_timeout (tab ex_threads) \<le> ucast (3000 :: u16)" by (simp add: ex_threads_facts ex_sess_def)
  from stale_request_sent [OF ex_threads_facts(1-3) this, of ex_count ex_count "ex_request 1"]
  obtain r' sid i where
    b: "let s = sessions ex_sess ! i in
        if retry s < umtp_apdu_retry ex_sess
        then \<forall>w. Inr (tworld ex_threads + 1) = (Inr w :: nat res) \<longrightarrow>
          (\<exists>r''. table_step {0} ex_count ex_count r' r'' \<and> tworld r'' = w \<and> sid \<in> live (tab r''))
        else \<forall>w. (case s_timeout s of None \<Rightarrow> Inr (tworld ex_threads) | Some t \<Rightarrow> Inr (tworld ex_threads + 1)) = (Inr w :: nat res) \<longrightarrow>
          (\<exists>r''. table_step {0} ex_count ex_count r' r'' \<and> tworld r'' = w \<and> sid \<notin> live (tab r''))"
    and reach: "(table_step {0} ex_count ex_count)\<^sup>*\<^sup>* ex_threads r'" and "i < 255"
    unfolding ex_threads_facts(5) by blast
  then have "retry (sessions ex_sess ! i) < umtp_apdu_retry ex_sess" by (simp add: ex_sess_def ex_blank_def)
  then show ?thesis using b reach by (auto simp: ex_threads_facts)
qed

end
