(* ===== verification/Npdu.thy ===== *)
theory Npdu
  imports Datalink
begin

text \<open>
  The network layer of \<open>core/npdu.c\<close> and \<open>include/npdu.h\<close>: one header byte, the protocol version, in
  front of the application layer's bytes. (\<open>npdu_handler\<close>, which hands a received message on to
  \<open>apdu_handler\<close>, is in \<open>Apdu\<close>, after that function.)

  \<open>npdu_send\<close> uses the data link through its \<open>send_data\<close> pointer only; the locale \<open>transport\<close> states
  what it needs of it, and is interpreted on \<open>dludp_send_data\<close>.
\<close>

section \<open>Encoding and sending\<close>

abbreviation (input) FTTP_PROTOCOL_VERSION :: u8 where "FTTP_PROTOCOL_VERSION \<equiv> 0x01"

record umtp_npdu =
  protocol_version :: u8

text \<open>The arguments are pointers; the result is the return value and \<open>*npdu_data\<close>.\<close>

definition npdu_decode :: "u8 list option \<Rightarrow> umtp_npdu option \<Rightarrow> (int \<times> umtp_npdu option) res" where
  "npdu_decode npdu npdu_data =
     (case npdu of
        None \<Rightarrow> Inr (0, npdu_data)
      | Some bs \<Rightarrow>
          (case npdu_data of
             None \<Rightarrow> Inr (0, None)
           | Some d \<Rightarrow> bindE (arr_get bs 0) (\<lambda>v. Inr (1, Some (d\<lparr>protocol_version := v\<rparr>)))))"

definition encode_npdu :: "u8 list option \<Rightarrow> (u16 \<times> u8 list option) res" where
  "encode_npdu npdu =
     (case npdu of
        None \<Rightarrow> Inr (0, None)
      | Some bs \<Rightarrow> bindE (arr_set bs 0 FTTP_PROTOCOL_VERSION) (\<lambda>bs'. Inr (1, Some bs')))"

text \<open>\<open>dl\<close> is \<open>umtp->dl->send_data\<close>, or \<open>None\<close> where \<open>umtp->dl\<close> is NULL.\<close>

type_synonym 'w send_data = "umtp_addr \<Rightarrow> u8 list \<Rightarrow> int \<Rightarrow> 'w \<Rightarrow> (int \<times> 'w) res"

definition npdu_send ::
  "'w send_data option \<Rightarrow> umtp_addr \<Rightarrow> u8 list option \<Rightarrow> int \<Rightarrow> 'w \<Rightarrow> (int \<times> 'w) res"
where
  "npdu_send dl dst data len w =
     (case data of
        None \<Rightarrow> Inr (- EINVAL, w)
      | Some bs \<Rightarrow>
          if len \<le> 0 then Inr (- EINVAL, w)
          else bindE (encode_npdu (Some (replicate MAX_NPDU 0))) (\<lambda>(n, tmp).
            case tmp of
              None \<Rightarrow> Inl Bad_pointer
            | Some tmp1 \<Rightarrow>
                bindE (arr_read bs 0 len) (\<lambda>xs.
                bindE (arr_write tmp1 (unat n) xs) (\<lambda>tmp2.
                case dl of
                  Some send_data \<Rightarrow> send_data dst tmp2 (uint n + len) w
                | None \<Rightarrow> Inr (- EINVAL, w)))))"

section \<open>What a data link promises\<close>

text \<open>
  \<open>send\<close> takes an array and a length; for an acceptable destination and at most \<open>mtu\<close> bytes it sends
  exactly the first \<open>len\<close> bytes, with the effect \<open>emit\<close>.
\<close>

locale transport =
  fixes mtu :: nat
    and acceptable :: "'a \<Rightarrow> bool"
    and emit :: "'a \<Rightarrow> u8 list \<Rightarrow> 'w \<Rightarrow> int \<times> 'w"
    and send :: "'a \<Rightarrow> u8 list \<Rightarrow> int \<Rightarrow> 'w \<Rightarrow> (int \<times> 'w) res"
  assumes send_law: "acceptable a \<Longrightarrow> length bs \<le> mtu \<Longrightarrow> send a (bs @ rest) (int (length bs)) w = Inr (emit a bs w)"
    and mtu_npdu: "MAX_NPDU \<le> mtu"
begin

lemma npdu_send_emits:
  assumes "acceptable a" and "0 < len" and "len \<le> int MAX_APDU" and "nat len \<le> length bs"
  shows "npdu_send (Some (\<lambda>_. send a)) dst (Some bs) len w
    = Inr (emit a (FTTP_PROTOCOL_VERSION # take (nat len) bs) w)"
proof -
  let ?xs = "take (nat len) bs"
  have rd: "arr_read bs 0 len = Inr ?xs" using assms(2,4) by (simp add: arr_read_def)
  have le: "length ?xs = nat len" "nat len \<le> 1024" using assms(3,4) by simp_all
  have wr: "arr_write ((replicate 1025 0)[0 := FTTP_PROTOCOL_VERSION]) 1 ?xs
      = Inr ((FTTP_PROTOCOL_VERSION # ?xs) @ drop (Suc (nat len)) (replicate 1025 0))"
    using le by (simp add: arr_write_def take_update_swap take_Suc_conv_app_nth min_def)
  have len: "int (length (FTTP_PROTOCOL_VERSION # ?xs)) = 1 + len" using assms(2) le(1) by simp
  have "send a ((FTTP_PROTOCOL_VERSION # ?xs) @ drop (Suc (nat len)) (replicate 1025 0)) (1 + len) w
      = Inr (emit a (FTTP_PROTOCOL_VERSION # ?xs) w)"
    unfolding len [symmetric] using le mtu_npdu by (intro send_law [OF assms(1)]) simp
  then show ?thesis
    using assms(2) rd wr by (simp add: npdu_send_def encode_npdu_def)
qed

end

text \<open>\<open>dludp_send_data\<close> without encryption: a destination is the interface, the socket and the address.\<close>

type_synonym 'w udp_dest = "'w umtp_dl \<times> 'w sendto_fun \<times> umtp_addr"

definition udp_acceptable :: "'w udp_dest \<Rightarrow> bool" where
  "udp_acceptable a = (case a of (dl, sendto, dst) \<Rightarrow> 0 \<le> socket dl \<and> dl_encrypt dl = None \<and> addr_wf dst)"

definition udp_emit :: "'w udp_dest \<Rightarrow> u8 list \<Rightarrow> 'w \<Rightarrow> int \<times> 'w" where
  "udp_emit a bs w =
     (case a of (dl, sendto, dst) \<Rightarrow>
        case sendto (socket dl) (UMTP_SIGNATURE # bs) (fst (dest_of dl dst)) (snd (dest_of dl dst)) w of
          (n, e, w') \<Rightarrow> (if n \<noteq> int (length bs) + 1 then - e else 0, w'))"

definition udp_send :: "'w udp_dest \<Rightarrow> u8 list \<Rightarrow> int \<Rightarrow> 'w \<Rightarrow> (int \<times> 'w) res" where
  "udp_send a bs len w = (case a of (dl, sendto, dst) \<Rightarrow> dludp_send_data sendto dl dst bs len w)"

lemma dludp_send_prefix:
  "dl_encrypt dl = None \<Longrightarrow>
   dludp_send_data sendto dl dst (bs @ rest) (int (length bs)) w = dludp_send_data sendto dl dst bs (int (length bs)) w"
  by (simp add: dludp_send_data_def arr_read_def)

lemma udp_send_law:
  assumes "udp_acceptable a" and "length bs \<le> MAX_PDU - 1"
  shows "udp_send a (bs @ rest) (int (length bs)) w = Inr (udp_emit a bs w)"
proof -
  obtain dl sendto dst where a: "a = (dl, sendto, dst)" by (cases a)
  have "dludp_send_data sendto dl dst (bs @ rest) (int (length bs)) w = dludp_send_data sendto dl dst bs (int (length bs)) w"
    using assms(1) by (intro dludp_send_prefix) (simp add: udp_acceptable_def a)
  also have "\<dots> = Inr (udp_emit a bs w)"
    using assms dludp_send_plain [of dl dst bs sendto w]
    by (simp add: udp_acceptable_def udp_emit_def a split: prod.splits)
  finally show ?thesis by (simp add: udp_send_def a)
qed

interpretation udp: transport "MAX_PDU - 1" udp_acceptable udp_emit udp_send
  by unfold_locales (simp_all add: udp_send_law)

lemma npdu_send_udp:
  assumes "0 \<le> socket dl" and "dl_encrypt dl = None" and "addr_wf dst" and "nat len \<le> length bs"
    and "0 < len" and "len \<le> int MAX_APDU"
  shows "npdu_send (Some (dludp_send_data sendto dl)) dst (Some bs) len w =
      (case sendto (socket dl) (UMTP_SIGNATURE # FTTP_PROTOCOL_VERSION # take (nat len) bs)
           (fst (dest_of dl dst)) (snd (dest_of dl dst)) w of
         (n, e, w') \<Rightarrow> Inr (if n \<noteq> len + 2 then - e else 0, w'))"
proof -
  have acc: "udp_acceptable (dl, sendto, dst)" using assms(1-3) by (simp add: udp_acceptable_def)
  have "npdu_send (Some (dludp_send_data sendto dl)) dst (Some bs) len w
      = npdu_send (Some (\<lambda>_. udp_send (dl, sendto, dst))) dst (Some bs) len w"
    by (simp add: npdu_send_def udp_send_def)
  also have "\<dots> = Inr (udp_emit (dl, sendto, dst) (FTTP_PROTOCOL_VERSION # take (nat len) bs) w)"
    by (rule udp.npdu_send_emits [OF acc assms(5,6,4)])
  finally show ?thesis using assms(4,5) by (simp add: udp_emit_def split: prod.split)
qed

section \<open>Properties\<close>

text \<open>C27. Sending. For 1 to 1024 bytes \<open>npdu_send\<close> over the UDP data link puts one frame on the socket:
  the signature, the version byte and exactly the given bytes, and \<open>npdu_decode\<close> of what follows the
  signature gives back version and length of the header. NULL data, a length of 0 or less and a
  missing data link give \<open>-EINVAL\<close> and send nothing. The length has no upper check: more than 1024
  bytes overrun the local buffer.\<close>

theorem npdu_send_spec:
  assumes "0 \<le> socket dl" and "dl_encrypt dl = None" and "addr_wf dst" and "nat len \<le> length bs"
  shows "npdu_send (Some (dludp_send_data sendto dl)) dst (Some bs) len w =
      (if len \<le> 0 then Inr (- EINVAL, w)
       else if int MAX_APDU < len then Inl Out_of_bounds
       else case sendto (socket dl) (UMTP_SIGNATURE # FTTP_PROTOCOL_VERSION # take (nat len) bs)
           (fst (dest_of dl dst)) (snd (dest_of dl dst)) w of
         (n, e, w') \<Rightarrow> Inr (if n \<noteq> len + 2 then - e else 0, w'))
    \<and> npdu_decode (Some (FTTP_PROTOCOL_VERSION # take (nat len) bs)) (Some d)
      = Inr (1, Some (d\<lparr>protocol_version := FTTP_PROTOCOL_VERSION\<rparr>))
    \<and> npdu_send (Some (dludp_send_data sendto dl)) dst None len w = Inr (- EINVAL, w)
    \<and> (len \<le> int MAX_APDU \<longrightarrow> npdu_send None dst (Some bs) len w = Inr (- EINVAL, w))"
proof -
  have "npdu_send (Some (dludp_send_data sendto dl)) dst (Some bs) len w =
      (case sendto (socket dl) (UMTP_SIGNATURE # FTTP_PROTOCOL_VERSION # take (nat len) bs)
           (fst (dest_of dl dst)) (snd (dest_of dl dst)) w of
         (n, e, w') \<Rightarrow> Inr (if n \<noteq> len + 2 then - e else 0, w'))"
    if "0 < len" "len \<le> int MAX_APDU"
    by (rule npdu_send_udp [OF assms that])
  moreover have "npdu_send (Some (dludp_send_data sendto dl)) dst (Some bs) len w = Inl Out_of_bounds"
    if "int MAX_APDU < len"
  proof -
    have "1024 < nat len" using that by simp
    then show ?thesis using that assms(4) by (simp add: npdu_send_def encode_npdu_def arr_read_def arr_write_def)
  qed
  moreover have "npdu_send None dst (Some bs) len w = Inr (- EINVAL, w)" if "len \<le> int MAX_APDU"
  proof -
    have "nat len \<le> 1024" using that by simp
    then show ?thesis using assms(4) by (simp add: npdu_send_def encode_npdu_def arr_read_def arr_write_def)
  qed
  ultimately show ?thesis by (auto simp: npdu_send_def npdu_decode_def)
qed

theorem npdu_send_spec_witness:
  "npdu_send (Some (dludp_send_data ex_sendto ex_dl)) ex_addr (Some [5, 6, 7]) 3 () = Inr (0, ())
   \<and> npdu_send (Some (dludp_send_data ex_sendto ex_dl)) ex_addr (Some []) 0 () = Inr (- EINVAL, ())"
  using npdu_send_spec [OF ex_dl_facts(1,2,4), of 3 "[5, 6, 7]" ex_sendto "()"]
    npdu_send_spec [OF ex_dl_facts(1,2,4), of 0 "[]" ex_sendto "()"]
  by (simp add: ex_sendto_def)

end
