(* ===== verification/Service.thy ===== *)
theory Service
  imports List_Head Session
begin

text \<open>
  The registry of services of \<open>core/service.c\<close> and \<open>include/service.h\<close>: an intrusive list of the
  callers' \<open>struct service_type\<close> objects, looked up by their identifier, and the four dispatchers
  that call the handlers of a service.

  A handler works on a world \<open>'w\<close>; it is not allowed to change the registry. A request handler gets
  the part of the answer buffer that \<open>sd.data\<close> points to, and gives back its new contents, the
  answer's length and, if it let \<open>sd.data\<close> point to a buffer of its own, that buffer. The session
  that a response or an error belongs to is handed over as the index of its slot.
\<close>

section \<open>State and operations\<close>

record service_data =
  sd_service_id :: int
  sd_data_len :: u32
  sd_data :: "u8 list option"   \<comment> \<open>\<open>None\<close>: still the answer buffer\<close>

type_synonym 'w req_fun =
  "umtp_addr \<Rightarrow> service_data \<Rightarrow> u8 list \<Rightarrow> u8 list \<Rightarrow> int \<Rightarrow> 'w \<Rightarrow> (int \<times> service_data \<times> u8 list \<times> 'w) res"

record 'w service_type =
  svc_id :: int
  svc_name :: "string option"
  req_handler :: "'w req_fun option"
  rsp_handler :: "(umtp_addr \<Rightarrow> nat option \<Rightarrow> u8 list \<Rightarrow> int \<Rightarrow> 'w \<Rightarrow> 'w res) option"
  error_handler :: "(umtp_addr \<Rightarrow> int \<Rightarrow> nat option \<Rightarrow> 'w \<Rightarrow> 'w res) option"
  timeout_handler :: "(umtp_addr \<Rightarrow> int \<Rightarrow> u8 list \<Rightarrow> int \<Rightarrow> 'w \<Rightarrow> 'w res) option"

datatype svc_node = Svc_head | Svc_list nat | Svc_nil

record 'w service_state =
  svc_links :: "svc_node links"
  svc_mem :: "nat \<rightharpoonup> 'w service_type"

definition service_get_body :: "'w service_state \<Rightarrow> int \<Rightarrow> svc_node \<Rightarrow> unit \<Rightarrow> (unit \<times> nat option) res" where
  "service_get_body S i pos s =
     (case pos of
        Svc_list a \<Rightarrow>
          (case svc_mem S a of
             None \<Rightarrow> Inl Bad_pointer
           | Some ty \<Rightarrow> Inr (s, if svc_id ty = i then Some a else None))
      | _ \<Rightarrow> Inl Bad_pointer)"

definition service_type_get :: "'w service_state \<Rightarrow> int \<Rightarrow> nat option res" where
  "service_type_get S i =
     bindE (list_for_each (svc_links S) Svc_head (service_get_body S i) ()) (\<lambda>(_, r). Inr r)"

definition service_type_register :: "'w service_state \<Rightarrow> nat option \<Rightarrow> (int \<times> 'w service_state) res" where
  "service_type_register S type =
     (case type of
        None \<Rightarrow> Inr (- EINVAL, S)
      | Some a \<Rightarrow>
          (case svc_mem S a of
             None \<Rightarrow> Inl Bad_pointer
           | Some ty \<Rightarrow>
               if req_handler ty = None then Inr (- EINVAL, S)
               else bindE (service_type_get S (svc_id ty)) (\<lambda>tmp.
                 if tmp \<noteq> None then Inr (- EEXIST, S)
                 else bindE (list_add (svc_links S) (Svc_list a) Svc_head) (\<lambda>h.
                   Inr (0, S\<lparr>svc_links := h\<rparr>)))))"

definition service_type_unregister :: "'w service_state \<Rightarrow> nat option \<Rightarrow> 'w service_state res" where
  "service_type_unregister S type =
     (case type of
        None \<Rightarrow> Inr S
      | Some a \<Rightarrow> bindE (list_del (svc_links S) (Svc_list a)) (\<lambda>h. Inr (S\<lparr>svc_links := h\<rparr>)))"

text \<open>The \<open>uint32_t\<close> length is passed on as an \<open>int\<close>.\<close>

definition service_handler ::
  "'w service_state \<Rightarrow> umtp_addr \<Rightarrow> service_data \<Rightarrow> u8 list \<Rightarrow> u8 list option \<Rightarrow> u32 \<Rightarrow> 'w
   \<Rightarrow> (int \<times> service_data \<times> u8 list \<times> 'w) res"
where
  "service_handler S src sd blk data data_len w =
     (case data of
        None \<Rightarrow> Inr (- EINVAL, sd, blk, w)
      | Some bs \<Rightarrow>
          if data_len = 0 then Inr (- EINVAL, sd, blk, w)
          else bindE (service_type_get S (sd_service_id sd)) (\<lambda>type.
            case type of
              None \<Rightarrow> Inr (- ENOENT, sd, blk, w)
            | Some a \<Rightarrow>
                (case svc_mem S a of
                   None \<Rightarrow> Inl Bad_pointer
                 | Some ty \<Rightarrow>
                     (case req_handler ty of
                        Some f \<Rightarrow> f src sd blk bs (sint data_len) w
                      | None \<Rightarrow> Inr (0, sd, blk, w)))))"

definition service_rsp_handler ::
  "'w service_state \<Rightarrow> umtp_addr \<Rightarrow> int \<Rightarrow> nat option \<Rightarrow> u8 list option \<Rightarrow> u32 \<Rightarrow> 'w \<Rightarrow> 'w res"
where
  "service_rsp_handler S src service_id session data data_len w =
     (case data of
        None \<Rightarrow> Inr w
      | Some bs \<Rightarrow>
          if data_len = 0 then Inr w
          else bindE (service_type_get S service_id) (\<lambda>type.
            case type of
              None \<Rightarrow> Inr w
            | Some a \<Rightarrow>
                (case svc_mem S a of
                   None \<Rightarrow> Inl Bad_pointer
                 | Some ty \<Rightarrow>
                     (case rsp_handler ty of
                        Some f \<Rightarrow> f src session bs (sint data_len) w
                      | None \<Rightarrow> Inr w))))"

definition service_error_handler ::
  "'w service_state \<Rightarrow> umtp_addr \<Rightarrow> int \<Rightarrow> int \<Rightarrow> nat option \<Rightarrow> 'w \<Rightarrow> 'w res"
where
  "service_error_handler S src service_id status session w =
     bindE (service_type_get S service_id) (\<lambda>type.
       case type of
         None \<Rightarrow> Inr w
       | Some a \<Rightarrow>
           (case svc_mem S a of
              None \<Rightarrow> Inl Bad_pointer
            | Some ty \<Rightarrow>
                (case error_handler ty of Some f \<Rightarrow> f src status session w | None \<Rightarrow> Inr w)))"

definition service_timeout_handler ::
  "'w service_state \<Rightarrow> umtp_addr \<Rightarrow> int \<Rightarrow> u8 list \<Rightarrow> int \<Rightarrow> 'w \<Rightarrow> 'w res"
where
  "service_timeout_handler S dst service_id data len w =
     bindE (service_type_get S service_id) (\<lambda>type.
       case type of
         None \<Rightarrow> Inr w
       | Some a \<Rightarrow>
           (case svc_mem S a of
              None \<Rightarrow> Inl Bad_pointer
            | Some ty \<Rightarrow>
                (case timeout_handler ty of Some f \<Rightarrow> f dst service_id data len w | None \<Rightarrow> Inr w)))"

section \<open>The registry as a map\<close>

text \<open>
  The contract of a registry: a partial map from keys to entries; \<open>fresh s v\<close> says that the entry's
  object can be linked in.
\<close>

locale registry =
  fixes good :: "'s \<Rightarrow> bool"
    and entries :: "'s \<Rightarrow> 'k \<rightharpoonup> 'v"
    and key :: "'s \<Rightarrow> 'v \<Rightarrow> 'k"
    and fresh :: "'s \<Rightarrow> 'v \<Rightarrow> bool"
    and get :: "'s \<Rightarrow> 'k \<Rightarrow> 'v option res"
    and add :: "'s \<Rightarrow> 'v \<Rightarrow> (int \<times> 's) res"
    and del :: "'s \<Rightarrow> 'v \<Rightarrow> 's res"
  assumes get_law: "good s \<Longrightarrow> get s k = Inr (entries s k)"
    and add_law: "good s \<Longrightarrow> fresh s v \<Longrightarrow> entries s (key s v) = None \<Longrightarrow>
      \<exists>s'. add s v = Inr (0, s') \<and> good s' \<and> entries s' = (entries s)(key s v \<mapsto> v) \<and> key s' = key s"
    and dup_law: "good s \<Longrightarrow> fresh s v \<Longrightarrow> entries s (key s v) \<noteq> None \<Longrightarrow> add s v = Inr (- EEXIST, s)"
    and del_law: "good s \<Longrightarrow> entries s (key s v) = Some v \<Longrightarrow>
      \<exists>s'. del s v = Inr s' \<and> good s' \<and> entries s' = (entries s)(key s v := None) \<and> key s' = key s"
begin

lemma add_get:
  assumes "good s" and "fresh s v" and "entries s (key s v) = None"
  shows "\<exists>s'. add s v = Inr (0, s') \<and> good s' \<and> get s' (key s v) = Inr (Some v)
    \<and> (\<forall>k. k \<noteq> key s v \<longrightarrow> get s' k = get s k)"
  using add_law [OF assms] get_law assms(1) by fastforce

lemma add_del:
  assumes "good s" and "fresh s v" and "entries s (key s v) = None"
  shows "\<exists>s1 s2. add s v = Inr (0, s1) \<and> del s1 v = Inr s2 \<and> good s2 \<and> entries s2 = entries s"
proof -
  obtain s1 where s1: "add s v = Inr (0, s1)" "good s1" "entries s1 = (entries s)(key s v \<mapsto> v)" "key s1 = key s"
    using add_law [OF assms] by blast
  then have "entries s1 (key s1 v) = Some v" by simp
  from del_law [OF s1(2) this] obtain s2 where "del s1 v = Inr s2" "good s2"
    "entries s2 = (entries s1)(key s1 v := None)" by blast
  then show ?thesis using s1 assms(3) by (auto simp: fun_eq_iff)
qed

lemma del_get:
  assumes "good s" and "entries s (key s v) = Some v"
  shows "\<exists>s'. del s v = Inr s' \<and> good s' \<and> get s' (key s v) = Inr None
    \<and> (\<forall>k. k \<noteq> key s v \<longrightarrow> get s' k = get s k)"
  using del_law [OF assms] get_law assms(1) by fastforce

end

text \<open>\<open>svc_order S xs\<close>: the registered services, most recent first.\<close>

definition svc_key :: "'w service_state \<Rightarrow> nat \<Rightarrow> int" where
  "svc_key S a = svc_id (the (svc_mem S a))"

definition svc_order :: "'w service_state \<Rightarrow> nat list \<Rightarrow> bool" where
  "svc_order S xs \<longleftrightarrow> dlist (svc_links S) Svc_head (map Svc_list xs)
     \<and> (\<forall>a \<in> set xs. \<exists>ty. svc_mem S a = Some ty \<and> req_handler ty \<noteq> None) \<and> distinct (map (svc_key S) xs)"

definition svc_entries :: "'w service_state \<Rightarrow> int \<rightharpoonup> nat" where
  "svc_entries S i = (case service_type_get S i of Inr r \<Rightarrow> r | Inl _ \<Rightarrow> None)"

definition svc_good :: "'w service_state \<Rightarrow> bool" where
  "svc_good S \<longleftrightarrow> (\<exists>xs. svc_order S xs)"

definition svc_fresh :: "'w service_state \<Rightarrow> nat \<Rightarrow> bool" where
  "svc_fresh S a \<longleftrightarrow> svc_links S (Svc_list a) \<noteq> None \<and> (\<exists>ty. svc_mem S a = Some ty \<and> req_handler ty \<noteq> None)"

lemma svc_key_links [simp]: "svc_key (S\<lparr>svc_links := h\<rparr>) = svc_key S"
  by (simp add: svc_key_def fun_eq_iff)

lemma service_type_get_find:
  assumes "svc_order S xs"
  shows "service_type_get S i = Inr (find (\<lambda>a. svc_key S a = i) xs)"
proof -
  have each: "each_until (service_get_body S i) (map Svc_list ys) () = Inr ((), find (\<lambda>a. svc_key S a = i) ys)"
    if "\<forall>a \<in> set ys. svc_mem S a \<noteq> None" for ys
    using that by (induction ys) (auto simp: svc_key_def service_get_body_def)
  have d: "dlist (svc_links S) Svc_head (map Svc_list xs)" and "\<forall>a \<in> set xs. svc_mem S a \<noteq> None"
    using assms by (auto simp: svc_order_def)
  then show ?thesis by (simp add: service_type_get_def list_for_each_dlist [OF d] each)
qed

lemma svc_entries_find: "svc_order S xs \<Longrightarrow> svc_entries S i = find (\<lambda>a. svc_key S a = i) xs"
  by (simp add: svc_entries_def service_type_get_find)

lemma svc_entries_Some:
  assumes "svc_order S xs"
  shows "svc_entries S i = Some a \<longleftrightarrow> a \<in> set xs \<and> svc_key S a = i"
proof -
  have "distinct (map (svc_key S) xs)" using assms by (simp add: svc_order_def)
  then have "find (\<lambda>a. svc_key S a = i) xs = Some a \<longleftrightarrow> a \<in> set xs \<and> svc_key S a = i"
    by (induction xs) auto
  then show ?thesis using assms by (simp add: svc_entries_find)
qed

lemma svc_register_ok:
  assumes "svc_order S xs" and "svc_fresh S a" and "svc_entries S (svc_key S a) = None"
  obtains S' where "service_type_register S (Some a) = Inr (0, S')" and "svc_order S' (a # xs)"
    and "svc_mem S' = svc_mem S"
proof -
  have a: "a \<notin> set xs" using assms(3) svc_entries_Some [OF assms(1), of "svc_key S a" a] by auto
  from assms(2) obtain ty where ty: "svc_mem S a = Some ty" "req_handler ty \<noteq> None" and l: "svc_links S (Svc_list a) \<noteq> None"
    by (auto simp: svc_fresh_def)
  have d: "dlist (svc_links S) Svc_head (map Svc_list xs)" using assms(1) by (simp add: svc_order_def)
  obtain h where h: "list_add (svc_links S) (Svc_list a) Svc_head = Inr h" "dlist h Svc_head (Svc_list a # map Svc_list xs)"
    by (rule dlist_add [OF d l]) (use a in auto)
  have "service_type_get S (svc_id ty) = Inr None"
    using assms(3) service_type_get_find [OF assms(1)] svc_entries_find [OF assms(1)] ty by (simp add: svc_key_def)
  then have "service_type_register S (Some a) = Inr (0, S\<lparr>svc_links := h\<rparr>)"
    using ty h(1) by (simp add: service_type_register_def)
  moreover have "svc_key S a \<notin> svc_key S ` set xs"
  proof
    assume "svc_key S a \<in> svc_key S ` set xs"
    then obtain b where "b \<in> set xs" "svc_key S b = svc_key S a" by auto
    then show False using svc_entries_Some [OF assms(1), of "svc_key S a" b] assms(3) by simp
  qed
  then have "svc_order (S\<lparr>svc_links := h\<rparr>) (a # xs)"
    using assms(1) ty h(2) by (simp add: svc_order_def svc_key_def)
  ultimately show ?thesis using that by simp
qed

lemma svc_unregister_ok:
  assumes "svc_order S xs" and "a \<in> set xs"
  obtains S' where "service_type_unregister S (Some a) = Inr S'" and "svc_order S' (remove1 a xs)"
    and "svc_mem S' = svc_mem S"
proof -
  from split_list [OF assms(2)] obtain ys zs where xs: "xs = ys @ a # zs" by blast
  have d: "dlist (svc_links S) Svc_head (map Svc_list ys @ Svc_list a # map Svc_list zs)"
    using assms(1) by (simp add: svc_order_def xs)
  then have "a \<notin> set ys" by (auto simp: dlist_def)
  then have rem: "remove1 a xs = ys @ zs" by (simp add: xs remove1_append)
  obtain h where h: "list_del (svc_links S) (Svc_list a) = Inr h" "dlist h Svc_head (map Svc_list ys @ map Svc_list zs)"
    by (rule dlist_del [OF d])
  have "svc_order (S\<lparr>svc_links := h\<rparr>) (ys @ zs)"
    using assms(1) h(2) by (auto simp: svc_order_def svc_key_def xs)
  then show ?thesis using that h(1) by (simp add: service_type_unregister_def rem)
qed

interpretation svc: registry svc_good svc_entries svc_key svc_fresh service_type_get
  "\<lambda>S a. service_type_register S (Some a)" "\<lambda>S a. service_type_unregister S (Some a)"
proof
  fix S :: "'a service_state" and i a
  assume "svc_good S"
  then obtain xs where o: "svc_order S xs" by (auto simp: svc_good_def)
  show "service_type_get S i = Inr (svc_entries S i)"
    using o by (simp add: service_type_get_find svc_entries_find)
  show "\<exists>S'. service_type_register S (Some a) = Inr (0, S') \<and> svc_good S'
      \<and> svc_entries S' = (svc_entries S)(svc_key S a \<mapsto> a) \<and> svc_key S' = svc_key S"
    if "svc_fresh S a" "svc_entries S (svc_key S a) = None"
  proof (rule svc_register_ok [OF o that])
    fix S' assume S': "service_type_register S (Some a) = Inr (0, S')" "svc_order S' (a # xs)" "svc_mem S' = svc_mem S"
    have key: "svc_key S' = svc_key S" by (simp add: svc_key_def fun_eq_iff S'(3))
    have "svc_entries S' = (svc_entries S)(svc_key S a \<mapsto> a)"
      by (auto simp: fun_eq_iff svc_entries_find [OF o] svc_entries_find [OF S'(2)] key)
    then show ?thesis using S' key by (auto simp: svc_good_def)
  qed
  show "service_type_register S (Some a) = Inr (- EEXIST, S)"
    if "svc_fresh S a" "svc_entries S (svc_key S a) \<noteq> None"
    using that service_type_get_find [OF o] svc_entries_find [OF o]
    by (auto simp: service_type_register_def svc_fresh_def svc_key_def)
  show "\<exists>S'. service_type_unregister S (Some a) = Inr S' \<and> svc_good S'
      \<and> svc_entries S' = (svc_entries S)(svc_key S a := None) \<and> svc_key S' = svc_key S"
    if "svc_entries S (svc_key S a) = Some a"
  proof -
    have a: "a \<in> set xs" using that svc_entries_Some [OF o] by auto
    show ?thesis
    proof (rule svc_unregister_ok [OF o a])
      fix S' assume S': "service_type_unregister S (Some a) = Inr S'" "svc_order S' (remove1 a xs)" "svc_mem S' = svc_mem S"
      have key: "svc_key S' = svc_key S" by (simp add: svc_key_def fun_eq_iff S'(3))
      have inj: "b \<in> set xs \<Longrightarrow> svc_key S b = svc_key S a \<Longrightarrow> b = a" for b
        using iffD2 [OF svc_entries_Some [OF o, of "svc_key S a" b]] that option.inject by metis
      have d: "distinct xs" using o by (simp add: svc_order_def distinct_map)
      have "svc_entries S' k = ((svc_entries S)(svc_key S a := None)) k" for k
      proof -
        have "svc_entries S' k = Some b \<longleftrightarrow> ((svc_entries S)(svc_key S a := None)) k = Some b" for b
          using svc_entries_Some [OF o, of k b] svc_entries_Some [OF S'(2), of k b] inj [of b] d
          by (auto simp: key)
        then show ?thesis by (rule option_eqI)
      qed
      then show ?thesis using S' key by (auto simp: svc_good_def)
    qed
  qed
qed

section \<open>Properties\<close>

definition ex_service :: "int \<Rightarrow> nat service_type" where
  "ex_service i = \<lparr>svc_id = i, svc_name = None,
     req_handler = Some (\<lambda>src sd blk bs n w. Inr (0, sd\<lparr>sd_data_len := 1\<rparr>, blk[0 := hd bs], w + 1)),
     rsp_handler = Some (\<lambda>src session bs n w. Inr (w + 10)), error_handler = None, timeout_handler = None\<rparr>"

text \<open>An empty registry, with the services 5 and 9 as zeroed list nodes.\<close>

definition ex_services :: "nat service_state" where
  "ex_services = \<lparr>svc_links = [Svc_head \<mapsto> \<lparr>lnext = Svc_head, lprev = Svc_head\<rparr>,
       Svc_list 0 \<mapsto> \<lparr>lnext = Svc_nil, lprev = Svc_nil\<rparr>, Svc_list 1 \<mapsto> \<lparr>lnext = Svc_nil, lprev = Svc_nil\<rparr>],
     svc_mem = [0 \<mapsto> ex_service 5, 1 \<mapsto> ex_service 9]\<rparr>"

lemma ex_services_facts: "svc_order ex_services []" "svc_good ex_services" "svc_fresh ex_services 0"
    "svc_entries ex_services i = None" "svc_key ex_services 0 = 5"
proof -
  show o: "svc_order ex_services []" by (simp add: svc_order_def ex_services_def dlist_def link_defs)
  then show "svc_good ex_services" "svc_entries ex_services i = None"
    by (auto simp: svc_good_def svc_entries_find)
  show "svc_fresh ex_services 0" "svc_key ex_services 0 = 5"
    by (simp_all add: svc_fresh_def ex_services_def svc_key_def ex_service_def)
qed

text \<open>C26. The registry is a finite map from identifiers to services. Registering a service with a request
  handler under an unused identifier succeeds with 0; lookups then find it under its identifier and
  everything else as before; registering it again gives \<open>-EEXIST\<close> and changes nothing; and
  unregistering it restores every lookup.\<close>

theorem service_registry_map:
  assumes "svc_good S" and "svc_fresh S a" and "svc_entries S (svc_key S a) = None"
  shows "\<exists>S1 S2. service_type_register S (Some a) = Inr (0, S1) \<and> svc_good S1
    \<and> service_type_get S1 (svc_key S a) = Inr (Some a)
    \<and> (\<forall>k. k \<noteq> svc_key S a \<longrightarrow> service_type_get S1 k = service_type_get S k)
    \<and> service_type_register S1 (Some a) = Inr (- EEXIST, S1)
    \<and> service_type_unregister S1 (Some a) = Inr S2 \<and> svc_good S2
    \<and> (\<forall>k. service_type_get S2 k = service_type_get S k)"
proof -
  obtain S1 S2 where r: "service_type_register S (Some a) = Inr (0, S1)" "svc_good S1"
    "service_type_get S1 (svc_key S a) = Inr (Some a)"
    "\<forall>k. k \<noteq> svc_key S a \<longrightarrow> service_type_get S1 k = service_type_get S k"
    and u: "service_type_unregister S1 (Some a) = Inr S2" "svc_good S2" "svc_entries S2 = svc_entries S"
    using svc.add_get [OF assms] svc.add_del [OF assms] by auto
  obtain xs where "svc_order S xs" using assms(1) by (auto simp: svc_good_def)
  then have "svc_mem S1 = svc_mem S"
    by (rule svc_register_ok [OF _ assms(2,3)]) (use r(1) in simp)
  then have "service_type_register S1 (Some a) = Inr (- EEXIST, S1)"
    using assms(2) r(3) by (auto simp: svc_fresh_def service_type_register_def svc_key_def)
  moreover have "\<forall>k. service_type_get S2 k = service_type_get S k"
    using svc.get_law [OF u(2)] svc.get_law [OF assms(1)] u(3) by simp
  ultimately show ?thesis using r u by blast
qed

theorem service_registry_map_witness:
  "\<exists>S1. service_type_register ex_services (Some 0) = Inr (0, S1) \<and> service_type_get S1 5 = Inr (Some 0)
     \<and> service_type_register S1 (Some 0) = Inr (- EEXIST, S1)"
  using service_registry_map [of ex_services 0] unfolding ex_services_facts(5)
  by (auto simp: ex_services_facts(2-4))

lemma svc_entries_handler:
  assumes "svc_good S" and "svc_entries S k = Some a"
  obtains ty f where "svc_mem S a = Some ty" and "req_handler ty = Some f"
proof -
  obtain xs where o: "svc_order S xs" using assms(1) by (auto simp: svc_good_def)
  then show ?thesis using that assms(2) svc_entries_Some [OF o] by (auto simp: svc_order_def)
qed

lemma service_handler_good:
  assumes "svc_good S"
  shows "service_handler S src sd blk (Some bs) n w =
      (if n = 0 then Inr (- EINVAL, sd, blk, w)
       else case svc_entries S (sd_service_id sd) of None \<Rightarrow> Inr (- ENOENT, sd, blk, w)
         | Some a \<Rightarrow> the (req_handler (the (svc_mem S a))) src sd blk bs (sint n) w)"
proof (cases "svc_entries S (sd_service_id sd)")
  case None
  then show ?thesis by (simp add: service_handler_def svc.get_law [OF assms])
next
  case (Some a)
  then show ?thesis by (auto elim!: svc_entries_handler [OF assms] simp: service_handler_def svc.get_law [OF assms])
qed

lemma service_rsp_handler_good:
  assumes "svc_good S"
  shows "service_rsp_handler S src i session (Some bs) n w =
      (if n = 0 then Inr w
       else case svc_entries S i of None \<Rightarrow> Inr w
         | Some a \<Rightarrow> (case rsp_handler (the (svc_mem S a)) of None \<Rightarrow> Inr w | Some f \<Rightarrow> f src session bs (sint n) w))"
proof (cases "svc_entries S i")
  case None
  then show ?thesis by (simp add: service_rsp_handler_def svc.get_law [OF assms])
next
  case (Some a)
  then show ?thesis
    by (auto elim!: svc_entries_handler [OF assms] simp: service_rsp_handler_def svc.get_law [OF assms] split: option.split)
qed

lemma service_error_handler_good:
  assumes "svc_good S"
  shows "service_error_handler S src i status session w =
      (case svc_entries S i of None \<Rightarrow> Inr w
         | Some a \<Rightarrow> (case error_handler (the (svc_mem S a)) of None \<Rightarrow> Inr w | Some f \<Rightarrow> f src status session w))"
proof (cases "svc_entries S i")
  case None
  then show ?thesis by (simp add: service_error_handler_def svc.get_law [OF assms])
next
  case (Some a)
  then show ?thesis
    by (auto elim!: svc_entries_handler [OF assms] simp: service_error_handler_def svc.get_law [OF assms] split: option.split)
qed

lemma service_timeout_handler_good:
  assumes "svc_good S"
  shows "service_timeout_handler S src i bs len w =
      (case svc_entries S i of None \<Rightarrow> Inr w
         | Some a \<Rightarrow> (case timeout_handler (the (svc_mem S a)) of None \<Rightarrow> Inr w | Some f \<Rightarrow> f src i bs len w))"
proof (cases "svc_entries S i")
  case None
  then show ?thesis by (simp add: service_timeout_handler_def svc.get_law [OF assms])
next
  case (Some a)
  then show ?thesis
    by (auto elim!: svc_entries_handler [OF assms] simp: service_timeout_handler_def svc.get_law [OF assms] split: option.split)
qed

text \<open>Dispatch. On a well-formed registry, a request, a response, an error or a timeout for a service
  reaches the handler of exactly the registered service with that identifier, with the arguments
  unchanged (the length read as a signed number); an unknown service gives \<open>-ENOENT\<close> for a request
  and is ignored otherwise; a missing handler is skipped; a request without data gives \<open>-EINVAL\<close> and
  a response without data is ignored.\<close>

theorem service_dispatch:
  assumes "svc_good S"
  shows "service_handler S src sd blk (Some bs) n w =
      (if n = 0 then Inr (- EINVAL, sd, blk, w)
       else case svc_entries S (sd_service_id sd) of None \<Rightarrow> Inr (- ENOENT, sd, blk, w)
         | Some a \<Rightarrow> the (req_handler (the (svc_mem S a))) src sd blk bs (sint n) w)
    \<and> service_rsp_handler S src i session (Some bs) n w =
      (if n = 0 then Inr w
       else case svc_entries S i of None \<Rightarrow> Inr w
         | Some a \<Rightarrow> (case rsp_handler (the (svc_mem S a)) of None \<Rightarrow> Inr w | Some f \<Rightarrow> f src session bs (sint n) w))
    \<and> service_error_handler S src i status session w =
      (case svc_entries S i of None \<Rightarrow> Inr w
         | Some a \<Rightarrow> (case error_handler (the (svc_mem S a)) of None \<Rightarrow> Inr w | Some f \<Rightarrow> f src status session w))
    \<and> service_timeout_handler S src i bs len w =
      (case svc_entries S i of None \<Rightarrow> Inr w
         | Some a \<Rightarrow> (case timeout_handler (the (svc_mem S a)) of None \<Rightarrow> Inr w | Some f \<Rightarrow> f src i bs len w))
    \<and> service_handler S src sd blk None n w = Inr (- EINVAL, sd, blk, w)
    \<and> service_rsp_handler S src i session None n w = Inr w"
  by (simp add: service_handler_good [OF assms] service_rsp_handler_good [OF assms] service_error_handler_good [OF assms]
      service_timeout_handler_good [OF assms] service_handler_def [where data = None]
      service_rsp_handler_def [where data = None])

theorem service_dispatch_witness:
  "\<exists>S. service_type_register ex_services (Some 0) = Inr (0, S)
     \<and> service_handler S ex_addr \<lparr>sd_service_id = 5, sd_data_len = 0, sd_data = None\<rparr> [0, 0] (Some [7]) 1 0
       = Inr (0, \<lparr>sd_service_id = 5, sd_data_len = 1, sd_data = None\<rparr>, [7, 0], 1)
     \<and> service_rsp_handler S ex_addr 6 None (Some [7]) 1 0 = Inr 0"
proof (rule svc_register_ok [OF ex_services_facts(1,3,4)])
  fix S assume S: "service_type_register ex_services (Some 0) = Inr (0, S)" "svc_order S [0]"
    "svc_mem S = svc_mem ex_services"
  have m: "svc_mem S 0 = Some (ex_service 5)" by (simp add: S(3) ex_services_def)
  have "svc_entries S 5 = Some 0" "svc_entries S 6 = None"
    by (simp_all add: svc_entries_find [OF S(2)] svc_key_def m ex_service_def)
  moreover have "svc_good S" using S(2) by (auto simp: svc_good_def)
  ultimately show ?thesis
    using service_dispatch [of S ex_addr "\<lparr>sd_service_id = 5, sd_data_len = 0, sd_data = None\<rparr>" "[0, 0]" "[7]" 1 0 6 None]
      S(1) by (auto simp: m ex_service_def)
qed

text \<open>What registration refuses, and what it does not. A NULL service and one without a request
  handler are refused with \<open>-EINVAL\<close>, an identifier in use with \<open>-EEXIST\<close>, and the registry stays as
  it is; unregistering NULL does nothing. Unregistering a service that was never registered is not
  detected: with a zeroed list node it follows a NULL pointer.\<close>

theorem service_register_errors:
  assumes "svc_good S" and "svc_mem S a = Some ty"
  shows "service_type_register S None = Inr (- EINVAL, S) \<and> service_type_unregister S None = Inr S
    \<and> (req_handler ty = None \<longrightarrow> service_type_register S (Some a) = Inr (- EINVAL, S))
    \<and> (req_handler ty \<noteq> None \<and> svc_entries S (svc_id ty) \<noteq> None \<longrightarrow>
        service_type_register S (Some a) = Inr (- EEXIST, S))
    \<and> (svc_links S (Svc_list a) = Some \<lparr>lnext = Svc_nil, lprev = Svc_nil\<rparr> \<and> svc_links S Svc_nil = None \<longrightarrow>
        service_type_unregister S (Some a) = Inl Bad_pointer)"
  using assms(2) svc.get_law [OF assms(1)]
  by (auto simp: service_type_register_def service_type_unregister_def list_del_def link_defs)

theorem service_register_errors_witness:
  "service_type_unregister ex_services (Some 0) = Inl Bad_pointer"
  using service_register_errors [OF ex_services_facts(2), of 0 "ex_service 5"]
  by (simp add: ex_services_def)

end
