(* ===== verification/Apdu.thy ===== *)
theory Apdu
  imports Npdu Service Mpu
begin

text \<open>
  The application layer of \<open>core/apdu.c\<close> and \<open>include/apdu.h\<close>, and \<open>npdu_handler\<close> of \<open>core/npdu.c\<close>
  which calls it.

  The record \<open>umtp\<close> is the protocol instance together with the static variables that its functions
  use: the configuration, the data link, the message process unit, the session table, the registry
  of services, the answer buffer \<open>apdu_trans_blk\<close>, and the world \<open>'w\<close> on which the handlers of
  services and the socket work. There is one instance, so the pointer to it that sessions and
  packets carry is \<open>()\<close>; the one timeout function is \<open>apdu_timeout_handler\<close>.
\<close>

section \<open>State and operations\<close>

abbreviation (input) UMTP_SESSION_ID_MASK :: u8 where "UMTP_SESSION_ID_MASK \<equiv> 1"
abbreviation (input) UMTP_PDU_REQUEST :: u8 where "UMTP_PDU_REQUEST \<equiv> 0"
abbreviation (input) UMTP_PDU_RESPONSE :: u8 where "UMTP_PDU_RESPONSE \<equiv> 1"
abbreviation (input) UMTP_PDU_ERROR :: u8 where "UMTP_PDU_ERROR \<equiv> 2"
abbreviation (input) UMTP_PDU_REJECT :: u8 where "UMTP_PDU_REJECT \<equiv> 3"
abbreviation (input) UMTP_PDU_TYPE_MAX :: u8 where "UMTP_PDU_TYPE_MAX \<equiv> 4"

record umtp_conf =
  sync_mode :: bool

record 'w umtp =
  u_conf :: "umtp_conf option"
  u_dl :: "'w umtp_dl option"
  u_mpu :: "unit mpu option"
  u_running :: bool
  u_sess :: "(unit, unit) session_state"
  u_svc :: "'w service_state"
  apdu_trans_blk :: "u8 list"
  u_world :: 'w

record apdu_data =
  ad_service :: int
  confirmed :: bool
  ad_data :: "u8 list"
  ad_data_len :: int

definition apdu_has_session_id :: "u8 \<Rightarrow> bool" where
  "apdu_has_session_id apdu_flag \<longleftrightarrow> apdu_flag AND UMTP_SESSION_ID_MASK \<noteq> 0"

definition apdu_flag_set_session_id :: "u8 \<Rightarrow> u8" where
  "apdu_flag_set_session_id apdu_flag = apdu_flag OR UMTP_SESSION_ID_MASK"

definition apdu_timeout_handler ::
  "'w service_state \<Rightarrow> umtp_addr \<Rightarrow> u8 list \<Rightarrow> int \<Rightarrow> 'w \<Rightarrow> 'w res"
where
  "apdu_timeout_handler S dst apdu apdu_len w =
     bindE (arr_get apdu 2) (\<lambda>service.
     service_timeout_handler S dst (uint service) (drop 4 apdu) (apdu_len - 4) w)"

text \<open>The function \<open>_umtp_apdu_submit\<close>.\<close>

definition priv_umtp_apdu_submit ::
  "'w sendto_fun \<Rightarrow> umtp_addr \<Rightarrow> u8 list \<Rightarrow> int \<Rightarrow> 'w umtp \<Rightarrow> (int \<times> 'w umtp) res"
where
  "priv_umtp_apdu_submit sendto dst apdu pdu_len U =
     (case u_conf U of
        None \<Rightarrow> Inl Bad_pointer
      | Some conf \<Rightarrow>
          if \<not> sync_mode conf
          then bindE (mpu_put_send (u_mpu U) dst () (Some apdu) pdu_len) (\<lambda>(ret, m). Inr (ret, U\<lparr>u_mpu := m\<rparr>))
          else bindE (npdu_send (map_option (dludp_send_data sendto) (u_dl U)) dst (Some apdu) pdu_len (u_world U))
            (\<lambda>(ret, w). Inr (ret, U\<lparr>u_world := w\<rparr>)))"

text \<open>
  The request case of \<open>apdu_handler\<close>. The request handler gets the answer buffer from
  \<open>service_data_offset\<close> on; the length of the data is an \<open>int\<close> difference passed as \<open>uint32_t\<close>.
  Where the handler left \<open>sd.data\<close> alone, the \<open>memcpy\<close> copies a part of the buffer onto itself.
\<close>

definition apdu_request ::
  "'w sendto_fun \<Rightarrow> umtp_addr \<Rightarrow> u8 \<Rightarrow> u8 \<Rightarrow> u8 \<Rightarrow> nat \<Rightarrow> u8 list \<Rightarrow> u16 \<Rightarrow> 'w umtp \<Rightarrow> (int \<times> 'w umtp) res"
where
  "apdu_request sendto src apdu_flag service sid decode_len apdu pdu_len U =
     bindE (service_handler (u_svc U) src \<lparr>sd_service_id = uint service, sd_data_len = 0, sd_data = None\<rparr>
         (drop decode_len (apdu_trans_blk U)) (Some (drop decode_len apdu))
         (word_of_int (uint pdu_len - int decode_len)) (u_world U)) (\<lambda>(ret, sd, part, w).
     bindE (arr_write (apdu_trans_blk U) decode_len part) (\<lambda>blk0.
     bindE (arr_set blk0 0 apdu_flag) (\<lambda>blk1.
     bindE (arr_set blk1 1 (if ret \<noteq> 0 then UMTP_PDU_ERROR else UMTP_PDU_RESPONSE)) (\<lambda>blk2.
     bindE (arr_set blk2 2 service) (\<lambda>blk3.
     bindE (if apdu_has_session_id apdu_flag
            then bindE (arr_set blk3 3 sid) (\<lambda>b. Inr (b, 4)) else Inr (blk3, 3 :: nat)) (\<lambda>(blk4, n).
     bindE (if ret \<noteq> 0 then bindE (arr_set blk4 n (word_of_int ret)) (\<lambda>b. Inr (b, of_nat n + 1))
            else bindE (case sd_data sd of
                None \<Rightarrow> arr_read blk4 decode_len (uint (sd_data_len sd))
              | Some bs \<Rightarrow> arr_read bs 0 (uint (sd_data_len sd))) (\<lambda>xs.
              bindE (arr_write blk4 n xs) (\<lambda>b. Inr (b, of_nat n + ucast (sd_data_len sd))))) (\<lambda>(blk5, encode_len :: u16).
     priv_umtp_apdu_submit sendto src blk5 (uint encode_len) (U\<lparr>apdu_trans_blk := blk5, u_world := w\<rparr>))))))))"

definition clear_session :: "u8 \<Rightarrow> u8 \<Rightarrow> 'w umtp \<Rightarrow> (int \<times> 'w umtp) res" where
  "clear_session apdu_flag sid U =
     (if apdu_has_session_id apdu_flag
      then bindE (umtp_session_clear sid (u_sess U)) (\<lambda>S. Inr (0, U\<lparr>u_sess := S\<rparr>)) else Inr (0, U))"

definition apdu_handler ::
  "'w sendto_fun \<Rightarrow> umtp_addr \<Rightarrow> u8 list option \<Rightarrow> u16 \<Rightarrow> 'w umtp \<Rightarrow> (int \<times> 'w umtp) res"
where
  "apdu_handler sendto src apdu pdu_len U =
     (case apdu of
        None \<Rightarrow> Inr (- EINVAL, U)
      | Some bs \<Rightarrow>
          bindE (arr_get bs 0) (\<lambda>apdu_flag.
          bindE (arr_get bs 1) (\<lambda>apdu_type.
          if apdu_type \<ge> UMTP_PDU_TYPE_MAX then Inr (- EPROTO, U)
          else bindE (arr_get bs 2) (\<lambda>service.
          bindE (if apdu_has_session_id apdu_flag
                 then bindE (arr_get bs 3) (\<lambda>i. Inr (i, 4)) else Inr (0, 3 :: nat)) (\<lambda>(sid, decode_len).
          if apdu_type = UMTP_PDU_REQUEST
          then apdu_request sendto src apdu_flag service sid decode_len bs pdu_len U
          else if apdu_type = UMTP_PDU_RESPONSE
          then let session = (if apdu_has_session_id apdu_flag then umtp_get_session sid (u_sess U) else None)
               in bindE (service_rsp_handler (u_svc U) src (uint service) session (Some (drop decode_len bs))
                    (word_of_int (uint pdu_len - int decode_len)) (u_world U)) (\<lambda>w.
                  clear_session apdu_flag sid (U\<lparr>u_world := w\<rparr>))
          else if apdu_type = UMTP_PDU_ERROR
          then let session = (if apdu_has_session_id apdu_flag then umtp_get_session sid (u_sess U) else None)
               in bindE (arr_get bs decode_len) (\<lambda>status.
                  bindE (service_error_handler (u_svc U) src (uint service) (uint status) session (u_world U)) (\<lambda>w.
                  clear_session apdu_flag sid (U\<lparr>u_world := w\<rparr>)))
          else clear_session apdu_flag sid U)))))"

text \<open>
  The loop \<open>while (session_id == 0)\<close>: as long as the table is full it sleeps; \<open>env k\<close> is what the
  other threads do to the table during the \<open>k\<close>-th sleep.
\<close>

partial_function (option) wait_session ::
  "(nat \<Rightarrow> (unit, unit) session_state \<Rightarrow> (unit, unit) session_state) \<Rightarrow> nat \<Rightarrow> (unit, unit) session_state
   \<Rightarrow> (u8 \<times> (unit, unit) session_state) res option"
where
  "wait_session env k S =
     (case umtp_free_session S of
        Inl e \<Rightarrow> Some (Inl e)
      | Inr r \<Rightarrow> if fst r = 0 then wait_session env (Suc k) (env k (snd r)) else Some (Inr r))"

text \<open>
  \<open>sizeof(apdu_data->data)\<close> is the constant \<open>MAX_APDU\<close>; the length that is used, \<open>data_len\<close>, is not
  checked.
\<close>

definition umtp_apdu_submit ::
  "'w sendto_fun \<Rightarrow> (nat \<Rightarrow> (unit, unit) session_state \<Rightarrow> (unit, unit) session_state)
   \<Rightarrow> umtp_addr \<Rightarrow> apdu_data option \<Rightarrow> 'w umtp \<Rightarrow> (int \<times> 'w umtp) res"
where
  "umtp_apdu_submit sendto env dst apdu_data U =
     (case apdu_data of
        None \<Rightarrow> Inr (- EINVAL, U)
      | Some ad \<Rightarrow>
          if MAX_APDU > MAX_APDU then Inr (- EINVAL, U)
          else let apdu_flag = (if confirmed ad then apdu_flag_set_session_id 0 else 0) in
          bindE (arr_set (replicate MAX_APDU 0) 0 apdu_flag) (\<lambda>tmp0.
          bindE (arr_set tmp0 1 UMTP_PDU_REQUEST) (\<lambda>tmp1.
          bindE (arr_set tmp1 2 (word_of_int (ad_service ad))) (\<lambda>tmp2.
          bindE (if apdu_has_session_id apdu_flag
                 then (case wait_session env 0 (u_sess U) of
                     None \<Rightarrow> Inl No_return
                   | Some r \<Rightarrow> bindE r (\<lambda>(sid, S). bindE (arr_set tmp2 3 sid) (\<lambda>t. Inr (sid, t, 4, S))))
                 else Inr (0, tmp2, 3 :: nat, u_sess U)) (\<lambda>(sid, tmp3, n, S1).
          bindE (arr_read (ad_data ad) 0 (ad_data_len ad)) (\<lambda>xs.
          bindE (arr_write tmp3 n xs) (\<lambda>tmp4.
          bindE (if confirmed ad
                 then umtp_session_set sid (Some ()) () dst tmp4 (word_of_int (int n + ad_data_len ad)) S1
                 else Inr S1) (\<lambda>S2.
          priv_umtp_apdu_submit sendto dst tmp4 (int n + ad_data_len ad) (U\<lparr>u_sess := S2\<rparr>)))))))))"

text \<open>\<open>npdu_handler\<close> of \<open>core/npdu.c\<close>.\<close>

definition npdu_handler ::
  "'w sendto_fun \<Rightarrow> umtp_addr \<Rightarrow> u8 list option \<Rightarrow> u16 \<Rightarrow> 'w umtp \<Rightarrow> (int \<times> 'w umtp) res"
where
  "npdu_handler sendto src pdu pdu_len U =
     (case pdu of
        None \<Rightarrow> Inr (- EINVAL, U)
      | Some bs \<Rightarrow>
          bindE (arr_get bs 0) (\<lambda>v.
          if v \<noteq> FTTP_PROTOCOL_VERSION then Inr (- EPROTO, U)
          else bindE (npdu_decode (Some bs) (Some \<lparr>protocol_version = 0\<rparr>)) (\<lambda>(decode_len, _).
            if decode_len > 0 \<and> decode_len < uint pdu_len
            then apdu_handler sendto src (Some (drop (nat decode_len) bs)) (pdu_len - word_of_int decode_len) U
            else Inr (0, U))))"

section \<open>Messages\<close>

text \<open>The header of an APDU, and the answer to a request.\<close>

definition hdr :: "u8 \<Rightarrow> u8 \<Rightarrow> u8 \<Rightarrow> u8 \<Rightarrow> u8 list" where
  "hdr flag type svc sid = [flag, type, svc] @ (if apdu_has_session_id flag then [sid] else [])"

definition answer :: "u8 \<Rightarrow> u8 \<Rightarrow> u8 \<Rightarrow> int \<Rightarrow> u8 list \<Rightarrow> u8 list" where
  "answer flag svc sid ret data =
     hdr flag (if ret \<noteq> 0 then UMTP_PDU_ERROR else UMTP_PDU_RESPONSE) svc sid
       @ (if ret \<noteq> 0 then [word_of_int ret] else data)"

text \<open>An instance in asynchronous mode with a running message process unit \<open>m\<close>.\<close>

definition umtp_ready :: "'w umtp \<Rightarrow> unit mpu \<Rightarrow> bool" where
  "umtp_ready U m \<longleftrightarrow> u_conf U = Some \<lparr>sync_mode = False\<rparr> \<and> u_mpu U = Some m \<and> mpu_wf m \<and> mpu_running m \<noteq> 0
     \<and> length (apdu_trans_blk U) = MAX_APDU \<and> svc_good (u_svc U) \<and> sess_wf (u_sess U)"

abbreviation sends :: "unit mpu \<Rightarrow> (umtp_addr \<times> unit \<times> u8 list) list" where
  "sends m \<equiv> map pkt_msg (q_pkts Send_queue m)"

lemma flag_facts: "apdu_has_session_id (apdu_flag_set_session_id 0)" "\<not> apdu_has_session_id 0"
  by (simp_all add: apdu_has_session_id_def apdu_flag_set_session_id_def)

lemma length_hdr: "length (hdr flag type svc sid) = (if apdu_has_session_id flag then 4 else 3)"
  by (simp add: hdr_def)

lemma priv_submit_ready:
  assumes "umtp_ready U m" and "length (sends m) < 16" and "0 \<le> len" and "len \<le> int MAX_MPU_DATA" and "nat len \<le> length bs"
  obtains m' where "priv_umtp_apdu_submit sendto dst bs len U = Inr (0, U\<lparr>u_mpu := Some m'\<rparr>)"
    and "umtp_ready (U\<lparr>u_mpu := Some m'\<rparr>) m'" and "sends m' = sends m @ [(dst, (), take (nat len) bs)]"
    and "q_pkts Recv_queue m' = q_pkts Recv_queue m"
proof -
  have m: "mpu_wf m" "mpu_running m \<noteq> 0" "length (q_pkts Send_queue m) < 16" using assms(1,2) by (simp_all add: umtp_ready_def)
  obtain m' where m': "mpu_put Send_queue (Some m) dst () (Some bs) len = Inr (0, Some m')" "mpu_wf m'"
    "sends m' = sends m @ [(dst, (), take (nat len) bs)]"
    "q_pkts Recv_queue m' = q_pkts Recv_queue m" "mpu_running m' = mpu_running m"
    by (rule mpu_put_ok [OF m assms(3-5), of dst "()"]) simp
  then show ?thesis
    using assms(1) by (intro that [of m']) (auto simp: priv_umtp_apdu_submit_def mpu_put_send_def umtp_ready_def)
qed

lemma sint_small: "- 70000 < k \<Longrightarrow> k < 70000 \<Longrightarrow> sint (word_of_int k :: u32) = k"
  by (simp add: signed_of_int signed_take_bit_int_eq_self)

lemma word_nz_small: "- 70000 < k \<Longrightarrow> k < 70000 \<Longrightarrow> k \<noteq> 0 \<Longrightarrow> (word_of_int k :: u32) \<noteq> 0"
  using sint_small [of k] by auto

section \<open>Decoding\<close>

text \<open>A message that starts with a header is dispatched on its type with the bytes behind the header.\<close>

lemma apdu_handler_hdr:
  assumes "type < UMTP_PDU_TYPE_MAX"
  shows "apdu_handler sendto src (Some (hdr flag type svc sid @ xs)) pdu_len U =
    (let n = (if apdu_has_session_id flag then 4 else 3 :: nat); i = (if apdu_has_session_id flag then sid else 0);
         session = (if apdu_has_session_id flag then umtp_get_session i (u_sess U) else None) in
     if type = UMTP_PDU_REQUEST
     then apdu_request sendto src flag svc i n (hdr flag type svc sid @ xs) pdu_len U
     else if type = UMTP_PDU_RESPONSE
     then bindE (service_rsp_handler (u_svc U) src (uint svc) session (Some xs)
            (word_of_int (uint pdu_len - int n)) (u_world U)) (\<lambda>w. clear_session flag i (U\<lparr>u_world := w\<rparr>))
     else if type = UMTP_PDU_ERROR
     then bindE (arr_get xs 0) (\<lambda>status.
          bindE (service_error_handler (u_svc U) src (uint svc) (uint status) session (u_world U)) (\<lambda>w.
          clear_session flag i (U\<lparr>u_world := w\<rparr>)))
     else clear_session flag i U)"
proof -
  show ?thesis
    using assms by (cases "apdu_has_session_id flag")
      (simp_all add: apdu_handler_def hdr_def Let_def arr_get_def not_le [symmetric])
qed

text \<open>A type outside the four is a protocol error.\<close>

lemma apdu_handler_type:
  "UMTP_PDU_TYPE_MAX \<le> type \<Longrightarrow> apdu_handler sendto src (Some (flag # type # xs)) pdu_len U = Inr (- EPROTO, U)"
  by (simp add: apdu_handler_def)

lemma npdu_handler_version:
  "0 < pdu_len \<Longrightarrow> npdu_handler sendto src (Some (FTTP_PROTOCOL_VERSION # xs)) pdu_len U =
    (if pdu_len = 1 then Inr (0, U) else apdu_handler sendto src (Some xs) (pdu_len - 1) U)"
proof -
  assume "0 < pdu_len"
  then have "1 < uint pdu_len \<longleftrightarrow> pdu_len \<noteq> 1"
  proof -
    have "uint pdu_len \<noteq> 0" using \<open>0 < pdu_len\<close> by (auto simp: word_less_def)
    moreover have "uint pdu_len = 1 \<longleftrightarrow> pdu_len = 1" by (metis uint_1 word_uint_eq_iff)
    moreover have "0 \<le> uint pdu_len" by simp
    ultimately show ?thesis by linarith
  qed
  then show ?thesis by (simp add: npdu_handler_def npdu_decode_def)
qed

section \<open>Answering a request\<close>

lemma uint_of_nat_small: "k < 65536 \<Longrightarrow> uint (of_nat k :: u16) = int k"
  by (simp add: unsigned_of_nat take_bit_nat_eq_self)

lemma uint_of_int_small: "0 \<le> k \<Longrightarrow> k < 65536 \<Longrightarrow> uint (word_of_int k :: u16) = k"
  by (simp add: unsigned_of_int take_bit_int_eq_self)

text \<open>The header that is written over the start of the answer buffer.\<close>

lemma write_header:
  assumes "length blk = MAX_APDU" and "length part = MAX_APDU - length (hdr flag type svc sid)"
  shows "bindE (arr_write blk (length (hdr flag type svc sid)) part) (\<lambda>blk0.
     bindE (arr_set blk0 0 flag) (\<lambda>blk1.
     bindE (arr_set blk1 1 type) (\<lambda>blk2.
     bindE (arr_set blk2 2 svc) (\<lambda>blk3.
     bindE (if apdu_has_session_id flag then bindE (arr_set blk3 3 sid) (\<lambda>b. Inr (b, 4)) else Inr (blk3, 3 :: nat)) f))))
   = f (hdr flag type svc sid @ part, length (hdr flag type svc sid))"
proof -
  obtain a b1 where "blk = a # b1" using assms(1) by (cases blk) auto
  moreover obtain b c1 where "b1 = b # c1" using assms(1) calculation by (cases b1) auto
  moreover obtain c d1 where "c1 = c # d1" using assms(1) calculation by (cases c1) auto
  moreover obtain d e1 where "d1 = d # e1" using assms(1) calculation by (cases d1) auto
  ultimately have blk: "blk = a # b # c # d # e1" by simp
  show ?thesis
    using assms unfolding blk
    by (cases "apdu_has_session_id flag") (simp_all add: arr_write_def arr_set_def hdr_def eval_nat_numeral)
qed

text \<open>The answer's data, and that it lies within its buffers.\<close>

definition answer_data :: "service_data \<Rightarrow> u8 list \<Rightarrow> u8 list" where
  "answer_data sd part = take (unat (sd_data_len sd)) (case sd_data sd of None \<Rightarrow> part | Some bs \<Rightarrow> bs)"

definition answer_fits :: "service_data \<Rightarrow> u8 list \<Rightarrow> bool" where
  "answer_fits sd part \<longleftrightarrow> unat (sd_data_len sd) \<le> length part
     \<and> (case sd_data sd of None \<Rightarrow> True | Some bs \<Rightarrow> unat (sd_data_len sd) \<le> length bs)"

lemma apdu_request_encodes:
  fixes flag svc sid :: u8
  defines "n \<equiv> (if apdu_has_session_id flag then 4 else 3 :: nat)"
  assumes blk: "length (apdu_trans_blk U) = MAX_APDU"
    and h: "service_handler (u_svc U) src \<lparr>sd_service_id = uint svc, sd_data_len = 0, sd_data = None\<rparr>
         (drop n (apdu_trans_blk U)) (Some (drop n apdu)) (word_of_int (uint pdu_len - int n)) (u_world U)
       = Inr (ret, sd, part, w)"
    and part: "length part = MAX_APDU - n" and fits: "ret = 0 \<Longrightarrow> answer_fits sd part"
  obtains b len where "apdu_request sendto src flag svc sid n apdu pdu_len U =
      priv_umtp_apdu_submit sendto src b (int len) (U\<lparr>apdu_trans_blk := b, u_world := w\<rparr>)"
    and "length b = MAX_APDU" and "len \<le> MAX_APDU" and "take len b = answer flag svc sid ret (answer_data sd part)"
proof -
  let ?type = "if ret \<noteq> 0 then UMTP_PDU_ERROR else UMTP_PDU_RESPONSE"
  let ?h = "hdr flag ?type svc sid"
  let ?k = "if ret \<noteq> 0 then 1 else unat (sd_data_len sd)"
  have n: "length ?h = n" "n \<le> 4" by (simp_all add: n_def length_hdr)
  obtain b where body: "(if ret \<noteq> 0 then bindE (arr_set (?h @ part) n (word_of_int ret)) (\<lambda>b. Inr (b, of_nat n + 1))
            else bindE (case sd_data sd of
                None \<Rightarrow> arr_read (?h @ part) n (uint (sd_data_len sd))
              | Some bs \<Rightarrow> arr_read bs 0 (uint (sd_data_len sd))) (\<lambda>xs.
              bindE (arr_write (?h @ part) n xs) (\<lambda>b. Inr (b, of_nat n + ucast (sd_data_len sd)))))
        = Inr (b, of_nat (n + ?k) :: u16)"
    and lenb: "length b = MAX_APDU" and tk: "take (n + ?k) b = answer flag svc sid ret (answer_data sd part)"
  proof (cases "ret = 0")
    case False
    have "(?h @ part)[n := word_of_int ret] = ?h @ part[0 := word_of_int ret]"
      using n(1) by (simp add: list_update_append)
    moreover obtain y ys where "part = y # ys" using part n(2) by (cases part) auto
    ultimately show ?thesis using False part n by (intro that) (auto simp: arr_set_def answer_def)
  next
    case True
    let ?d = "unat (sd_data_len sd)"
    let ?src = "case sd_data sd of None \<Rightarrow> part | Some bs \<Rightarrow> bs"
    have d: "?d \<le> length part" "?d \<le> length ?src" using fits [OF True] by (auto simp: answer_fits_def split: option.splits)
    have "(case sd_data sd of None \<Rightarrow> arr_read (?h @ part) n (uint (sd_data_len sd))
              | Some bs \<Rightarrow> arr_read bs 0 (uint (sd_data_len sd))) = Inr (take ?d ?src)"
      using d n(1) by (cases "sd_data sd") (simp_all add: arr_read_def nat_uint_eq)
    moreover have "arr_write (?h @ part) n (take ?d ?src) = Inr (?h @ take ?d ?src @ drop ?d part)"
      using d n(1) by (simp add: arr_write_def min_def)
    moreover have "ucast (sd_data_len sd) = (of_nat ?d :: u16)" by simp
    ultimately show ?thesis using True d n part
      by (intro that [of "?h @ take ?d ?src @ drop ?d part"]) (auto simp: answer_def answer_data_def)
  qed
  have k: "n + ?k \<le> MAX_APDU" using part n(2) fits by (auto simp: answer_fits_def)
  let ?U = "U\<lparr>apdu_trans_blk := b, u_world := w\<rparr>"
  have part': "length part = MAX_APDU - length ?h" using part n(1) by simp
  have "apdu_request sendto src flag svc sid n apdu pdu_len U =
      bindE (if ret \<noteq> 0 then bindE (arr_set (?h @ part) n (word_of_int ret)) (\<lambda>b. Inr (b, of_nat n + 1))
            else bindE (case sd_data sd of
                None \<Rightarrow> arr_read (?h @ part) n (uint (sd_data_len sd))
              | Some bs \<Rightarrow> arr_read bs 0 (uint (sd_data_len sd))) (\<lambda>xs.
              bindE (arr_write (?h @ part) n xs) (\<lambda>b. Inr (b, of_nat n + ucast (sd_data_len sd)))))
       (\<lambda>(blk5, encode_len :: u16).
        priv_umtp_apdu_submit sendto src blk5 (uint encode_len) (U\<lparr>apdu_trans_blk := blk5, u_world := w\<rparr>))"
    unfolding apdu_request_def h bindE_Inr prod.case
    by (rule trans [OF write_header [OF blk part', unfolded n(1)]]) (simp only: prod.case)
  then have eq: "apdu_request sendto src flag svc sid n apdu pdu_len U = priv_umtp_apdu_submit sendto src b (int (n + ?k)) ?U"
    unfolding body bindE_Inr prod.case using k by (simp only: uint_of_nat_small)
  show ?thesis by (rule that [OF eq lenb k tk])
qed

lemma apdu_request_ok:
  fixes flag svc sid :: u8
  defines "n \<equiv> (if apdu_has_session_id flag then 4 else 3 :: nat)"
  assumes ready: "umtp_ready U m" and room: "length (sends m) < 16"
    and h: "service_handler (u_svc U) src \<lparr>sd_service_id = uint svc, sd_data_len = 0, sd_data = None\<rparr>
         (drop n (apdu_trans_blk U)) (Some (drop n apdu)) (word_of_int (uint pdu_len - int n)) (u_world U)
       = Inr (ret, sd, part, w)"
    and part: "length part = MAX_APDU - n" and fits: "ret = 0 \<Longrightarrow> answer_fits sd part"
  obtains m' blk where "apdu_request sendto src flag svc sid n apdu pdu_len U =
      Inr (0, U\<lparr>apdu_trans_blk := blk, u_world := w, u_mpu := Some m'\<rparr>)"
    and "umtp_ready (U\<lparr>apdu_trans_blk := blk, u_world := w, u_mpu := Some m'\<rparr>) m'"
    and "sends m' = sends m @ [(src, (), answer flag svc sid ret (answer_data sd part))]"
    and "q_pkts Recv_queue m' = q_pkts Recv_queue m"
proof -
  have blk: "length (apdu_trans_blk U) = MAX_APDU" using ready by (simp add: umtp_ready_def)
  obtain b len where eq: "apdu_request sendto src flag svc sid n apdu pdu_len U =
      priv_umtp_apdu_submit sendto src b (int len) (U\<lparr>apdu_trans_blk := b, u_world := w\<rparr>)"
    and b: "length b = MAX_APDU" "len \<le> MAX_APDU" "take len b = answer flag svc sid ret (answer_data sd part)"
    using apdu_request_encodes [OF blk h [unfolded n_def] part [unfolded n_def] fits] unfolding n_def by metis
  let ?U = "U\<lparr>apdu_trans_blk := b, u_world := w\<rparr>"
  have ready': "umtp_ready ?U m" using ready b(1) by (simp add: umtp_ready_def)
  obtain m' where m': "priv_umtp_apdu_submit sendto src b (int len) ?U = Inr (0, ?U\<lparr>u_mpu := Some m'\<rparr>)"
    "umtp_ready (?U\<lparr>u_mpu := Some m'\<rparr>) m'" "sends m' = sends m @ [(src, (), take (nat (int len)) b)]"
    "q_pkts Recv_queue m' = q_pkts Recv_queue m"
    by (rule priv_submit_ready [OF ready' room, of "int len" b sendto src]) (use b in simp_all)
  show ?thesis
    using m' eq b(3) by (intro that [of m' b]) simp_all
qed

text \<open>A request as \<open>npdu_handler\<close> passes it on: the header, \<open>k\<close> bytes of data, and what else the buffer holds.\<close>

lemma apdu_handler_request:
  fixes flag svc sid :: u8
  assumes ready: "umtp_ready U m" and room: "length (sends m) < 16"
    and n: "n = length (hdr flag UMTP_PDU_REQUEST svc sid)" and k: "n + k < 65536"
    and h: "service_handler (u_svc U) src \<lparr>sd_service_id = uint svc, sd_data_len = 0, sd_data = None\<rparr>
         (drop n (apdu_trans_blk U)) (Some ys) (of_nat k) (u_world U) = Inr (ret, sd, part, w)"
    and part: "length part = MAX_APDU - n" and fits: "ret = 0 \<Longrightarrow> answer_fits sd part"
  obtains m' blk where "apdu_handler sendto src (Some (hdr flag UMTP_PDU_REQUEST svc sid @ ys)) (of_nat (n + k)) U =
      Inr (0, U\<lparr>apdu_trans_blk := blk, u_world := w, u_mpu := Some m'\<rparr>)"
    and "umtp_ready (U\<lparr>apdu_trans_blk := blk, u_world := w, u_mpu := Some m'\<rparr>) m'"
    and "sends m' = sends m @ [(src, (), answer flag svc sid ret (answer_data sd part))]"
    and "q_pkts Recv_queue m' = q_pkts Recv_queue m"
proof -
  have n': "n = (if apdu_has_session_id flag then 4 else 3)" by (simp add: n length_hdr)
  let ?i = "if apdu_has_session_id flag then sid else 0"
  let ?apdu = "hdr flag UMTP_PDU_REQUEST svc sid @ ys"
  have len: "word_of_int (uint (of_nat (n + k) :: u16) - int n) = (of_nat k :: u32)"
    using k by (simp add: uint_of_nat_small del: of_nat_add) (simp only: of_nat_add add_diff_cancel_left')
  have h': "service_handler (u_svc U) src \<lparr>sd_service_id = uint svc, sd_data_len = 0, sd_data = None\<rparr>
         (drop n (apdu_trans_blk U)) (Some (drop n ?apdu)) (word_of_int (uint (of_nat (n + k) :: u16) - int n)) (u_world U)
       = Inr (ret, sd, part, w)"
    unfolding len using h n by simp
  have eq: "apdu_handler sendto src (Some ?apdu) (of_nat (n + k)) U =
      apdu_request sendto src flag svc ?i n ?apdu (of_nat (n + k)) U"
    by (simp add: apdu_handler_hdr n')
  have ans: "answer flag svc ?i = answer flag svc sid" by (simp add: answer_def hdr_def fun_eq_iff)
  show ?thesis
    by (rule apdu_request_ok [OF ready room h' [unfolded n'] part [unfolded n'] fits, where sendto = sendto and sid = ?i])
      (use that eq ans n' in simp_all)
qed

section \<open>Submitting a request\<close>

text \<open>The session \<open>sid\<close> waits for the answer to \<open>msg\<close>, sent to \<open>dst\<close>, and has not been retried.\<close>

definition awaits :: "(unit, unit) session_state \<Rightarrow> u8 \<Rightarrow> umtp_addr \<Rightarrow> u8 list \<Rightarrow> bool" where
  "awaits S sid dst msg \<longleftrightarrow> (case umtp_get_session sid S of None \<Rightarrow> False
     | Some i \<Rightarrow> let s = sessions S ! i in waiting s \<and> retry s = 0 \<and> timer s = umtp_apdu_timeout S
         \<and> s_dest s = dst \<and> s_timeout s = Some () \<and> take (unat (s_pdu_len s)) (s_pdu s) = msg)"

lemma submit_header:
  "bindE (arr_set (replicate MAX_APDU 0) 0 flag) (\<lambda>tmp0. bindE (arr_set tmp0 1 type) (\<lambda>tmp1. bindE (arr_set tmp1 2 svc) f))
   = f (flag # type # svc # replicate 1021 0)"
proof -
  have "replicate MAX_APDU (0 :: u8) = 0 # 0 # 0 # replicate 1021 0"
    using replicate_Suc [of 1023 "0 :: u8"] replicate_Suc [of 1022 "0 :: u8"] replicate_Suc [of 1021 "0 :: u8"] by simp
  then show ?thesis by (simp add: arr_set_def eval_nat_numeral)
qed

lemma submit_data:
  assumes "n = length h" and "0 \<le> len" and "nat len \<le> length bs"
  shows "bindE (arr_read bs 0 len) (\<lambda>xs. bindE (arr_write (h @ replicate k 0) n xs) f)
    = (if nat len \<le> k then f (h @ take (nat len) bs @ replicate (k - nat len) 0) else Inl Out_of_bounds)"
  using assms by (simp add: arr_read_def arr_write_def min_def)

lemma submit_unconfirmed:
  assumes "\<not> confirmed ad" and "0 \<le> ad_data_len ad" and "nat (ad_data_len ad) \<le> length (ad_data ad)"
  shows "umtp_apdu_submit sendto env dst (Some ad) U =
    (if nat (ad_data_len ad) \<le> MAX_APDU - 3
     then let h = hdr 0 UMTP_PDU_REQUEST (word_of_int (ad_service ad)) 0 in
       priv_umtp_apdu_submit sendto dst
        (h @ take (nat (ad_data_len ad)) (ad_data ad) @ replicate (MAX_APDU - 3 - nat (ad_data_len ad)) 0) (3 + ad_data_len ad) U
     else Inl Out_of_bounds)"
proof -
  have h: "hdr 0 UMTP_PDU_REQUEST (word_of_int (ad_service ad)) 0 = [0, 0, word_of_int (ad_service ad)]"
    by (simp add: hdr_def flag_facts)
  show ?thesis
    unfolding umtp_apdu_submit_def option.case less_irrefl if_False Let_def submit_header h
    using submit_data [of 3 "[0, 0, word_of_int (ad_service ad)]", OF _ assms(2,3), where k = 1021
        and f = "\<lambda>tmp4. priv_umtp_apdu_submit sendto dst tmp4 (3 + ad_data_len ad) U"] assms(1)
    by (simp add: flag_facts)
qed

lemma submit_confirmed:
  assumes "confirmed ad" and "0 \<le> ad_data_len ad" and "nat (ad_data_len ad) \<le> length (ad_data ad)"
    and "wait_session env 0 (u_sess U) = Some (Inr (sid, S1))"
  shows "umtp_apdu_submit sendto env dst (Some ad) U =
    (if nat (ad_data_len ad) \<le> MAX_APDU - 4
     then let h = hdr 1 UMTP_PDU_REQUEST (word_of_int (ad_service ad)) sid;
              msg = h @ take (nat (ad_data_len ad)) (ad_data ad) @ replicate (MAX_APDU - 4 - nat (ad_data_len ad)) 0 in
       bindE (umtp_session_set sid (Some ()) () dst msg (word_of_int (4 + ad_data_len ad)) S1) (\<lambda>S2.
       priv_umtp_apdu_submit sendto dst msg (4 + ad_data_len ad) (U\<lparr>u_sess := S2\<rparr>))
     else Inl Out_of_bounds)"
proof -
  have r: "replicate 1021 (0 :: u8) = 0 # replicate 1020 0" using replicate_Suc [of 1020 "0 :: u8"] by simp
  have f: "apdu_flag_set_session_id 0 = 1" by (simp add: apdu_flag_set_session_id_def)
  have "apdu_has_session_id 1" by (simp add: apdu_has_session_id_def)
  moreover from this have h: "hdr 1 UMTP_PDU_REQUEST (word_of_int (ad_service ad)) sid = [1, 0, word_of_int (ad_service ad), sid]"
    by (simp add: hdr_def)
  ultimately show ?thesis
    unfolding umtp_apdu_submit_def option.case less_irrefl if_False Let_def submit_header h
    using submit_data [of 4 "[1, 0, word_of_int (ad_service ad), sid]", OF _ assms(2,3), where k = 1020
        and f = "\<lambda>msg. bindE (umtp_session_set sid (Some ()) () dst msg (word_of_int (4 + ad_data_len ad)) S1)
          (\<lambda>S2. priv_umtp_apdu_submit sendto dst msg (4 + ad_data_len ad) (U\<lparr>u_sess := S2\<rparr>))"] assms(1,4)
    by (simp add: f arr_set_def r)
qed

section \<open>Waiting for a session\<close>

text \<open>The table before the \<open>k\<close>-th look at it, as long as every look found it full.\<close>

fun table_at ::
  "(nat \<Rightarrow> (unit, unit) session_state \<Rightarrow> (unit, unit) session_state) \<Rightarrow> (unit, unit) session_state \<Rightarrow> nat
   \<Rightarrow> (unit, unit) session_state"
where
  "table_at env S 0 = S"
| "table_at env S (Suc k) = env k (table_at env S k)"

lemma wait_session_full:
  "sess_wf S \<Longrightarrow> 0 \<notin> set (ids S) \<Longrightarrow> wait_session env k S = wait_session env (Suc k) (env k S)"
  by (subst wait_session.simps) (simp add: umtp_free_session_full sess_wf_def)

lemma wait_session_free:
  "umtp_free_session S = Inr (sid, S1) \<Longrightarrow> sid \<noteq> 0 \<Longrightarrow> wait_session env k S = Some (Inr (sid, S1))"
  by (subst wait_session.simps) simp

lemma wait_session_looks:
  assumes "\<forall>i < k. sess_wf (table_at env S i) \<and> 0 \<notin> set (ids (table_at env S i))"
  shows "wait_session env 0 S = wait_session env k (table_at env S k)"
  using assms
proof (induction k)
  case (Suc k)
  then show ?case using wait_session_full [of "table_at env S k" env k] by simp
qed simp

lemma wait_session_never:
  assumes "\<forall>k. sess_wf (table_at env S k) \<and> 0 \<notin> set (ids (table_at env S k))"
  shows "wait_session env 0 S = None"
proof -
  have "T \<noteq> table_at env S k" if "wait_session env k T = Some y" for k T y
  proof (rule wait_session.raw_induct [where P = "\<lambda>e k T y. e = env \<longrightarrow> T \<noteq> table_at env S k",
        rule_format, OF _ that refl])
    fix loop e k T and y
    assume IH: "\<And>e k T y. loop e k T = Some y \<Longrightarrow> e = env \<Longrightarrow> T \<noteq> table_at env S k"
      and body: "(case umtp_free_session T of Inl f \<Rightarrow> Some (Inl f)
        | Inr r \<Rightarrow> if fst r = 0 then loop e (Suc k) (e k (snd r)) else Some (Inr r)) = Some y" and e: "e = env"
    show "T \<noteq> table_at env S k"
    proof
      assume T: "T = table_at env S k"
      have "umtp_free_session T = Inr (0, T)"
        using assms by (simp add: T umtp_free_session_full sess_wf_def)
      then have "loop env (Suc k) (table_at env S (Suc k)) = Some y" using body by (simp add: e T)
      from IH [OF this refl] show False by simp
    qed
  qed
  from this [of 0 S] show ?thesis by (cases "wait_session env 0 S") auto
qed

lemma submit_confirmed_ready:
  assumes "umtp_ready U m" and "length (sends m) < 16" and "0 \<le> ad_data_len ad"
    and "nat (ad_data_len ad) \<le> length (ad_data ad)" and "confirmed ad" and "nat (ad_data_len ad) \<le> 1020"
    and "0 \<in> set (ids (u_sess U))" and "next_session_id (u_sess U) + 256 < INT_MAX"
    and "data = take (nat (ad_data_len ad)) (ad_data ad)" and "svc = word_of_int (ad_service ad)"
  obtains sid S' m' where "umtp_apdu_submit sendto env dst (Some ad) U = Inr (0, U\<lparr>u_sess := S', u_mpu := Some m'\<rparr>)"
    and "umtp_ready (U\<lparr>u_sess := S', u_mpu := Some m'\<rparr>) m'"
    and "sid \<noteq> 0" and "sid \<notin> live (u_sess U)" and "live S' = insert sid (live (u_sess U))" and "sess_wf S'"
    and "awaits S' sid dst ([1, 0, svc, sid] @ data)" and "sends m' = sends m @ [(dst, (), [1, 0, svc, sid] @ data)]"
    and "q_pkts Recv_queue m' = q_pkts Recv_queue m"
proof -
  let ?L = "ad_data_len ad"
  have len: "length data = nat ?L" using assms(4,9) by simp
  have one: "apdu_has_session_id 1" by (simp add: apdu_has_session_id_def)
  have wf: "sess_wf (u_sess U)" using assms(1) by (simp add: umtp_ready_def)
  obtain sid S1 where f: "umtp_free_session (u_sess U) = Inr (sid, S1)" "sess_alloc (u_sess U) sid S1" "sid \<noteq> 0"
    by (rule umtp_free_session_returns [OF wf assms(7,8)])
  have S1: "sess_wf S1" "live S1 = insert sid (live (u_sess U))" and new: "sid \<notin> live (u_sess U)"
    using sess_alloc_wf [OF f(2) wf] f(2,3) by (simp_all add: sess_alloc_def live_iff)
  let ?msg = "[1, 0, svc, sid] @ data"
  let ?b = "?msg @ replicate (1020 - nat ?L) 0"
  define len16 where "len16 = (word_of_int (4 + ?L) :: u16)"
  have n: "nat (4 + ?L) = length ?msg" using assms(3) len by simp
  have "uint len16 = 4 + ?L" unfolding len16_def by (rule uint_of_int_small) (use assms(3) assms(6) in simp_all)
  then have un: "unat len16 = length ?msg" using n by (metis nat_uint_eq)
  have le: "unat len16 \<le> length ?b" "unat len16 \<le> MAX_PDU" unfolding un using assms(6) len by simp_all
  have sid: "sid \<in> live S1" by (simp add: S1(2))
  obtain k s S' where S': "umtp_session_set sid (Some ()) () dst ?b len16 S1 = Inr S'" "sess_wf S'" "ids S' = ids S1"
      "umtp_get_session sid S' = Some k" "S' = S1\<lparr>sessions := (sessions S1)[k := s]\<rparr>" "sessions S' ! k = s"
    and s: "s = (sessions S1 ! k)\<lparr>waiting := True, retry := 0, timer := umtp_apdu_timeout S1, s_timeout := Some (),
      s_data := (), s_pdu := take (unat len16) ?b @ drop (unat len16) (s_pdu (sessions S1 ! k)), s_pdu_len := len16, s_dest := dst\<rparr>"
    by (rule umtp_session_set_ok [OF S1(1) sid le, of "Some ()" "()" dst])
  have tk: "take (unat len16) ?b = ?msg" unfolding un by simp
  have "umtp_apdu_timeout S' = umtp_apdu_timeout S1" by (simp add: S'(5))
  moreover have "take (unat len16) (s_pdu s) = ?msg" by (simp add: s tk un del: append_Cons append_Nil)
  moreover have "waiting s" "retry s = 0" "timer s = umtp_apdu_timeout S1" "s_dest s = dst" "s_timeout s = Some ()" "s_pdu_len s = len16"
    by (simp_all add: s)
  ultimately have aw: "awaits S' sid dst ?msg" unfolding awaits_def S'(4) option.case Let_def S'(6) by simp
  let ?U = "U\<lparr>u_sess := S'\<rparr>"
  have eq: "umtp_apdu_submit sendto env dst (Some ad) U = priv_umtp_apdu_submit sendto dst ?b (4 + ?L) ?U"
    using submit_confirmed [OF assms(5) assms(3,4) wait_session_free [OF f(1,3)]] assms(6) S'(1)
    by (simp add: assms(9,10) hdr_def one Let_def len16_def)
  have r: "umtp_ready ?U m" using assms(1) S'(2) by (simp add: umtp_ready_def)
  have "4 + ?L \<le> int MAX_MPU_DATA" "nat (4 + ?L) \<le> length ?b" "0 \<le> 4 + ?L" "take (nat (4 + ?L)) ?b = ?msg"
    unfolding n using assms(3) assms(6) by simp_all
  then obtain m' where m': "priv_umtp_apdu_submit sendto dst ?b (4 + ?L) ?U = Inr (0, ?U\<lparr>u_mpu := Some m'\<rparr>)"
    "umtp_ready (?U\<lparr>u_mpu := Some m'\<rparr>) m'" "sends m' = sends m @ [(dst, (), ?msg)]"
    "q_pkts Recv_queue m' = q_pkts Recv_queue m"
    using priv_submit_ready [OF r assms(2), of "4 + ?L" ?b sendto dst] by metis
  have "live S' = insert sid (live (u_sess U))" using S'(3) S1(2) by (simp add: live_def)
  then show ?thesis using that [of m' S' sid] m' eq aw f(3) new S'(2) by simp
qed

lemma clear_session_ok:
  assumes "sess_wf (u_sess U)"
  obtains S' where "clear_session flag (if apdu_has_session_id flag then sid else 0) U = Inr (0, U\<lparr>u_sess := S'\<rparr>)"
    and "sess_wf S'" and "live S' = (if apdu_has_session_id flag then live (u_sess U) - {sid} else live (u_sess U))"
proof (cases "apdu_has_session_id flag")
  case True
  show ?thesis
    by (rule umtp_session_clear_ok [OF assms, of sid]) (use True that in \<open>simp add: clear_session_def\<close>)
next
  case False
  then show ?thesis using that [of "u_sess U"] assms by (simp add: clear_session_def)
qed

lemma apdu_answer_dispatch:
  fixes flag svc sid :: u8
  assumes "svc_good (u_svc U)" and "h = hdr flag type svc sid" and "length h + length xs < 65536"
    and "type \<in> {UMTP_PDU_RESPONSE, UMTP_PDU_ERROR, UMTP_PDU_REJECT}" and "type = UMTP_PDU_ERROR \<Longrightarrow> xs @ rest \<noteq> []"
    and "session = (if apdu_has_session_id flag then umtp_get_session sid (u_sess U) else None)"
    and "(if type = UMTP_PDU_REJECT \<or> type = UMTP_PDU_RESPONSE \<and> xs = [] then Inr (u_world U)
          else case svc_entries (u_svc U) (uint svc) of None \<Rightarrow> Inr (u_world U)
          | Some a \<Rightarrow>
              if type = UMTP_PDU_RESPONSE
              then (case rsp_handler (the (svc_mem (u_svc U) a)) of None \<Rightarrow> Inr (u_world U)
                | Some f \<Rightarrow> f src session (xs @ rest) (int (length xs)) (u_world U))
              else (case error_handler (the (svc_mem (u_svc U) a)) of None \<Rightarrow> Inr (u_world U)
                | Some f \<Rightarrow> f src (uint (hd (xs @ rest))) session (u_world U))) = Inr w"
  shows "apdu_handler sendto src (Some (h @ xs @ rest)) (of_nat (length h + length xs)) U =
    clear_session flag (if apdu_has_session_id flag then sid else 0) (U\<lparr>u_world := w\<rparr>)"
proof -
  let ?i = "if apdu_has_session_id flag then sid else 0"
  let ?len = "of_nat (length h + length xs) :: u16"
  have n: "length h = (if apdu_has_session_id flag then 4 else 3)" by (simp add: assms(2) length_hdr)
  have len: "word_of_int (uint ?len - int (length h)) = (of_nat (length xs) :: u32)"
    using assms(3) by (simp add: uint_of_nat_small del: of_nat_add) (simp only: of_nat_add add_diff_cancel_left')
  have sint: "sint (of_nat (length xs) :: u32) = int (length xs)"
    using sint_small [of "int (length xs)"] assms(3) by simp
  have nz: "(of_nat (length xs) :: u32) = 0 \<longleftrightarrow> xs = []"
    using word_nz_small [of "int (length xs)"] assms(3) by auto
  have lt: "type < UMTP_PDU_TYPE_MAX" using assms(4) by auto
  show ?thesis
    using assms(4)
  proof (elim insertE emptyE)
    assume t: "type = UMTP_PDU_RESPONSE"
    have "service_rsp_handler (u_svc U) src (uint svc) session (Some (xs @ rest)) (of_nat (length xs)) (u_world U) = Inr w"
      using assms(7) t by (cases "xs = []") (simp_all add: service_rsp_handler_good [OF assms(1)] nz sint cong: option.case_cong)
    then show ?thesis
      using apdu_handler_hdr [OF lt, of sendto src flag svc sid "xs @ rest" ?len U] t n len
      by (simp add: Let_def assms(2,6) del: of_nat_add split: if_splits)
  next
    assume t: "type = UMTP_PDU_ERROR"
    obtain y ys where y: "xs @ rest = y # ys" using assms(5) [OF t] by (cases "xs @ rest") auto
    have "service_error_handler (u_svc U) src (uint svc) (uint y) session (u_world U) = Inr w"
      using assms(7) t y by (simp add: service_error_handler_good [OF assms(1)] cong: option.case_cong)
    then show ?thesis
      using apdu_handler_hdr [OF lt, of sendto src flag svc sid "xs @ rest" ?len U] t
      by (simp add: Let_def assms(2,6) y arr_get_def del: of_nat_add split: if_splits)
  next
    assume t: "type = UMTP_PDU_REJECT"
    then have "U\<lparr>u_world := w\<rparr> = U" using assms(7) by (cases U) simp
    then show ?thesis
      using apdu_handler_hdr [OF lt, of sendto src flag svc sid "xs @ rest" ?len U] t
      by (simp add: Let_def assms(2) del: of_nat_add)
  qed

qed

section \<open>Properties of the handler\<close>

text \<open>An instance as \<open>umtp_start\<close> leaves it, with the service 5 registered.\<close>

definition ex_registered :: "nat service_state" where
  "ex_registered = \<lparr>svc_links = [Svc_head \<mapsto> \<lparr>lnext = Svc_list 0, lprev = Svc_list 0\<rparr>,
       Svc_list 0 \<mapsto> \<lparr>lnext = Svc_head, lprev = Svc_head\<rparr>], svc_mem = [0 \<mapsto> ex_service 5]\<rparr>"

definition ex_idle_net :: "nat sendto_fun" where
  "ex_idle_net k frame a p w = (int (length frame), 0, w)"

definition ex_quiet :: "nat \<Rightarrow> (unit, unit) session_state \<Rightarrow> (unit, unit) session_state" where
  "ex_quiet k S = S"

definition ex_umtp :: "nat umtp" where
  "ex_umtp = \<lparr>u_conf = Some \<lparr>sync_mode = False\<rparr>, u_dl = None, u_mpu = Some ex_mpu, u_running = True, u_sess = ex_sess,
     u_svc = ex_registered, apdu_trans_blk = replicate MAX_APDU 0, u_world = 0\<rparr>"

lemma ex_registered_facts: "svc_good ex_registered" "svc_entries ex_registered i = (if i = 5 then Some 0 else None)"
    "svc_mem ex_registered 0 = Some (ex_service 5)"
proof -
  have o: "svc_order ex_registered [0]"
    by (simp add: svc_order_def ex_registered_def dlist_def link_defs ex_service_def)
  then show "svc_good ex_registered" by (auto simp: svc_good_def)
  show "svc_mem ex_registered 0 = Some (ex_service 5)" by (simp add: ex_registered_def)
  then show "svc_entries ex_registered i = (if i = 5 then Some 0 else None)"
    by (auto simp: svc_entries_find [OF o] svc_key_def ex_service_def)
qed

lemma ex_umtp_facts: "umtp_ready ex_umtp ex_mpu" "u_svc ex_umtp = ex_registered" "u_sess ex_umtp = ex_sess"
    "apdu_trans_blk ex_umtp = replicate MAX_APDU 0" "u_world ex_umtp = 0" "u_mpu ex_umtp = Some ex_mpu"
  by (simp_all add: umtp_ready_def ex_umtp_def ex_mpu_facts ex_registered_facts ex_sess_facts)

text \<open>C4. A request is answered. On a running instance with room in the send queue, a request with any
  header is dispatched with the bytes behind it and their number: without data the result is
  \<open>-EINVAL\<close>, for an unknown service \<open>-ENOENT\<close>, otherwise what the registered request handler returns
  (the handler sees the answer buffer behind the header). Exactly one message is then put into the
  send queue, to the sender of the request: the flag, service and session number of the request,
  and as type and body RESPONSE with the data of the handler when it returned 0, or ERROR with the
  low byte of its return value. The session table is left alone. (The answer of the handler
  is assumed to fit the buffer.)\<close>

theorem apdu_request_answered:
  fixes flag svc sid :: u8
  assumes "umtp_ready U m" and "length (sends m) < 16" and "h = hdr flag UMTP_PDU_REQUEST svc sid"
    and "length h + length xs < 65536"
    and "(if xs = [] then Inr (- EINVAL, \<lparr>sd_service_id = uint svc, sd_data_len = 0, sd_data = None\<rparr>,
            drop (length h) (apdu_trans_blk U), u_world U)
          else case svc_entries (u_svc U) (uint svc) of
            None \<Rightarrow> Inr (- ENOENT, \<lparr>sd_service_id = uint svc, sd_data_len = 0, sd_data = None\<rparr>,
              drop (length h) (apdu_trans_blk U), u_world U)
          | Some a \<Rightarrow> the (req_handler (the (svc_mem (u_svc U) a))) src
              \<lparr>sd_service_id = uint svc, sd_data_len = 0, sd_data = None\<rparr>
              (drop (length h) (apdu_trans_blk U)) (xs @ rest) (int (length xs)) (u_world U)) = Inr (ret, sd, part, w)"
    and "length part = MAX_APDU - length h" and "ret = 0 \<Longrightarrow> answer_fits sd part"
  shows "\<exists>m' blk. apdu_handler sendto src (Some (h @ xs @ rest)) (of_nat (length h + length xs)) U =
      Inr (0, U\<lparr>apdu_trans_blk := blk, u_world := w, u_mpu := Some m'\<rparr>)
    \<and> umtp_ready (U\<lparr>apdu_trans_blk := blk, u_world := w, u_mpu := Some m'\<rparr>) m'
    \<and> sends m' = sends m @ [(src, (), answer flag svc sid ret (answer_data sd part))]
    \<and> q_pkts Recv_queue m' = q_pkts Recv_queue m"
proof -
  have good: "svc_good (u_svc U)" using assms(1) by (simp add: umtp_ready_def)
  have len: "length xs < 65536" using assms(4) by simp
  then have sint: "sint (of_nat (length xs) :: u32) = int (length xs)"
    using sint_small [of "int (length xs)"] by simp
  have nz: "(of_nat (length xs) :: u32) = 0 \<longleftrightarrow> xs = []"
    using word_nz_small [of "int (length xs)"] len by auto
  have h: "service_handler (u_svc U) src \<lparr>sd_service_id = uint svc, sd_data_len = 0, sd_data = None\<rparr>
      (drop (length h) (apdu_trans_blk U)) (Some (xs @ rest)) (of_nat (length xs)) (u_world U) = Inr (ret, sd, part, w)"
    using assms(5) by (cases "xs = []") (simp_all add: service_handler_good [OF good] nz sint cong: option.case_cong)
  show ?thesis
    by (rule apdu_handler_request [OF assms(1,2) arg_cong [OF assms(3)] assms(4) h assms(6,7), of sendto])
      (use assms(3) in auto)
qed

text \<open>Service 5 answers with the first byte of the request; service 6 is unknown.\<close>

theorem apdu_request_answered_witness:
  "\<exists>m' U'. apdu_handler ex_idle_net ex_addr (Some [1, 0, 5, 9, 7]) 5 ex_umtp = Inr (0, U') \<and> u_mpu U' = Some m'
      \<and> sends m' = [(ex_addr, (), [1, 1, 5, 9, 7])]
    \<and> (\<exists>m' U'. apdu_handler ex_idle_net ex_addr (Some [0, 0, 6, 7]) 4 ex_umtp = Inr (0, U') \<and> u_mpu U' = Some m'
      \<and> sends m' = [(ex_addr, (), [0, 2, 6, 254])])"
  using apdu_request_answered [OF ex_umtp_facts(1), of "[1, 0, 5, 9]" 1 5 9 "[7]" ex_addr "[]" 0
      "\<lparr>sd_service_id = 5, sd_data_len = 1, sd_data = None\<rparr>" "(replicate 1020 0)[0 := 7]" 1 ex_idle_net]
    apdu_request_answered [OF ex_umtp_facts(1), of "[0, 0, 6]" 0 6 0 "[7]" ex_addr "[]" "- ENOENT"
      "\<lparr>sd_service_id = 6, sd_data_len = 0, sd_data = None\<rparr>" "replicate 1021 0" 0 ex_idle_net]
  by (auto simp: ex_umtp_facts ex_mpu_facts ex_registered_facts hdr_def flag_facts apdu_has_session_id_def ex_service_def
      answer_fits_def answer_def answer_data_def take_Suc_conv_app_nth)

text \<open>C6. Submitting a request. On a running instance with room in the send queue, an unconfirmed request
  puts one message into the send queue, flag 0, type REQUEST, the service and the data, and leaves
  the sessions alone. A confirmed request, when a session is free, takes one: a number that is not
  0 and not in use, stores the message in it with the destination, the timeout function and the
  timer started, and sends the same message, which carries the number and the flag 1. Data that do
  not fit behind the header (3 or 4 bytes of 1024) overrun the local buffer: \<open>data_len\<close> is never
  checked. Without data the result is \<open>-EINVAL\<close>.\<close>

theorem umtp_apdu_submit_spec:
  assumes "umtp_ready U m" and "length (sends m) < 16" and "0 \<le> ad_data_len ad"
    and "nat (ad_data_len ad) \<le> length (ad_data ad)"
    and "confirmed ad \<Longrightarrow> 0 \<in> set (ids (u_sess U)) \<and> next_session_id (u_sess U) + 256 < INT_MAX"
    and "data = take (nat (ad_data_len ad)) (ad_data ad)" and "svc = word_of_int (ad_service ad)"
  shows "(if (if confirmed ad then MAX_APDU - 4 else MAX_APDU - 3) < length data
    then umtp_apdu_submit sendto env dst (Some ad) U = Inl Out_of_bounds
    else if \<not> confirmed ad
    then \<exists>m'. umtp_apdu_submit sendto env dst (Some ad) U = Inr (0, U\<lparr>u_mpu := Some m'\<rparr>)
      \<and> umtp_ready (U\<lparr>u_mpu := Some m'\<rparr>) m' \<and> sends m' = sends m @ [(dst, (), [0, 0, svc] @ data)]
    else \<exists>sid S' m'. umtp_apdu_submit sendto env dst (Some ad) U = Inr (0, U\<lparr>u_sess := S', u_mpu := Some m'\<rparr>)
      \<and> umtp_ready (U\<lparr>u_sess := S', u_mpu := Some m'\<rparr>) m'
      \<and> sid \<noteq> 0 \<and> sid \<notin> live (u_sess U) \<and> live S' = insert sid (live (u_sess U))
      \<and> awaits S' sid dst ([1, 0, svc, sid] @ data) \<and> sends m' = sends m @ [(dst, (), [1, 0, svc, sid] @ data)])
    \<and> umtp_apdu_submit sendto env dst None U = Inr (- EINVAL, U)"
proof -
  let ?L = "ad_data_len ad"
  have len: "length data = nat ?L" using assms(4,6) by simp
  have one: "apdu_has_session_id 1" by (simp add: apdu_has_session_id_def)
  have wf: "sess_wf (u_sess U)" using assms(1) by (simp add: umtp_ready_def)
  have un: "\<exists>m'. umtp_apdu_submit sendto env dst (Some ad) U = Inr (0, U\<lparr>u_mpu := Some m'\<rparr>)
      \<and> umtp_ready (U\<lparr>u_mpu := Some m'\<rparr>) m' \<and> sends m' = sends m @ [(dst, (), [0, 0, svc] @ data)]"
    if c: "\<not> confirmed ad" "nat ?L \<le> 1021"
  proof -
    let ?msg = "[0, 0, svc] @ data"
    let ?b = "?msg @ replicate (1021 - nat ?L) 0"
    have n: "nat (3 + ?L) = length ?msg" using assms(3) len by simp
    have "umtp_apdu_submit sendto env dst (Some ad) U = priv_umtp_apdu_submit sendto dst ?b (3 + ?L) U"
      using submit_unconfirmed [OF c(1) assms(3,4)] c(2) by (simp add: assms(6,7) hdr_def flag_facts Let_def)
    moreover have "3 + ?L \<le> int MAX_MPU_DATA" "nat (3 + ?L) \<le> length ?b" "0 \<le> 3 + ?L"
      unfolding n using assms(3) c(2) by simp_all
    moreover have "take (nat (3 + ?L)) ?b = ?msg" unfolding n by simp
    ultimately show ?thesis
      using priv_submit_ready [OF assms(1,2), of "3 + ?L" ?b sendto dst] by metis
  qed
  have co: "\<exists>sid S' m'. umtp_apdu_submit sendto env dst (Some ad) U = Inr (0, U\<lparr>u_sess := S', u_mpu := Some m'\<rparr>)
      \<and> umtp_ready (U\<lparr>u_sess := S', u_mpu := Some m'\<rparr>) m'
      \<and> sid \<noteq> 0 \<and> sid \<notin> live (u_sess U) \<and> live S' = insert sid (live (u_sess U))
      \<and> awaits S' sid dst ([1, 0, svc, sid] @ data) \<and> sends m' = sends m @ [(dst, (), [1, 0, svc, sid] @ data)]"
    if c: "confirmed ad" "nat ?L \<le> 1020"
  proof -
    have "0 \<in> set (ids (u_sess U))" "next_session_id (u_sess U) + 256 < INT_MAX" using assms(5) c(1) by auto
    then show ?thesis
      by (rule submit_confirmed_ready [OF assms(1-4) c _ _ assms(6,7), of sendto env dst]) blast
  qed
  have long: "umtp_apdu_submit sendto env dst (Some ad) U = Inl Out_of_bounds"
    if l: "(if confirmed ad then 1020 else 1021) < nat ?L"
  proof (cases "confirmed ad")
    case True
    then obtain sid S1 where "umtp_free_session (u_sess U) = Inr (sid, S1)" "sid \<noteq> 0"
      using umtp_free_session_returns [OF wf] assms(5) by metis
    then show ?thesis
      using submit_confirmed [OF True assms(3,4) wait_session_free] l True by simp
  next
    case False
    then show ?thesis using submit_unconfirmed [OF False assms(3,4)] l by simp
  qed
  show ?thesis using un co long len by (auto simp: umtp_apdu_submit_def [where apdu_data = None])
qed

theorem umtp_apdu_submit_spec_witness:
  "(\<exists>m' U'. umtp_apdu_submit ex_idle_net ex_quiet ex_addr (Some \<lparr>ad_service = 5, confirmed = False, ad_data = [7, 8], ad_data_len = 2\<rparr>)
      ex_umtp = Inr (0, U') \<and> u_mpu U' = Some m' \<and> sends m' = [(ex_addr, (), [0, 0, 5, 7, 8])])
   \<and> (\<exists>m' U' sid. umtp_apdu_submit ex_idle_net ex_quiet ex_addr (Some \<lparr>ad_service = 5, confirmed = True, ad_data = [7, 8], ad_data_len = 1\<rparr>)
      ex_umtp = Inr (0, U') \<and> u_mpu U' = Some m' \<and> sends m' = [(ex_addr, (), [1, 0, 5, sid, 7])]
      \<and> awaits (u_sess U') sid ex_addr [1, 0, 5, sid, 7])
   \<and> umtp_apdu_submit ex_idle_net ex_quiet ex_addr (Some \<lparr>ad_service = 5, confirmed = False, ad_data = replicate 1022 0, ad_data_len = 1022\<rparr>)
      ex_umtp = Inl Out_of_bounds"
  using umtp_apdu_submit_spec [OF ex_umtp_facts(1), of "\<lparr>ad_service = 5, confirmed = False, ad_data = [7, 8], ad_data_len = 2\<rparr>"
      "[7, 8]" 5 ex_idle_net ex_quiet ex_addr]
    umtp_apdu_submit_spec [OF ex_umtp_facts(1), of "\<lparr>ad_service = 5, confirmed = True, ad_data = [7, 8], ad_data_len = 1\<rparr>"
      "[7]" 5 ex_idle_net ex_quiet ex_addr]
    umtp_apdu_submit_spec [OF ex_umtp_facts(1), of "\<lparr>ad_service = 5, confirmed = False, ad_data = replicate 1022 0, ad_data_len = 1022\<rparr>"
      "replicate 1022 0" 5 ex_idle_net ex_quiet ex_addr]
  by (auto simp: ex_umtp_facts ex_mpu_facts ex_sess_facts)

text \<open>C7. What the other messages do. A RESPONSE calls the response handler of its service, if it has one and
  there are data, with the sender, the session it names (if it has the flag and the number is in
  use) and the data; an ERROR calls the error handler with the byte behind the header; a REJECT
  calls nothing. Each of them, whatever the service, then ends the session it names, and no other,
  and returns 0; it sends nothing and leaves the answer buffer alone.\<close>

theorem apdu_answer_handled:
  fixes flag svc sid :: u8
  assumes "svc_good (u_svc U)" and "sess_wf (u_sess U)" and "h = hdr flag type svc sid" and "length h + length xs < 65536"
    and "type \<in> {UMTP_PDU_RESPONSE, UMTP_PDU_ERROR, UMTP_PDU_REJECT}" and "type = UMTP_PDU_ERROR \<Longrightarrow> xs @ rest \<noteq> []"
    and "session = (if apdu_has_session_id flag then umtp_get_session sid (u_sess U) else None)"
    and "(if type = UMTP_PDU_REJECT \<or> type = UMTP_PDU_RESPONSE \<and> xs = [] then Inr (u_world U)
          else case svc_entries (u_svc U) (uint svc) of None \<Rightarrow> Inr (u_world U)
          | Some a \<Rightarrow>
              if type = UMTP_PDU_RESPONSE
              then (case rsp_handler (the (svc_mem (u_svc U) a)) of None \<Rightarrow> Inr (u_world U)
                | Some f \<Rightarrow> f src session (xs @ rest) (int (length xs)) (u_world U))
              else (case error_handler (the (svc_mem (u_svc U) a)) of None \<Rightarrow> Inr (u_world U)
                | Some f \<Rightarrow> f src (uint (hd (xs @ rest))) session (u_world U))) = Inr w"
  shows "\<exists>S'. apdu_handler sendto src (Some (h @ xs @ rest)) (of_nat (length h + length xs)) U =
      Inr (0, U\<lparr>u_world := w, u_sess := S'\<rparr>)
    \<and> sess_wf S' \<and> live S' = (if apdu_has_session_id flag then live (u_sess U) - {sid} else live (u_sess U))"
proof -
  obtain S' where "clear_session flag (if apdu_has_session_id flag then sid else 0) (U\<lparr>u_world := w\<rparr>)
      = Inr (0, U\<lparr>u_world := w\<rparr>\<lparr>u_sess := S'\<rparr>)"
    "sess_wf S'" "live S' = (if apdu_has_session_id flag then live (u_sess U) - {sid} else live (u_sess U))"
    by (rule clear_session_ok [of "U\<lparr>u_world := w\<rparr>" flag sid]) (use assms(2) in auto)
  then show ?thesis using apdu_answer_dispatch [OF assms(1,3-8), of sendto] by auto
qed

text \<open>A response of two bytes for session 1, and a REJECT of it.\<close>

definition ex_waiting :: "nat umtp" where
  "ex_waiting = ex_umtp\<lparr>u_sess := ex_wait\<rparr>"

lemma ex_waiting_facts: "svc_good (u_svc ex_waiting)" "sess_wf (u_sess ex_waiting)" "u_svc ex_waiting = ex_registered"
    "u_world ex_waiting = 0" "live (u_sess ex_waiting) = {1}"
  by (simp_all add: ex_waiting_def ex_umtp_facts ex_registered_facts ex_wait_facts)

theorem apdu_answer_handled_witness:
  "(\<exists>U'. apdu_handler ex_idle_net ex_addr (Some [1, 1, 5, 1, 8, 9]) 6 ex_waiting = Inr (0, U') \<and> u_world U' = 10 \<and> live (u_sess U') = {})
   \<and> (\<exists>U'. apdu_handler ex_idle_net ex_addr (Some [1, 3, 6, 1]) 4 ex_waiting = Inr (0, U') \<and> u_world U' = 0 \<and> live (u_sess U') = {})"
proof
  show "\<exists>U'. apdu_handler ex_idle_net ex_addr (Some [1, 1, 5, 1, 8, 9]) 6 ex_waiting = Inr (0, U') \<and> u_world U' = 10 \<and> live (u_sess U') = {}"
    using apdu_answer_handled [OF ex_waiting_facts(1,2), of "[1, 1, 5, 1]" 1 1 5 1 "[8, 9]" "[]" _ ex_addr 10 ex_idle_net, OF _ _ _ _ refl]
    by (auto simp: ex_waiting_facts ex_registered_facts hdr_def apdu_has_session_id_def ex_service_def)
  show "\<exists>U'. apdu_handler ex_idle_net ex_addr (Some [1, 3, 6, 1]) 4 ex_waiting = Inr (0, U') \<and> u_world U' = 0 \<and> live (u_sess U') = {}"
    using apdu_answer_handled [OF ex_waiting_facts(1,2), of "[1, 3, 6, 1]" 1 3 6 1 "[]" "[]" _ ex_addr 0 ex_idle_net, OF _ _ _ _ refl]
    by (auto simp: ex_waiting_facts hdr_def apdu_has_session_id_def)
qed

text \<open>C28. Malformed messages. A NULL message gives \<open>-EINVAL\<close>, a version other than 1 or a type of 4 and
  more \<open>-EPROTO\<close>, and a message of the version byte alone is ignored with 0; nothing is changed.
  The length is not checked against the header: a request with a session number that claims 1 to 3
  bytes behind the version is answered like any other, and its handler is called with the negative
  number of bytes \<open>k - 4\<close>.\<close>

theorem npdu_malformed:
  assumes "umtp_ready U m" and "length (sends m) < 16" and "1 \<le> k" and "k < 4" and "svc_entries (u_svc U) (uint svc) = Some a"
    and "the (req_handler (the (svc_mem (u_svc U) a))) src \<lparr>sd_service_id = uint svc, sd_data_len = 0, sd_data = None\<rparr>
          (drop 4 (apdu_trans_blk U)) bs (int k - 4) (u_world U) = Inr (ret, sd, part, w)"
    and "length part = MAX_APDU - 4" and "ret = 0 \<Longrightarrow> answer_fits sd part"
  shows "npdu_handler sendto src None n U = Inr (- EINVAL, U)
    \<and> (v \<noteq> FTTP_PROTOCOL_VERSION \<longrightarrow> npdu_handler sendto src (Some (v # bs)) n U = Inr (- EPROTO, U))
    \<and> (UMTP_PDU_TYPE_MAX \<le> type \<longrightarrow> 2 \<le> n \<longrightarrow>
        npdu_handler sendto src (Some (FTTP_PROTOCOL_VERSION # flag # type # bs)) n U = Inr (- EPROTO, U))
    \<and> npdu_handler sendto src (Some (FTTP_PROTOCOL_VERSION # bs)) 1 U = Inr (0, U)
    \<and> (\<exists>m' U'. npdu_handler sendto src (Some ([FTTP_PROTOCOL_VERSION, 1, UMTP_PDU_REQUEST, svc, sid] @ bs)) (of_nat (1 + k)) U
          = Inr (0, U') \<and> umtp_ready U' m' \<and> u_world U' = w
          \<and> sends m' = sends m @ [(src, (), answer 1 svc sid ret (answer_data sd part))])"
proof -
  have one: "apdu_has_session_id 1" by (simp add: apdu_has_session_id_def)
  have good: "svc_good (u_svc U)" using assms(1) by (simp add: umtp_ready_def)
  have t: "npdu_handler sendto src (Some (FTTP_PROTOCOL_VERSION # flag # type # bs)) n U = Inr (- EPROTO, U)"
    if "UMTP_PDU_TYPE_MAX \<le> type" "2 \<le> n"
  proof -
    have "0 < n" "n \<noteq> 1" using that(2) by (auto simp: word_le_def word_less_def)
    then show ?thesis using that(1) by (simp add: npdu_handler_version apdu_handler_type)
  qed
  have u: "uint (of_nat k :: u16) = int k" "uint (1 + of_nat k :: u16) = 1 + int k"
    using assms(4) uint_of_nat_small [of k] uint_of_nat_small [of "1 + k"] by simp_all
  have k: "sint (word_of_int (int k - 4) :: u32) = int k - 4" "(word_of_int (int k - 4) :: u32) \<noteq> 0"
    by (rule sint_small word_nz_small; use assms(3,4) in simp)+
  have "(1 + of_nat k :: u16) \<noteq> 1" "0 < (1 + of_nat k :: u16)"
    using u(2) assms(3) by (auto simp: word_uint_eq_iff word_less_def)
  then have eq: "npdu_handler sendto src (Some ([FTTP_PROTOCOL_VERSION, 1, UMTP_PDU_REQUEST, svc, sid] @ bs)) (of_nat (1 + k)) U
      = apdu_request sendto src 1 svc sid 4 (hdr 1 UMTP_PDU_REQUEST svc sid @ bs) (of_nat k) U"
    using apdu_handler_hdr [of 0 sendto src 1 svc sid bs "of_nat k" U]
    by (simp add: npdu_handler_version hdr_def one)
  have h: "service_handler (u_svc U) src \<lparr>sd_service_id = uint svc, sd_data_len = 0, sd_data = None\<rparr>
         (drop 4 (apdu_trans_blk U)) (Some (drop 4 (hdr 1 UMTP_PDU_REQUEST svc sid @ bs)))
         (word_of_int (uint (of_nat k :: u16) - int 4)) (u_world U) = Inr (ret, sd, part, w)"
    using assms(5,6) k by (simp add: u(1) service_handler_good [OF good] hdr_def one)
  obtain m' blk where "apdu_request sendto src 1 svc sid 4 (hdr 1 UMTP_PDU_REQUEST svc sid @ bs) (of_nat k) U =
      Inr (0, U\<lparr>apdu_trans_blk := blk, u_world := w, u_mpu := Some m'\<rparr>)"
    "umtp_ready (U\<lparr>apdu_trans_blk := blk, u_world := w, u_mpu := Some m'\<rparr>) m'"
    "sends m' = sends m @ [(src, (), answer 1 svc sid ret (answer_data sd part))]"
    by (rule apdu_request_ok [where flag = 1 and svc = svc and sid = sid, unfolded if_P [OF one], OF assms(1,2) h assms(7,8), of sendto])
  then show ?thesis
    using t eq by (auto simp: npdu_handler_def [where pdu = None] npdu_handler_def [where pdu = "Some (v # bs)"] npdu_handler_version)
qed

theorem npdu_malformed_witness:
  "\<exists>m' U'. npdu_handler ex_idle_net ex_addr (Some [1, 1, 0, 5, 9, 7]) 3 ex_umtp = Inr (0, U') \<and> umtp_ready U' m'
     \<and> sends m' = [(ex_addr, (), [1, 1, 5, 9, 7])]"
  using npdu_malformed [OF ex_umtp_facts(1), of 2 5 0 ex_addr "[7]" 0 "\<lparr>sd_service_id = 5, sd_data_len = 1, sd_data = None\<rparr>"
      "(replicate 1020 0)[0 := 7]" 1 ex_idle_net 0 0 4 0 9]
  by (fastforce simp: ex_umtp_facts ex_mpu_facts ex_registered_facts ex_service_def map_eq_Cons_conv
      answer_fits_def answer_def answer_data_def take_Suc_conv_app_nth hdr_def apdu_has_session_id_def)

text \<open>The bytes behind a short message count. \<open>apdu_handler\<close> does not look at the length before it reads
  the header, so what becomes of a message of two bytes, the version and a flag byte of 0, depends on
  the byte behind it in the packet, left by an earlier message or by \<open>malloc\<close>: it is refused, and so
  kept in the queue, with 4 there, and it is done with 3.\<close>

theorem short_message_reads_on:
  "npdu_handler sendto src (Some ([FTTP_PROTOCOL_VERSION, 0, 4, svc] @ bs)) 2 U = Inr (- EPROTO, U)
   \<and> npdu_handler sendto src (Some ([FTTP_PROTOCOL_VERSION, 0, 3, svc] @ bs)) 2 U = Inr (0, U)"
proof -
  have "\<not> apdu_has_session_id 0" by (simp add: apdu_has_session_id_def)
  then show ?thesis by (simp add: npdu_handler_version apdu_handler_def clear_session_def)
qed

text \<open>C29. Waiting for a session. \<open>umtp_apdu_submit\<close> of a confirmed request looks at the table again and
  again, sleeping in between; \<open>table_at env S k\<close> is the table at its \<open>k\<close>-th look. It gets a session
  exactly when some look finds a free slot, and then the one that \<open>umtp_free_session\<close> gives at the
  first such look, which no other request uses; if every look finds the table full it never returns.\<close>

theorem submit_waits_for_session:
  assumes "\<forall>k. sess_wf (table_at env (u_sess U) k) \<and> next_session_id (table_at env (u_sess U) k) + 256 < INT_MAX"
    and "confirmed ad"
  shows "((\<exists>r. wait_session env 0 (u_sess U) = Some r) \<longleftrightarrow> (\<exists>k. 0 \<in> set (ids (table_at env (u_sess U) k))))
    \<and> (\<forall>k. 0 \<in> set (ids (table_at env (u_sess U) k)) \<and> (\<forall>i < k. 0 \<notin> set (ids (table_at env (u_sess U) i))) \<longrightarrow>
        (\<exists>sid S1. wait_session env 0 (u_sess U) = Some (Inr (sid, S1)) \<and> sid \<noteq> 0
          \<and> umtp_free_session (table_at env (u_sess U) k) = Inr (sid, S1)
          \<and> sid \<notin> live (table_at env (u_sess U) k) \<and> live S1 = insert sid (live (table_at env (u_sess U) k))))
    \<and> ((\<forall>k. 0 \<notin> set (ids (table_at env (u_sess U) k))) \<longrightarrow>
        umtp_apdu_submit sendto env dst (Some ad) U = Inl No_return)"
proof -
  let ?T = "table_at env (u_sess U)"
  have first: "\<exists>sid S1. wait_session env 0 (u_sess U) = Some (Inr (sid, S1)) \<and> sid \<noteq> 0
          \<and> umtp_free_session (?T k) = Inr (sid, S1) \<and> sid \<notin> live (?T k) \<and> live S1 = insert sid (live (?T k))"
    if k: "0 \<in> set (ids (?T k))" "\<forall>i < k. 0 \<notin> set (ids (?T i))" for k
  proof -
    have wf: "sess_wf (?T k)" "next_session_id (?T k) + 256 < INT_MAX" using assms(1) by blast+
    obtain sid S1 where f: "umtp_free_session (?T k) = Inr (sid, S1)" "sess_alloc (?T k) sid S1" "sid \<noteq> 0"
      using umtp_free_session_returns [OF wf(1) k(1) wf(2)] by metis
    have "wait_session env 0 (u_sess U) = Some (Inr (sid, S1))"
      using wait_session_looks [of k env "u_sess U"] wait_session_free [OF f(1,3)] assms(1) k(2) by simp
    moreover have "sid \<notin> live (?T k)" "live S1 = insert sid (live (?T k))"
      using sess_alloc_wf(2) [OF f(2) wf(1)] f(2,3) by (simp_all add: sess_alloc_def live_iff)
    ultimately show ?thesis using f by blast
  qed
  have none: "wait_session env 0 (u_sess U) = None" if "\<forall>k. 0 \<notin> set (ids (?T k))"
    by (rule wait_session_never) (use that assms(1) in blast)
  have some: "\<exists>r. wait_session env 0 (u_sess U) = Some r" if "\<exists>k. 0 \<in> set (ids (?T k))"
  proof -
    from that obtain k where "0 \<in> set (ids (?T k))" "\<forall>i < k. 0 \<notin> set (ids (?T i))"
      using exists_least_iff [of "\<lambda>k. 0 \<in> set (ids (?T k))"] by blast
    then show ?thesis using first by blast
  qed
  have "umtp_apdu_submit sendto env dst (Some ad) U = Inl No_return" if "\<forall>k. 0 \<notin> set (ids (?T k))"
    using none [OF that] assms(2)
    unfolding umtp_apdu_submit_def option.case less_irrefl if_False Let_def submit_header
    by (simp add: flag_facts)
  moreover have "(\<exists>r. wait_session env 0 (u_sess U) = Some r) \<longleftrightarrow> (\<exists>k. 0 \<in> set (ids (?T k)))"
    using none some by (cases "\<exists>k. 0 \<in> set (ids (?T k))") simp_all
  ultimately show ?thesis by (intro conjI allI impI) (use first in blast)+
qed

text \<open>On the fresh table the first look succeeds.\<close>

theorem submit_waits_for_session_witness:
  "\<exists>sid S1. wait_session (\<lambda>k S. S) 0 ex_sess = Some (Inr (sid, S1)) \<and> sid \<noteq> 0 \<and> live S1 = {sid}"
proof -
  have T: "table_at (\<lambda>k S. S) ex_sess k = ex_sess" for k by (induction k) simp_all
  show ?thesis
    using submit_waits_for_session [of "\<lambda>k S. S" ex_umtp "\<lparr>ad_service = 5, confirmed = True, ad_data = [], ad_data_len = 0\<rparr>"]
    by (auto simp: ex_umtp_facts T ex_sess_facts live_def)
qed

end
