(* ===== verification/Umtp.thy ===== *)
theory Umtp
  imports Apdu
begin

text \<open>
  The protocol task of \<open>core/umtp.c\<close>: the two handlers that it gives to the message process unit, the
  turn of its own loop (receive, deliver, let time pass for the sessions), and the life cycle of an
  instance. The data link is the UDP one, so the function pointers \<open>init\<close>, \<open>exit\<close>, \<open>send_data\<close> and
  \<open>recv_data\<close> of \<open>struct umtp_dl\<close> are \<open>dludp_init\<close>, \<open>dludp_exit\<close>, \<open>dludp_send_data\<close> and
  \<open>dludp_recv_data\<close>.

  A handler of the message process unit works on the unit \<open>m\<close> and on the instance; the unit that the
  instance points to is \<open>m\<close>, so the field \<open>u_mpu\<close> is set to it for the call.
\<close>

section \<open>State and operations\<close>

definition priv_umtp_send_msg :: "'w sendto_fun \<Rightarrow> (unit, 'w umtp) mpu_handler" where
  "priv_umtp_send_msg sendto pkt mU =
     (case mU of (m, U) \<Rightarrow>
        bindE (npdu_send (map_option (dludp_send_data sendto) (u_dl U)) (p_addr pkt) (Some (p_buffer pkt))
            (uint (p_length pkt)) (u_world U)) (\<lambda>(ret, w). Inr (ret, m, U\<lparr>u_world := w\<rparr>)))"

definition priv_umtp_handle_msg :: "'w sendto_fun \<Rightarrow> (unit, 'w umtp) mpu_handler" where
  "priv_umtp_handle_msg sendto pkt mU =
     (case mU of (m, U) \<Rightarrow>
        bindE (npdu_handler sendto (p_addr pkt) (Some (p_buffer pkt)) (p_length pkt) (U\<lparr>u_mpu := Some m\<rparr>))
          (\<lambda>(ret, U'). case u_mpu U' of None \<Rightarrow> Inl Bad_pointer | Some m' \<Rightarrow> Inr (ret, m', U')))"

text \<open>The local variables of \<open>umtp_task\<close> that live across the turns of its loop.\<close>

record task_vars =
  last_seconds :: int
  task_src :: umtp_addr
  task_buf :: "u8 list"

text \<open>A received message goes into the queue, or in synchronous mode to the handler; the result is only logged.\<close>

definition umtp_deliver :: "'w sendto_fun \<Rightarrow> umtp_addr \<Rightarrow> u8 list \<Rightarrow> int \<Rightarrow> 'w umtp \<Rightarrow> 'w umtp res" where
  "umtp_deliver sendto src buf len U =
     (case u_conf U of
        None \<Rightarrow> Inl Bad_pointer
      | Some conf \<Rightarrow>
          if \<not> sync_mode conf
          then bindE (mpu_put_recv (u_mpu U) src () (Some buf) len) (\<lambda>(ret, m). Inr (U\<lparr>u_mpu := m\<rparr>))
          else bindE (npdu_handler sendto src (Some buf) (word_of_int len) U) (\<lambda>(ret, U'). Inr U'))"

text \<open>The two calls that \<open>umtp_session_process\<close> makes; neither touches the table of sessions.\<close>

definition resend_call :: "'w sendto_fun \<Rightarrow> 'w umtp \<Rightarrow> unit \<Rightarrow> umtp_addr \<Rightarrow> u8 list \<Rightarrow> int \<Rightarrow> 'w \<Rightarrow> 'w res" where
  "resend_call sendto U data dst pdu len w =
     bindE (npdu_send (map_option (dludp_send_data sendto) (u_dl U)) dst (Some pdu) len w) (\<lambda>(ret, w'). Inr w')"

definition expire_call :: "'w umtp \<Rightarrow> unit \<Rightarrow> umtp_addr \<Rightarrow> u8 list \<Rightarrow> int \<Rightarrow> 'w \<Rightarrow> 'w res" where
  "expire_call U tmo dst pdu len w = apdu_timeout_handler (u_svc U) dst pdu len w"

definition umtp_elapse :: "'w sendto_fun \<Rightarrow> u16 \<Rightarrow> 'w umtp \<Rightarrow> 'w umtp res" where
  "umtp_elapse sendto ms U =
     bindE (umtp_session_process (quiet_send (resend_call sendto U)) (quiet_tmo (expire_call U)) ms (u_sess U, u_world U))
       (\<lambda>(S, w). Inr (U\<lparr>u_sess := S, u_world := w\<rparr>))"

text \<open>
  One turn of the loop, with what \<open>time\<close> returns and what the socket does: whether the loop goes on
  (\<open>False\<close>: \<open>break\<close>), the local variables and the instance. \<open>elapsed_milliseconds\<close> is a \<open>uint32_t\<close> that
  is passed as a \<open>uint16_t\<close>.
\<close>

definition umtp_turn ::
  "'w sendto_fun \<Rightarrow> int \<times> udp_event \<Rightarrow> task_vars \<times> 'w umtp \<Rightarrow> (bool \<times> task_vars \<times> 'w umtp) res"
where
  "umtp_turn sendto ev TU =
     (case (ev, TU) of ((current_seconds, e), (T, U)) \<Rightarrow>
        (case u_dl U of
           None \<Rightarrow> Inl Bad_pointer
         | Some dl \<Rightarrow>
             bindE (dludp_recv_data (Some dl) (Some (task_src T)) (Some (task_buf T)) (int MAX_PDU) 1000 e (u_world U))
               (\<lambda>(len, src, buf, w).
             let T1 = T\<lparr>task_src := the src, task_buf := the buf\<rparr>; U1 = U\<lparr>u_world := w\<rparr> in
             if len < 0 \<and> len \<noteq> - ETIMEDOUT then Inr (False, T1, U1)
             else bindE (if len > 0 then umtp_deliver sendto (task_src T1) (task_buf T1) len U1 else Inr U1) (\<lambda>U2.
             let elapsed_seconds = word_of_int (current_seconds - last_seconds T1) :: u32 in
             if elapsed_seconds \<noteq> 0
             then bindE (umtp_elapse sendto (ucast (elapsed_seconds * 1000)) U2) (\<lambda>U3.
                  Inr (True, T1\<lparr>last_seconds := current_seconds\<rparr>, U3))
             else Inr (True, T1, U2)))))"

text \<open>
  The loop. \<open>ev k\<close> is what the \<open>k\<close>-th turn sees, \<open>env k\<close> what the other threads do to the instance
  during it. A task that is never told to end and never fails to receive does not return.
\<close>

partial_function (option) umtp_task_loop ::
  "'w sendto_fun \<Rightarrow> (nat \<Rightarrow> int \<times> udp_event) \<Rightarrow> (nat \<Rightarrow> 'w umtp \<Rightarrow> 'w umtp) \<Rightarrow> nat \<Rightarrow> task_vars \<times> 'w umtp
   \<Rightarrow> 'w umtp res option"
where
  "umtp_task_loop sendto ev env k TU =
     (if \<not> u_running (snd TU) then Some (Inr ((snd TU)\<lparr>u_running := False\<rparr>))
      else case umtp_turn sendto (ev k) TU of
          Inl e \<Rightarrow> Some (Inl e)
        | Inr r \<Rightarrow>
            (case r of (go, T, U) \<Rightarrow>
               if go then umtp_task_loop sendto ev env (Suc k) (T, env k U)
               else Some (Inr (U\<lparr>u_running := False\<rparr>))))"

text \<open>
  What \<open>umtp_start\<close> is told by the system: the memory for the message process unit (\<open>None\<close>: none),
  the results of the two \<open>pthread_create\<close>, and the answers to \<open>dludp_init\<close>.
\<close>

record start_os =
  so_mpu :: "(unit mpu \<times> nat \<times> nat) option"
  so_mpu_task :: int
  so_init :: os_init
  so_task :: int

text \<open>
  The part of \<open>umtp_start\<close> that sets up the message process unit: the result, whether the unit was
  freed again (the field \<open>mpu\<close> still points to it then), and the field.
\<close>

definition start_mpu :: "start_os \<Rightarrow> umtp_conf \<Rightarrow> unit mpu option \<Rightarrow> int \<times> bool \<times> unit mpu option" where
  "start_mpu os conf mp =
     (if sync_mode conf then (0, False, mp)
      else case mpu_create (so_mpu os) of (ret, mp1) \<Rightarrow>
        if ret \<noteq> 0 then (ret, False, mp1)
        else case mpu_start (so_mpu_task os) mp1 of (ret, mp2) \<Rightarrow> (ret, ret \<noteq> 0, mp2))"

definition umtp_start :: "start_os \<Rightarrow> 'w umtp option \<Rightarrow> (int \<times> bool \<times> 'w umtp option) res" where
  "umtp_start os um =
     (case um of
        None \<Rightarrow> Inr (- EINVAL, False, None)
      | Some U \<Rightarrow>
          if u_dl U = None then Inr (- EINVAL, False, Some U)
          else case u_conf U of
            None \<Rightarrow> Inr (- EINVAL, False, Some U)
          | Some conf \<Rightarrow>
              (case start_mpu os conf (u_mpu U) of (ret, freed, mp) \<Rightarrow>
                 let U1 = U\<lparr>u_mpu := mp\<rparr> in
                 if ret \<noteq> 0 then Inr (ret, freed, Some U1)
                 else bindE (dludp_init (so_init os) (u_dl U1)) (\<lambda>(ret, _, dl).
                   let U2 = U1\<lparr>u_dl := dl\<rparr> in
                   if ret \<noteq> 0 then Inr (ret, False, Some U2)
                   else if so_task os \<noteq> 0 then Inr (so_task os, False, Some (U2\<lparr>u_running := False\<rparr>))
                   else Inr (0, False, Some (U2\<lparr>u_running := True\<rparr>)))))"

text \<open>
  \<open>umtp_stop\<close> up to the \<open>pthread_join\<close> of the task of the instance: the descriptors closed, whether the
  unit is freed, and the instance that the task (\<open>umtp_task_loop\<close>), which is joined then, still works on.
  The task of the message process unit is joined in \<open>mpu_stop\<close>, which \<open>at\<close> is for; its handlers see the
  data link closed. \<open>freed\<close> says that the field \<open>mpu\<close> points to freed memory before the call.
\<close>

definition umtp_stop ::
  "'w sendto_fun \<Rightarrow> int option \<Rightarrow> bool \<Rightarrow> 'w umtp option \<Rightarrow> (int list \<times> bool \<times> 'w umtp option) res"
where
  "umtp_stop sendto at freed um =
     (case um of
        None \<Rightarrow> Inr ([], freed, None)
      | Some U \<Rightarrow>
          if u_dl U = None then Inl Bad_pointer
          else case dludp_exit (u_dl U) of (closed, dl) \<Rightarrow>
            let U1 = U\<lparr>u_dl := dl\<rparr> in
            (case u_mpu U1 of
               None \<Rightarrow> Inr (closed, freed, Some (U1\<lparr>u_running := True\<rparr>))
             | Some m \<Rightarrow>
                 if freed then Inl Bad_pointer
                 else bindE (if mpu_running m \<noteq> 0
                     then mpu_stop (Some (priv_umtp_handle_msg sendto)) (Some (priv_umtp_send_msg sendto)) at (Some m) U1
                     else Inr (Some m, U1))
                   (\<lambda>(mp, U2). Inr (closed, True, Some (U2\<lparr>u_running := True, u_mpu := mp\<rparr>)))))"

text \<open>
  \<open>umtp_alloc\<close> zeroes the fields of a new instance; \<open>G\<close> holds the static variables of the program.
  \<open>umtp_free\<close> stops a running instance first; nothing is left of it.
\<close>

definition umtp_alloc :: "bool \<Rightarrow> umtp_conf option \<Rightarrow> 'w umtp_dl option \<Rightarrow> 'w umtp \<Rightarrow> 'w umtp option" where
  "umtp_alloc malloc_ok conf dl G =
     (if dl = None then None
      else if \<not> malloc_ok then None
      else Some (G\<lparr>u_conf := Some (case conf of None \<Rightarrow> \<lparr>sync_mode = False\<rparr> | Some c \<Rightarrow> c), u_dl := dl,
        u_mpu := None, u_running := False\<rparr>))"

definition umtp_free :: "'w sendto_fun \<Rightarrow> int option \<Rightarrow> bool \<Rightarrow> 'w umtp option \<Rightarrow> (int list \<times> bool) res" where
  "umtp_free sendto at freed um =
     (case um of
        None \<Rightarrow> Inr ([], freed)
      | Some U \<Rightarrow>
          if u_running U then bindE (umtp_stop sendto at freed (Some U)) (\<lambda>(closed, freed', _). Inr (closed, freed'))
          else Inr ([], freed))"

definition umtp_send_message ::
  "'w sendto_fun \<Rightarrow> (nat \<Rightarrow> (unit, unit) session_state \<Rightarrow> (unit, unit) session_state)
   \<Rightarrow> umtp_addr \<Rightarrow> apdu_data option \<Rightarrow> 'w umtp \<Rightarrow> (int \<times> 'w umtp) res"
where
  "umtp_send_message sendto env dst data U = umtp_apdu_submit sendto env dst data U"

section \<open>Sending and receiving\<close>

text \<open>One turn of the message process unit's task on the instance.\<close>

definition umtp_mpu_turn :: "'w sendto_fun \<Rightarrow> int \<Rightarrow> 'w umtp \<Rightarrow> 'w umtp res" where
  "umtp_mpu_turn sendto ret U =
     (case u_mpu U of
        None \<Rightarrow> Inl Bad_pointer
      | Some m \<Rightarrow>
          bindE (mpu_turn (Some (priv_umtp_handle_msg sendto)) (Some (priv_umtp_send_msg sendto)) ret (m, U))
            (\<lambda>(go, locked, m', U'). Inr (U'\<lparr>u_mpu := Some m'\<rparr>)))"

text \<open>A running instance on an open, unencrypted data link, with nothing in its queues.\<close>

definition idle :: "'w umtp \<Rightarrow> unit mpu \<Rightarrow> 'w umtp_dl \<Rightarrow> bool" where
  "idle U m dl \<longleftrightarrow> umtp_ready U m \<and> u_dl U = Some dl \<and> 0 \<le> socket dl \<and> dl_encrypt dl = None \<and> dl_decrypt dl = None
     \<and> q_pkts Recv_queue m = [] \<and> q_pkts Send_queue m = []"

definition vars_ok :: "task_vars \<Rightarrow> bool" where
  "vars_ok T \<longleftrightarrow> addr_wf (task_src T) \<and> length (task_buf T) = MAX_PDU"

text \<open>A network that takes every frame; \<open>log\<close> says what it does to the world.\<close>

definition takes_frames :: "'w sendto_fun \<Rightarrow> ('w \<Rightarrow> u8 list \<Rightarrow> u32 \<Rightarrow> u16 \<Rightarrow> 'w) \<Rightarrow> bool" where
  "takes_frames sendto log \<longleftrightarrow> (\<forall>fd frame a p w. sendto fd frame a p w = (int (length frame), 0, log w frame a p))"

text \<open>The address that \<open>dludp_recv_data\<close> stores for a sender, and where a message to it goes.\<close>

definition from_addr :: "umtp_addr \<Rightarrow> u32 \<Rightarrow> u16 \<Rightarrow> umtp_addr" where
  "from_addr old a p = old\<lparr>addr_len := 6, addr := u32_bytes a @ u16_bytes p @ drop 6 (addr old)\<rparr>"

lemma from_addr_facts: "addr_wf old \<Longrightarrow> addr_wf (from_addr old a p)" "addr_wf old \<Longrightarrow> dest_of dl (from_addr old a p) = (a, p)"
  by (simp_all add: from_addr_def dest_of_def)

lemma send_msg_ok:
  assumes "u_dl U = Some dl" and "0 \<le> socket dl" and "dl_encrypt dl = None" and "addr_wf (p_addr x)"
    and "p_buffer x = bs @ rest" and "p_length x = of_nat (length bs)" and "bs \<noteq> []" and "length bs \<le> MAX_APDU"
  shows "priv_umtp_send_msg sendto x (m, U) =
    (case sendto (socket dl) (UMTP_SIGNATURE # FTTP_PROTOCOL_VERSION # bs)
         (fst (dest_of dl (p_addr x))) (snd (dest_of dl (p_addr x))) (u_world U) of
       (n, e, w) \<Rightarrow> Inr (if n \<noteq> int (length bs) + 2 then - e else 0, m, U\<lparr>u_world := w\<rparr>))"
proof -
  have len: "uint (p_length x) = int (length bs)" using assms(6,8) by (simp add: uint_of_nat_small)
  have "0 < length bs" using assms(7) by simp
  then show ?thesis
    using npdu_send_udp [OF assms(2-4), of "int (length bs)" "p_buffer x" sendto "u_world U"] assms(1,5,8)
    by (simp add: priv_umtp_send_msg_def len split: prod.split)
qed

lemma send_msg_logged:
  assumes "mpu_wf m0" and "x \<in> set (q_pkts q m0)" and "pkt_msg x = (dst, (), bs)" and "takes_frames sendto log"
    and "u_dl U = Some dl" and "0 \<le> socket dl" and "dl_encrypt dl = None" and "addr_wf dst" and "bs \<noteq> []" and "length bs \<le> MAX_APDU"
  shows "priv_umtp_send_msg sendto x (m, U) =
    Inr (0, m, U\<lparr>u_world := log (u_world U) (UMTP_SIGNATURE # FTTP_PROTOCOL_VERSION # bs) (fst (dest_of dl dst)) (snd (dest_of dl dst))\<rparr>)"
proof -
  have "length bs < MAX_MPU_DATA" using assms(10) by simp
  from pkt_msg_buffer [OF assms(1-3) this] obtain rest where "p_buffer x = bs @ rest" "p_length x = of_nat (length bs)" "p_addr x = dst"
    by metis
  then show ?thesis
    using send_msg_ok [OF assms(5-7), of x bs rest sendto m] assms(4,8-10) by (simp add: takes_frames_def)
qed

text \<open>A frame from another host, in a turn in which no second passes, ends up in the receive queue.\<close>

lemma umtp_turn_data:
  assumes "umtp_ready U m" and "u_dl U = Some dl" and "0 \<le> socket dl" and "dl_decrypt dl = None" and "vars_ok T"
    and "length (q_pkts Recv_queue m) < 16" and "\<not> (a = dl_addr dl \<and> uint p = port dl)" and "bs \<noteq> []" and "length bs \<le> MAX_MPU_DATA"
  obtains T' m' where "umtp_turn sendto (last_seconds T, Datagram a p (UMTP_SIGNATURE # bs)) (T, U) = Inr (True, T', U\<lparr>u_mpu := Some m'\<rparr>)"
    and "umtp_ready (U\<lparr>u_mpu := Some m'\<rparr>) m'" and "vars_ok T'" and "last_seconds T' = last_seconds T"
    and "map pkt_msg (q_pkts Recv_queue m') = map pkt_msg (q_pkts Recv_queue m) @ [(from_addr (task_src T) a p, (), bs)]"
    and "q_pkts Send_queue m' = q_pkts Send_queue m"
proof -
  let ?f = "UMTP_SIGNATURE # bs"
  let ?buf = "bs @ drop (length bs) (task_buf T)"
  have T: "addr_wf (task_src T)" "length (task_buf T) = MAX_PDU" using assms(5) by (simp_all add: vars_ok_def)
  have m: "mpu_wf m" "mpu_running m \<noteq> 0" "u_mpu U = Some m" "u_conf U = Some \<lparr>sync_mode = False\<rparr>"
    using assms(1) by (simp_all add: umtp_ready_def)
  have pos: "0 < int (length bs)" using assms(8) by simp
  have recv: "dludp_recv_data (Some dl) (Some (task_src T)) (Some (task_buf T)) (int MAX_PDU) 1000 (Datagram a p ?f) (u_world U)
      = Inr (int (length bs), Some (from_addr (task_src T) a p), Some ?buf, u_world U)"
    using dludp_recv_plain [OF assms(3,4) T(1), of ?f "task_buf T" 1000 a p "u_world U"] assms(7,9) T(2)
    by (auto simp: from_addr_def simp del: dludp_recv_data.simps)
  obtain m' where put: "mpu_put Recv_queue (Some m) (from_addr (task_src T) a p) () (Some ?buf) (int (length bs)) = Inr (0, Some m')"
    and m': "mpu_wf m'" "map pkt_msg (q_pkts Recv_queue m') = map pkt_msg (q_pkts Recv_queue m) @ [(from_addr (task_src T) a p, (), bs)]"
      "q_pkts Send_queue m' = q_pkts Send_queue m" "mpu_running m' = mpu_running m"
    by (rule mpu_put_ok [OF m(1,2) assms(6), of "int (length bs)" ?buf "from_addr (task_src T) a p" "()"]) (use assms(9) in simp_all)
  let ?T = "T\<lparr>task_src := from_addr (task_src T) a p, task_buf := ?buf\<rparr>"
  have "umtp_turn sendto (last_seconds T, Datagram a p ?f) (T, U) = Inr (True, ?T, U\<lparr>u_mpu := Some m'\<rparr>)"
    using assms(2) pos m(3,4) recv
    by (simp add: umtp_turn_def umtp_deliver_def mpu_put_recv_def put Let_def del: dludp_recv_data.simps)
  moreover have "vars_ok ?T" using T from_addr_facts(1) assms(9) by (simp add: vars_ok_def)
  moreover have "umtp_ready (U\<lparr>u_mpu := Some m'\<rparr>) m'" using assms(1) m' by (simp add: umtp_ready_def)
  ultimately show ?thesis using that [of ?T m'] m' by simp
qed

section \<open>A request and its answer\<close>

lemma client_sends:
  assumes "idle C m dl" and "takes_frames sendto log" and "addr_wf dst" and "confirmed ad" and "0 \<le> ad_data_len ad"
    and "nat (ad_data_len ad) \<le> length (ad_data ad)" and "nat (ad_data_len ad) \<le> 1020"
    and "0 \<in> set (ids (u_sess C))" and "next_session_id (u_sess C) + 256 < INT_MAX"
    and "d = take (nat (ad_data_len ad)) (ad_data ad)" and "svc = word_of_int (ad_service ad)"
  obtains sid C1 C2 m2 where "umtp_send_message sendto env dst (Some ad) C = Inr (0, C1)" and "umtp_mpu_turn sendto 0 C1 = Inr C2"
    and "idle C2 m2 dl" and "sid \<noteq> 0" and "sid \<notin> live (u_sess C)" and "live (u_sess C2) = insert sid (live (u_sess C))"
    and "awaits (u_sess C2) sid dst ([1, 0, svc, sid] @ d)" and "u_svc C2 = u_svc C"
    and "u_world C2 = log (u_world C) ([UMTP_SIGNATURE, FTTP_PROTOCOL_VERSION, 1, 0, svc, sid] @ d)
      (fst (dest_of dl dst)) (snd (dest_of dl dst))"
proof -
  have r: "umtp_ready C m" "length (sends m) < 16" and C: "u_dl C = Some dl" "0 \<le> socket dl" "dl_encrypt dl = None"
    and q: "q_pkts Recv_queue m = []" "sends m = []"
    using assms(1) by (simp_all add: idle_def)
  obtain sid S' m' where sub: "umtp_apdu_submit sendto env dst (Some ad) C = Inr (0, C\<lparr>u_sess := S', u_mpu := Some m'\<rparr>)"
    "umtp_ready (C\<lparr>u_sess := S', u_mpu := Some m'\<rparr>) m'" "sid \<noteq> 0" "sid \<notin> live (u_sess C)" "live S' = insert sid (live (u_sess C))"
    "awaits S' sid dst ([1, 0, svc, sid] @ d)" "sends m' = sends m @ [(dst, (), [1, 0, svc, sid] @ d)]"
    "q_pkts Recv_queue m' = q_pkts Recv_queue m"
    by (rule submit_confirmed_ready [OF r assms(5,6,4,7-11), of sendto env dst])
  let ?C1 = "C\<lparr>u_sess := S', u_mpu := Some m'\<rparr>"
  let ?msg = "[1, 0, svc, sid] @ d"
  have m': "mpu_wf m'" "mpu_running m' \<noteq> 0" using sub(2) by (simp_all add: umtp_ready_def)
  from sub(7) q(2) obtain x where x: "q_pkts Send_queue m' = [x]" "pkt_msg x = (dst, (), ?msg)" by auto
  let ?w = "log (u_world ?C1) (UMTP_SIGNATURE # FTTP_PROTOCOL_VERSION # ?msg) (fst (dest_of dl dst)) (snd (dest_of dl dst))"
  have send: "priv_umtp_send_msg sendto x (m', ?C1) = Inr (0, m', ?C1\<lparr>u_world := ?w\<rparr>)"
    by (rule send_msg_logged [where q = Send_queue, OF m'(1) _ x(2) assms(2) _ C(2,3) assms(3)])
      (use x(1) C(1) assms(6,7,10) in simp_all)
  obtain m2 where m2: "mpu_turn (Some (priv_umtp_handle_msg sendto)) (Some (priv_umtp_send_msg sendto)) 0 (m', ?C1)
      = Inr (True, False, m2, ?C1\<lparr>u_world := ?w\<rparr>)" "mpu_wf m2" "q_pkts Recv_queue m2 = []" "q_pkts Send_queue m2 = []"
      "mpu_running m2 = mpu_running m'"
    by (rule mpu_turn_send_one [of m' x "priv_umtp_send_msg sendto" ?C1 "?C1\<lparr>u_world := ?w\<rparr>"
          "Some (priv_umtp_handle_msg sendto)"])
      (use m' x(1) send sub(8) q(1) in simp_all)
  let ?C2 = "?C1\<lparr>u_world := ?w, u_mpu := Some m2\<rparr>"
  have "umtp_mpu_turn sendto 0 ?C1 = Inr ?C2" using m2(1) by (simp add: umtp_mpu_turn_def)
  moreover have "idle ?C2 m2 dl" using assms(1) sub(2) m2(2-5) by (simp add: idle_def umtp_ready_def)
  ultimately show ?thesis
    using that [of ?C1 ?C2 m2 sid] sub(1,3-6) by (simp add: umtp_send_message_def)
qed

lemma handle_msg_apdu:
  assumes "p_buffer x = (FTTP_PROTOCOL_VERSION # bs) @ rest" and "p_length x = of_nat (length (FTTP_PROTOCOL_VERSION # bs))"
    and "bs \<noteq> []" and "length bs < 65535"
  shows "priv_umtp_handle_msg sendto x (m, U) =
    bindE (apdu_handler sendto (p_addr x) (Some (bs @ rest)) (of_nat (length bs)) (U\<lparr>u_mpu := Some m\<rparr>))
      (\<lambda>(ret, U'). case u_mpu U' of None \<Rightarrow> Inl Bad_pointer | Some m' \<Rightarrow> Inr (ret, m', U'))"
proof -
  have u: "uint (p_length x) = int (length bs) + 1"
    using assms(4) uint_of_nat_small [of "length bs + 1"] by (simp add: assms(2))
  have "0 < p_length x" "p_length x \<noteq> 1" using u assms(3) by (auto simp: word_less_def word_uint_eq_iff)
  moreover have "p_length x - 1 = of_nat (length bs)" by (simp add: assms(2))
  ultimately show ?thesis using assms(1) by (simp add: priv_umtp_handle_msg_def npdu_handler_version)
qed

lemma server_handles:
  assumes "idle V m dl" and "takes_frames sendto log" and "vars_ok T" and "\<not> (a = dl_addr dl \<and> uint p = port dl)"
    and "length d \<le> 1020"
    and "\<And>rest. service_handler (u_svc V) (from_addr (task_src T) a p) \<lparr>sd_service_id = uint svc, sd_data_len = 0, sd_data = None\<rparr>
        (drop 4 (apdu_trans_blk V)) (Some (d @ rest)) (of_nat (length d)) (u_world V) = Inr (ret, sd, part, w)"
    and "length part = MAX_APDU - 4" and "ret = 0 \<Longrightarrow> answer_fits sd part"
  obtains T' V1 V2 m2 where "umtp_turn sendto (last_seconds T, Datagram a p ([UMTP_SIGNATURE, FTTP_PROTOCOL_VERSION, 1, 0, svc, sid] @ d)) (T, V)
      = Inr (True, T', V1)" and "vars_ok T'"
    and "umtp_mpu_turn sendto 0 V1 = Inr V2" and "idle V2 m2 dl" and "u_sess V2 = u_sess V" and "u_svc V2 = u_svc V"
    and "last_seconds T' = last_seconds T"
    and "u_world V2 = log w ([UMTP_SIGNATURE, FTTP_PROTOCOL_VERSION] @ answer 1 svc sid ret (answer_data sd part)) a p"
proof -
  let ?src = "from_addr (task_src T) a p"
  let ?msg = "[1, 0, svc, sid] @ d"
  let ?ans = "answer 1 svc sid ret (answer_data sd part)"
  have one: "apdu_has_session_id 1" by (simp add: apdu_has_session_id_def)
  have h: "hdr 1 UMTP_PDU_REQUEST svc sid = [1, 0, svc, sid]" by (simp add: hdr_def one)
  have V: "umtp_ready V m" "u_dl V = Some dl" "0 \<le> socket dl" "dl_decrypt dl = None" "dl_encrypt dl = None"
    "length (q_pkts Recv_queue m) < 16" "q_pkts Recv_queue m = []" "sends m = []"
    using assms(1) by (simp_all add: idle_def)
  obtain T' m1 where t: "umtp_turn sendto (last_seconds T, Datagram a p (UMTP_SIGNATURE # FTTP_PROTOCOL_VERSION # ?msg)) (T, V)
      = Inr (True, T', V\<lparr>u_mpu := Some m1\<rparr>)" "umtp_ready (V\<lparr>u_mpu := Some m1\<rparr>) m1" "vars_ok T'" "last_seconds T' = last_seconds T"
    "map pkt_msg (q_pkts Recv_queue m1) = map pkt_msg (q_pkts Recv_queue m) @ [(?src, (), FTTP_PROTOCOL_VERSION # ?msg)]"
    "q_pkts Send_queue m1 = q_pkts Send_queue m"
    by (rule umtp_turn_data [OF V(1-4) assms(3) V(6) assms(4), of "FTTP_PROTOCOL_VERSION # ?msg" sendto])
      (use assms(5) in simp_all)
  let ?V1 = "V\<lparr>u_mpu := Some m1\<rparr>"
  have m1: "mpu_wf m1" "mpu_running m1 \<noteq> 0" using t(2) by (simp_all add: umtp_ready_def)
  from t(5) V(7) obtain x where x: "q_pkts Recv_queue m1 = [x]" "pkt_msg x = (?src, (), FTTP_PROTOCOL_VERSION # ?msg)" by auto
  have "x \<in> set (q_pkts Recv_queue m1)" "length (FTTP_PROTOCOL_VERSION # ?msg) < MAX_MPU_DATA" using x(1) assms(5) by simp_all
  from pkt_msg_buffer [OF m1(1) this(1) x(2) this(2)] obtain rest where px: "p_buffer x = (FTTP_PROTOCOL_VERSION # ?msg) @ rest"
    "p_length x = of_nat (length (FTTP_PROTOCOL_VERSION # ?msg))" "p_addr x = ?src" by metis
  have sh: "service_handler (u_svc ?V1) ?src \<lparr>sd_service_id = uint svc, sd_data_len = 0, sd_data = None\<rparr>
         (drop 4 (apdu_trans_blk ?V1)) (Some (d @ rest)) (of_nat (length d)) (u_world ?V1) = Inr (ret, sd, part, w)"
    using assms(6) by simp
  have room: "length (sends m1) < 16" "sends m1 = []" using t(6) V(8) by simp_all
  have four: "4 = length (hdr 1 UMTP_PDU_REQUEST svc sid)" "4 + length d < 65536" using assms(5) by (simp_all add: h)
  obtain m' blk where hd: "apdu_handler sendto ?src (Some (hdr 1 UMTP_PDU_REQUEST svc sid @ d @ rest)) (of_nat (4 + length d)) ?V1 =
      Inr (0, ?V1\<lparr>apdu_trans_blk := blk, u_world := w, u_mpu := Some m'\<rparr>)"
    "umtp_ready (?V1\<lparr>apdu_trans_blk := blk, u_world := w, u_mpu := Some m'\<rparr>) m'"
    "sends m' = sends m1 @ [(?src, (), ?ans)]" "q_pkts Recv_queue m' = q_pkts Recv_queue m1"
    by (rule apdu_handler_request [OF t(2) room(1) four sh assms(7,8), of sendto])
  let ?V2 = "V\<lparr>apdu_trans_blk := blk, u_world := w, u_mpu := Some m'\<rparr>"
  have rx: "priv_umtp_handle_msg sendto x (m1, ?V1) = Inr (0, m', ?V2)"
    using handle_msg_apdu [OF px(1,2), of sendto m1 ?V1] hd(1) assms(5) by (simp add: px(3) h)
  have m': "mpu_wf m'" "mpu_running m' \<noteq> 0" using hd(2) by (simp_all add: umtp_ready_def)
  from hd(3) room(2) obtain y where y: "q_pkts Send_queue m' = [y]" "pkt_msg y = (?src, (), ?ans)" by auto
  let ?w = "log w (UMTP_SIGNATURE # FTTP_PROTOCOL_VERSION # ?ans) a p"
  have la: "length ?ans \<le> MAX_APDU" "?ans \<noteq> []"
    using assms(7,8) by (auto simp: answer_def answer_data_def length_hdr one answer_fits_def hdr_def split: option.splits)
  have src: "addr_wf ?src" "dest_of dl ?src = (a, p)" using assms(3) from_addr_facts by (auto simp: vars_ok_def)
  have tx: "priv_umtp_send_msg sendto y (m'', ?V2) = Inr (0, m'', ?V2\<lparr>u_world := ?w\<rparr>)" for m''
    using send_msg_logged [OF m'(1) _ y(2) assms(2) _ V(3,5) src(1) la(2,1), of Send_queue ?V2 m''] y(1) V(2) src(2) by simp
  obtain m2 where m2: "mpu_turn (Some (priv_umtp_handle_msg sendto)) (Some (priv_umtp_send_msg sendto)) 0 (m1, ?V1)
      = Inr (True, False, m2, ?V2\<lparr>u_world := ?w\<rparr>)" "mpu_wf m2" "q_pkts Recv_queue m2 = []" "q_pkts Send_queue m2 = []"
      "mpu_running m2 \<noteq> 0"
  proof (rule mpu_turn_recv_one [of m1 x "priv_umtp_handle_msg sendto" ?V1 m' ?V2 "?V2\<lparr>u_world := ?w\<rparr>" "priv_umtp_send_msg sendto"])
    show "q_pkts Recv_queue m' = [x]" using hd(4) x(1) by simp
    show "q_pkts Send_queue m' = [] \<and> ?V2\<lparr>u_world := ?w\<rparr> = ?V2 \<or>
      (\<exists>y. q_pkts Send_queue m' = [y] \<and> (\<forall>m. priv_umtp_send_msg sendto y (m, ?V2) = Inr (0, m, ?V2\<lparr>u_world := ?w\<rparr>)))"
      using y(1) tx by blast
  qed (use m1 x(1) rx m' in simp_all)
  let ?V3 = "?V2\<lparr>u_world := ?w, u_mpu := Some m2\<rparr>"
  have "umtp_mpu_turn sendto 0 ?V1 = Inr ?V3" using m2(1) by (simp add: umtp_mpu_turn_def)
  moreover have "idle ?V3 m2 dl" using assms(1) hd(2) m2 m1(2) by (simp add: idle_def umtp_ready_def)
  ultimately show ?thesis using that [of T' ?V1 ?V3 m2] t(1,3,4) by simp
qed

lemma server_answers:
  assumes "idle V m dl" and "takes_frames sendto log" and "vars_ok T" and "\<not> (a = dl_addr dl \<and> uint p = port dl)"
    and "length d \<le> 1020" and "d \<noteq> []" and "svc_entries (u_svc V) (uint svc) = Some k"
    and "\<And>rest. the (req_handler (the (svc_mem (u_svc V) k))) (from_addr (task_src T) a p)
        \<lparr>sd_service_id = uint svc, sd_data_len = 0, sd_data = None\<rparr> (drop 4 (apdu_trans_blk V)) (d @ rest) (int (length d)) (u_world V)
      = Inr (ret, sd, part, w)"
    and "length part = MAX_APDU - 4" and "ret = 0 \<Longrightarrow> answer_fits sd part"
  obtains T' V1 V2 m2 where "umtp_turn sendto (last_seconds T, Datagram a p ([UMTP_SIGNATURE, FTTP_PROTOCOL_VERSION, 1, 0, svc, sid] @ d)) (T, V)
      = Inr (True, T', V1)" and "vars_ok T'"
    and "umtp_mpu_turn sendto 0 V1 = Inr V2" and "idle V2 m2 dl" and "u_sess V2 = u_sess V" and "u_svc V2 = u_svc V"
    and "last_seconds T' = last_seconds T"
    and "u_world V2 = log w ([UMTP_SIGNATURE, FTTP_PROTOCOL_VERSION] @ answer 1 svc sid ret (answer_data sd part)) a p"
proof -
  have len: "(of_nat (length d) :: u32) \<noteq> 0" "sint (of_nat (length d) :: u32) = int (length d)"
    using word_nz_small [of "int (length d)"] sint_small [of "int (length d)"] assms(5,6) by simp_all
  have "svc_good (u_svc V)" using assms(1) by (simp add: idle_def umtp_ready_def)
  then have sh: "service_handler (u_svc V) (from_addr (task_src T) a p) \<lparr>sd_service_id = uint svc, sd_data_len = 0, sd_data = None\<rparr>
      (drop 4 (apdu_trans_blk V)) (Some (d @ rest)) (of_nat (length d)) (u_world V) = Inr (ret, sd, part, w)" for rest
    using assms(7,8) len by (simp add: service_handler_good)
  show ?thesis by (rule server_handles [OF assms(1-5) sh assms(9,10)]) (assumption, rule that)
qed

lemma client_finishes:
  assumes "idle C m dl" and "vars_ok T" and "\<not> (a = dl_addr dl \<and> uint p = port dl)"
    and "length d \<le> 1020" and "d \<noteq> []" and "svc_entries (u_svc C) (uint svc) = Some k"
    and "rsp_handler (the (svc_mem (u_svc C) k)) = Some g"
    and "\<And>rest. g (from_addr (task_src T) a p) (umtp_get_session sid (u_sess C)) (d @ rest) (int (length d)) (u_world C) = Inr w"
  obtains T' C1 C2 m2 where "umtp_turn sendto (last_seconds T, Datagram a p ([UMTP_SIGNATURE, FTTP_PROTOCOL_VERSION, 1, 1, svc, sid] @ d)) (T, C)
      = Inr (True, T', C1)" and "vars_ok T'"
    and "umtp_mpu_turn sendto 0 C1 = Inr C2" and "idle C2 m2 dl" and "u_world C2 = w" and "live (u_sess C2) = live (u_sess C) - {sid}"
proof -
  let ?src = "from_addr (task_src T) a p"
  let ?msg = "[1, 1, svc, sid] @ d"
  have one: "apdu_has_session_id 1" by (simp add: apdu_has_session_id_def)
  have h: "[1, 1, svc, sid] = hdr 1 UMTP_PDU_RESPONSE svc sid" by (simp add: hdr_def one)
  have C: "umtp_ready C m" "u_dl C = Some dl" "0 \<le> socket dl" "dl_decrypt dl = None"
    "length (q_pkts Recv_queue m) < 16" "q_pkts Recv_queue m = []" "q_pkts Send_queue m = []"
    using assms(1) by (simp_all add: idle_def)
  obtain T' m1 where t: "umtp_turn sendto (last_seconds T, Datagram a p (UMTP_SIGNATURE # FTTP_PROTOCOL_VERSION # ?msg)) (T, C)
      = Inr (True, T', C\<lparr>u_mpu := Some m1\<rparr>)" "umtp_ready (C\<lparr>u_mpu := Some m1\<rparr>) m1" "vars_ok T'"
    "map pkt_msg (q_pkts Recv_queue m1) = map pkt_msg (q_pkts Recv_queue m) @ [(?src, (), FTTP_PROTOCOL_VERSION # ?msg)]"
    "q_pkts Send_queue m1 = q_pkts Send_queue m"
    by (rule umtp_turn_data [OF C(1-4) assms(2) C(5) assms(3), of "FTTP_PROTOCOL_VERSION # ?msg" sendto])
      (use assms(4) in simp_all)
  let ?C1 = "C\<lparr>u_mpu := Some m1\<rparr>"
  have m1: "mpu_wf m1" "mpu_running m1 \<noteq> 0" using t(2) by (simp_all add: umtp_ready_def)
  from t(4) C(6) obtain x where x: "q_pkts Recv_queue m1 = [x]" "pkt_msg x = (?src, (), FTTP_PROTOCOL_VERSION # ?msg)" by auto
  have "x \<in> set (q_pkts Recv_queue m1)" "length (FTTP_PROTOCOL_VERSION # ?msg) < MAX_MPU_DATA" using x(1) assms(4) by simp_all
  from pkt_msg_buffer [OF m1(1) this(1) x(2) this(2)] obtain rest where px: "p_buffer x = (FTTP_PROTOCOL_VERSION # ?msg) @ rest"
    "p_length x = of_nat (length (FTTP_PROTOCOL_VERSION # ?msg))" "p_addr x = ?src" by metis
  have good: "svc_good (u_svc C)" and wf: "sess_wf (u_sess C)" using C(1) by (simp_all add: umtp_ready_def)
  obtain S' where S': "clear_session 1 sid (?C1\<lparr>u_world := w\<rparr>) = Inr (0, ?C1\<lparr>u_world := w, u_sess := S'\<rparr>)"
    "sess_wf S'" "live S' = live (u_sess C) - {sid}"
    using clear_session_ok [of "?C1\<lparr>u_world := w\<rparr>" 1 sid] wf one by auto
  have "apdu_handler sendto ?src (Some ([1, 1, svc, sid] @ d @ rest)) (of_nat (length [1, 1, svc, sid] + length d)) ?C1
      = clear_session 1 sid (?C1\<lparr>u_world := w\<rparr>)"
    using apdu_answer_dispatch [of ?C1 "[1, 1, svc, sid]" 1 1 svc sid d rest "umtp_get_session sid (u_sess C)" ?src w sendto, OF _ h]
      good assms(4-8) one by simp
  then have rx: "priv_umtp_handle_msg sendto x (m1, ?C1) = Inr (0, m1, ?C1\<lparr>u_world := w, u_sess := S'\<rparr>)"
    using handle_msg_apdu [OF px(1,2), of sendto m1 ?C1] S'(1) assms(4) by (simp add: px(3))
  obtain m2 where m2: "mpu_turn (Some (priv_umtp_handle_msg sendto)) (Some (priv_umtp_send_msg sendto)) 0 (m1, ?C1)
      = Inr (True, False, m2, ?C1\<lparr>u_world := w, u_sess := S'\<rparr>)" "mpu_wf m2" "q_pkts Recv_queue m2 = []" "q_pkts Send_queue m2 = []"
      "mpu_running m2 \<noteq> 0"
    by (rule mpu_turn_recv_one [of m1 x "priv_umtp_handle_msg sendto" ?C1 m1 "?C1\<lparr>u_world := w, u_sess := S'\<rparr>"
          "?C1\<lparr>u_world := w, u_sess := S'\<rparr>" "priv_umtp_send_msg sendto"])
      (use m1 x(1) rx t(5) C(7) in simp_all)
  let ?C2 = "?C1\<lparr>u_world := w, u_sess := S', u_mpu := Some m2\<rparr>"
  have "umtp_mpu_turn sendto 0 ?C1 = Inr ?C2" using m2(1) by (simp add: umtp_mpu_turn_def)
  moreover have "idle ?C2 m2 dl" using assms(1) t(2) m2 S'(2) by (simp add: idle_def umtp_ready_def)
  ultimately show ?thesis using that [of T' ?C1 ?C2 m2] t(1,3) S'(3) by simp
qed

section \<open>Properties\<close>

text \<open>Two nodes with the service 5, and a network that counts hundreds.\<close>

definition ex_link :: "u32 \<Rightarrow> nat umtp_dl" where
  "ex_link a = \<lparr>dl_type = 0, intf = Some ''eth0'', socket = 3, port = 11784, ip = None,
     dl_addr = a, broadcast_addr = 0xFFFFFFFF, dl_encrypt = None, dl_decrypt = None\<rparr>"

definition ex_node :: "u32 \<Rightarrow> nat umtp" where
  "ex_node a = ex_umtp\<lparr>u_dl := Some (ex_link a)\<rparr>"

definition ex_net :: "nat sendto_fun" where
  "ex_net fd frame a p w = (int (length frame), 0, w + 100)"

definition ex_vars :: task_vars where
  "ex_vars = \<lparr>last_seconds = 7, task_src = ex_addr, task_buf = replicate MAX_PDU 0\<rparr>"

lemma ex_node_facts: "idle (ex_node a) ex_mpu (ex_link a)" "vars_ok ex_vars" "takes_frames ex_net (\<lambda>w _ _ _. w + 100)"
    "u_sess (ex_node a) = ex_sess" "u_svc (ex_node a) = ex_registered" "u_world (ex_node a) = 0"
    "apdu_trans_blk (ex_node a) = replicate MAX_APDU 0" "umtp_ready (ex_node a) ex_mpu" "u_dl (ex_node a) = Some (ex_link a)"
    "socket (ex_link a) = 3" "dl_addr (ex_link a) = a" "port (ex_link a) = 11784" "dl_decrypt (ex_link a) = None"
    "dl_encrypt (ex_link a) = None"
  using ex_umtp_facts(1)
  by (simp_all add: idle_def ex_node_def umtp_ready_def ex_mpu_facts ex_link_def vars_ok_def ex_vars_def ex_dl_facts(4)
      takes_frames_def ex_net_def ex_umtp_facts)

text \<open>C1. A confirmed request crosses the network and its answer ends the session. A client and a server
  run with empty queues, each on an open data link, over a network that takes every frame. The
  client sends a request with at least one and at most 1020 bytes of data; one turn of its message process unit puts one frame
  on the network. Received by the server in one turn of its task, the frame is handled in one turn
  of its message process unit: the service's request handler is called with exactly those data, and
  one frame with its answer goes to the client's address. Received by the client, the answer is
  handed, exactly, with the number's session, to the response handler of the service; after that
  the client has the same sessions as before the request, and both sides are idle again. (The client has a
  free session, the handler returns 0 with an answer that is not empty and fits, and no second passes.)\<close>

theorem request_answer_roundtrip:
  assumes "idle C mc dc" and "idle V mv dv" and "takes_frames sendto logc" and "takes_frames sendtov logv"
    and "vars_ok Tc" and "vars_ok Tv" and "addr_wf dst"
    and "\<not> (ac = dl_addr dv \<and> uint pc = port dv)" and "\<not> (av = dl_addr dc \<and> uint pv = port dc)"
    and "confirmed ad" and "0 \<le> ad_data_len ad" and "nat (ad_data_len ad) \<le> length (ad_data ad)" and "nat (ad_data_len ad) \<le> 1020"
    and "0 \<in> set (ids (u_sess C))" and "next_session_id (u_sess C) + 256 < INT_MAX"
    and "d = take (nat (ad_data_len ad)) (ad_data ad)" and "d \<noteq> []" and "svc = word_of_int (ad_service ad)"
    and "svc_entries (u_svc V) (uint svc) = Some kv"
    and "\<And>rest. the (req_handler (the (svc_mem (u_svc V) kv))) (from_addr (task_src Tv) ac pc)
        \<lparr>sd_service_id = uint svc, sd_data_len = 0, sd_data = None\<rparr> (drop 4 (apdu_trans_blk V)) (d @ rest) (int (length d)) (u_world V)
      = Inr (0, sd, part, wv)"
    and "length part = MAX_APDU - 4" and "answer_fits sd part" and "answer_data sd part \<noteq> []"
    and "svc_entries (u_svc C) (uint svc) = Some kc" and "rsp_handler (the (svc_mem (u_svc C) kc)) = Some g"
    and "\<And>session rest w. g (from_addr (task_src Tc) av pv) session (answer_data sd part @ rest) (int (length (answer_data sd part))) w
      = Inr (got session w)"
  shows "\<exists>sid C1 C2 C3 C4 mc' Tc' V1 V2 mv' Tv'.
      umtp_send_message sendto env dst (Some ad) C = Inr (0, C1) \<and> umtp_mpu_turn sendto 0 C1 = Inr C2
    \<and> u_world C2 = logc (u_world C) ([UMTP_SIGNATURE, FTTP_PROTOCOL_VERSION, 1, 0, svc, sid] @ d)
        (fst (dest_of dc dst)) (snd (dest_of dc dst))
    \<and> sid \<notin> live (u_sess C) \<and> awaits (u_sess C2) sid dst ([1, 0, svc, sid] @ d)
    \<and> umtp_turn sendtov (last_seconds Tv, Datagram ac pc ([UMTP_SIGNATURE, FTTP_PROTOCOL_VERSION, 1, 0, svc, sid] @ d)) (Tv, V)
        = Inr (True, Tv', V1) \<and> umtp_mpu_turn sendtov 0 V1 = Inr V2 \<and> idle V2 mv' dv
    \<and> u_world V2 = logv wv ([UMTP_SIGNATURE, FTTP_PROTOCOL_VERSION, 1, 1, svc, sid] @ answer_data sd part) ac pc
    \<and> umtp_turn sendto (last_seconds Tc, Datagram av pv ([UMTP_SIGNATURE, FTTP_PROTOCOL_VERSION, 1, 1, svc, sid] @ answer_data sd part)) (Tc, C2)
        = Inr (True, Tc', C3) \<and> umtp_mpu_turn sendto 0 C3 = Inr C4 \<and> idle C4 mc' dc
    \<and> u_world C4 = got (umtp_get_session sid (u_sess C2)) (u_world C2) \<and> live (u_sess C4) = live (u_sess C)"
proof -
  obtain sid C1 C2 m2 where c: "umtp_send_message sendto env dst (Some ad) C = Inr (0, C1)" "umtp_mpu_turn sendto 0 C1 = Inr C2"
    "idle C2 m2 dc" "sid \<noteq> 0" "sid \<notin> live (u_sess C)" "live (u_sess C2) = insert sid (live (u_sess C))"
    "awaits (u_sess C2) sid dst ([1, 0, svc, sid] @ d)" "u_svc C2 = u_svc C"
    "u_world C2 = logc (u_world C) ([UMTP_SIGNATURE, FTTP_PROTOCOL_VERSION, 1, 0, svc, sid] @ d)
      (fst (dest_of dc dst)) (snd (dest_of dc dst))"
    by (rule client_sends [OF assms(1,3,7,10-16,18)])
  have len: "length d \<le> 1020" using assms(13,16) by simp
  have fits: "(0 :: int) = 0 \<Longrightarrow> answer_fits sd part" using assms(22) by simp
  have ans: "[UMTP_SIGNATURE, FTTP_PROTOCOL_VERSION] @ answer 1 svc sid 0 (answer_data sd part)
      = [UMTP_SIGNATURE, FTTP_PROTOCOL_VERSION, 1, 1, svc, sid] @ answer_data sd part"
    by (simp add: answer_def hdr_def apdu_has_session_id_def)
  obtain Tv' V1 V2 mv' where v: "umtp_turn sendtov (last_seconds Tv, Datagram ac pc ([UMTP_SIGNATURE, FTTP_PROTOCOL_VERSION, 1, 0, svc, sid] @ d)) (Tv, V)
      = Inr (True, Tv', V1)" "umtp_mpu_turn sendtov 0 V1 = Inr V2" "idle V2 mv' dv"
    "u_world V2 = logv wv ([UMTP_SIGNATURE, FTTP_PROTOCOL_VERSION] @ answer 1 svc sid 0 (answer_data sd part)) ac pc"
    by (rule server_answers [OF assms(2,4,6,8) len assms(17,19,20,21) fits])
  have la: "length (answer_data sd part) \<le> 1020"
    using assms(21,22) by (auto simp: answer_data_def answer_fits_def split: option.splits)
  have k: "svc_entries (u_svc C2) (uint svc) = Some kc" "rsp_handler (the (svc_mem (u_svc C2) kc)) = Some g"
    using assms(24,25) by (simp_all add: c(8))
  obtain Tc' C3 C4 m4 where f: "umtp_turn sendto (last_seconds Tc, Datagram av pv ([UMTP_SIGNATURE, FTTP_PROTOCOL_VERSION, 1, 1, svc, sid] @ answer_data sd part)) (Tc, C2)
      = Inr (True, Tc', C3)" "umtp_mpu_turn sendto 0 C3 = Inr C4" "idle C4 m4 dc"
      "u_world C4 = got (umtp_get_session sid (u_sess C2)) (u_world C2)" "live (u_sess C4) = live (u_sess C2) - {sid}"
    by (rule client_finishes [OF c(3) assms(5,9) la assms(23) k assms(26)])
  have "live (u_sess C4) = live (u_sess C)" using c(5,6) f(5) by blast
  then show ?thesis using c(1,2,5,7,9) v f(1-4) unfolding ans by blast
qed

theorem request_answer_roundtrip_witness:
  "\<exists>sid C1 C2 C3 C4 mc' Tc' V1 V2 mv' Tv'.
      umtp_send_message ex_net ex_quiet ex_addr (Some \<lparr>ad_service = 5, confirmed = True, ad_data = [7], ad_data_len = 1\<rparr>) (ex_node 1) = Inr (0, C1)
    \<and> umtp_mpu_turn ex_net 0 C1 = Inr C2
    \<and> umtp_turn ex_net (7, Datagram 1 9 [0x68, 1, 1, 0, 5, sid, 7]) (ex_vars, ex_node 2) = Inr (True, Tv', V1)
    \<and> umtp_mpu_turn ex_net 0 V1 = Inr V2 \<and> u_world V2 = 101
    \<and> umtp_turn ex_net (7, Datagram 2 9 [0x68, 1, 1, 1, 5, sid, 7]) (ex_vars, C2) = Inr (True, Tc', C3)
    \<and> umtp_mpu_turn ex_net 0 C3 = Inr C4 \<and> u_world C4 = 110 \<and> live (u_sess C4) = {}"
proof -
  let ?ad = "\<lparr>ad_service = 5, confirmed = True, ad_data = [7], ad_data_len = 1\<rparr>"
  let ?sd = "\<lparr>sd_service_id = 5, sd_data_len = 1, sd_data = None\<rparr>"
  have hd: "(replicate 1020 0)[0 := 7] = 7 # replicate 1019 (0 :: u8)" using replicate_Suc [of 1019 "0 :: u8"] by simp
  have live: "live ex_sess = {}" by (auto simp: live_def ex_sess_facts)
  have l: "last_seconds ex_vars = 7" by (simp add: ex_vars_def)
  show ?thesis
    using request_answer_roundtrip [OF ex_node_facts(1,1,3,3,2,2) ex_dl_facts(4),
        of 1 2 9 2 1 9 ?ad "[7]" 5 0 ?sd "(replicate 1020 0)[0 := 7]" 1 0 "\<lambda>src session bs n w. Inr (w + 10)" "\<lambda>session w. w + 10" ex_quiet]
    by (simp add: ex_node_facts ex_registered_facts ex_service_def ex_sess_facts live l hd answer_data_def answer_fits_def)
      (elim exE conjE, intro exI conjI; (assumption | simp))
qed

text \<open>C38. One bad datagram stops an instance. On an idle instance, a datagram from any other host that has the
  signature byte and then anything but the protocol version is queued by one turn of the task; the
  handler refuses it with \<open>-EPROTO\<close>, the message process unit keeps it at the head of its queue, and
  the turn of the unit that should handle it never ends.\<close>

theorem wrong_version_hangs:
  assumes "idle U m dl" and "vars_ok T" and "\<not> (a = dl_addr dl \<and> uint p = port dl)"
    and "v \<noteq> FTTP_PROTOCOL_VERSION" and "length bs < MAX_MPU_DATA - 1"
  shows "\<exists>T' U'. umtp_turn sendto (last_seconds T, Datagram a p (UMTP_SIGNATURE # v # bs)) (T, U) = Inr (True, T', U')
    \<and> umtp_mpu_turn sendto 0 U' = Inl No_return"
proof -
  have U: "umtp_ready U m" "u_dl U = Some dl" "0 \<le> socket dl" "dl_decrypt dl = None"
    "length (q_pkts Recv_queue m) < 16" "q_pkts Recv_queue m = []" "q_pkts Send_queue m = []"
    using assms(1) by (simp_all add: idle_def)
  obtain T' m1 where t: "umtp_turn sendto (last_seconds T, Datagram a p (UMTP_SIGNATURE # v # bs)) (T, U) = Inr (True, T', U\<lparr>u_mpu := Some m1\<rparr>)"
    "umtp_ready (U\<lparr>u_mpu := Some m1\<rparr>) m1"
    "map pkt_msg (q_pkts Recv_queue m1) = map pkt_msg (q_pkts Recv_queue m) @ [(from_addr (task_src T) a p, (), v # bs)]"
    "q_pkts Send_queue m1 = q_pkts Send_queue m"
    by (rule umtp_turn_data [OF U(1-4) assms(2) U(5) assms(3), of "v # bs" sendto]) (use assms(5) in simp_all)
  have m1: "mpu_wf m1" "mpu_running m1 \<noteq> 0" using t(2) by (simp_all add: umtp_ready_def)
  from t(3) U(6) obtain x where x: "q_pkts Recv_queue m1 = [x]" "pkt_msg x = (from_addr (task_src T) a p, (), v # bs)" by auto
  have "x \<in> set (q_pkts Recv_queue m1)" "length (v # bs) < MAX_MPU_DATA" using x(1) assms(5) by simp_all
  from pkt_msg_buffer [OF m1(1) this(1) x(2) this(2)] obtain rest where "p_buffer x = (v # bs) @ rest" by metis
  then have "refuses (\<lambda>_. True) (priv_umtp_handle_msg sendto) x"
    using assms(4) by (simp add: refuses_def priv_umtp_handle_msg_def npdu_handler_def)
  moreover have "stuck_on (\<lambda>_. True) (priv_umtp_send_msg sendto) x (m1, U\<lparr>u_mpu := Some m1\<rparr>)"
    using m1(1) x(1) t(4) U(7) by (simp add: stuck_on_def)
  ultimately have "mpu_drain (Some (priv_umtp_handle_msg sendto)) (Some (priv_umtp_send_msg sendto)) (m1, U\<lparr>u_mpu := Some m1\<rparr>) = None"
    by (rule mpu_drain_stuck)
  then have "umtp_mpu_turn sendto 0 (U\<lparr>u_mpu := Some m1\<rparr>) = Inl No_return"
    using m1(2) by (simp add: umtp_mpu_turn_def mpu_turn_def mpu_after_wait_def)
  then show ?thesis using t(1) by blast
qed

theorem wrong_version_hangs_witness:
  "\<exists>T' U'. umtp_turn ex_net (7, Datagram 2 9 [0x68, 2]) (ex_vars, ex_node 1) = Inr (True, T', U')
     \<and> umtp_mpu_turn ex_net 0 U' = Inl No_return"
proof -
  have "last_seconds ex_vars = 7" by (simp add: ex_vars_def)
  then show ?thesis
    using wrong_version_hangs [OF ex_node_facts(1,2), of 2 1 9 2 "[]" ex_net] by (simp add: ex_node_facts)
qed

section \<open>Stopping\<close>

lemma umtp_turn_closed:
  assumes "u_dl U = Some dl" and "socket dl < 0"
  shows "umtp_turn sendto ev (T, U) = Inr (False, T, U)"
  using assms by (cases ev) (simp add: umtp_turn_def)

lemma umtp_turn_quiet:
  assumes "u_dl U = Some dl" and "0 \<le> socket dl"
  shows "umtp_turn sendto (last_seconds T, Select_none) (T, U) = Inr (True, T, U)"
  using assms by (simp add: umtp_turn_def)

lemma task_loop_quiet:
  assumes "u_dl U = Some dl" and "0 \<le> socket dl" and "u_running U"
  shows "umtp_task_loop sendto (\<lambda>_. (last_seconds T, Select_none)) (\<lambda>_ U. U) k (T, U) = None"
proof -
  have "TU \<noteq> (T, U)" if "umtp_task_loop sendto (\<lambda>_. (last_seconds T, Select_none)) (\<lambda>_ U. U) k TU = Some y" for k TU y
  proof (rule umtp_task_loop.raw_induct [where P = "\<lambda>s ev env k TU y. s = sendto \<longrightarrow>
        ev = (\<lambda>_. (last_seconds T, Select_none)) \<longrightarrow> env = (\<lambda>_ U. U) \<longrightarrow> TU \<noteq> (T, U)", rule_format, OF _ that refl refl refl])
    fix loop s ev env k TU y
    assume IH: "\<And>s ev env k TU y. loop s ev env k TU = Some y \<Longrightarrow> s = sendto \<Longrightarrow>
        ev = (\<lambda>_. (last_seconds T, Select_none)) \<Longrightarrow> env = (\<lambda>_ U. U) \<Longrightarrow> TU \<noteq> (T, U)"
      and body: "(if \<not> u_running (snd TU) then Some (Inr ((snd TU)\<lparr>u_running := False\<rparr>))
        else case umtp_turn s (ev k) TU of Inl e \<Rightarrow> Some (Inl e)
          | Inr r \<Rightarrow> (case r of (go, T, U) \<Rightarrow> if go then loop s ev env (Suc k) (T, env k U) else Some (Inr (U\<lparr>u_running := False\<rparr>)))) = Some y"
      and a: "s = sendto" "ev = (\<lambda>_. (last_seconds T, Select_none))" "env = (\<lambda>_ U. U)"
    show "TU \<noteq> (T, U)"
    proof
      assume TU: "TU = (T, U)"
      then have "loop sendto (\<lambda>_. (last_seconds T, Select_none)) (\<lambda>_ U. U) (Suc k) (T, U) = Some y"
        using body assms(3) umtp_turn_quiet [OF assms(1,2), of sendto T] by (simp add: a)
      from IH [OF this refl refl refl] show False by simp
    qed
  qed
  then show ?thesis by (metis not_Some_eq)
qed

text \<open>What the two handlers do once the data link is closed: nothing can be sent, and a message with
  another protocol version is refused as before.\<close>

lemma send_msg_closed:
  assumes "mpu_wf m0" and "x \<in> set (q_pkts q m0)" and "unat (p_length x) \<le> MAX_APDU" and "socket dl < 0"
  shows "refuses (\<lambda>U. u_dl U = Some dl) (priv_umtp_send_msg sendto) x"
proof -
  have "length (p_buffer x) = MAX_MPU_DATA" by (rule q_pkts_buffer [OF assms(1,2)])
  moreover have "nat (uint (p_length x)) \<le> MAX_APDU" using assms(3) by simp
  ultimately have "\<exists>ret. ret \<noteq> 0 \<and> npdu_send (Some (dludp_send_data sendto dl)) (p_addr x) (Some (p_buffer x)) (uint (p_length x)) w
      = Inr (ret, w)" for w
    using assms(4) by (simp add: npdu_send_def encode_npdu_def arr_read_def arr_write_def dludp_send_data_def)
  note refused = this
  have "\<exists>ret. ret \<noteq> 0 \<and> priv_umtp_send_msg sendto x (m, U) = Inr (ret, m, U)" if U: "u_dl U = Some dl" for m and U :: "'a umtp"
  proof -
    obtain ret where "ret \<noteq> 0" "npdu_send (Some (dludp_send_data sendto dl)) (p_addr x) (Some (p_buffer x)) (uint (p_length x)) (u_world U)
        = Inr (ret, u_world U)"
      using refused by blast
    then show ?thesis by (simp add: priv_umtp_send_msg_def U)
  qed
  then show ?thesis unfolding refuses_def by blast
qed

lemma handle_msg_version:
  assumes "mpu_wf m0" and "x \<in> set (q_pkts q m0)" and "p_buffer x ! 0 \<noteq> FTTP_PROTOCOL_VERSION"
  shows "refuses (\<lambda>U. u_dl U = d) (priv_umtp_handle_msg sendto) x"
proof -
  have "length (p_buffer x) = MAX_MPU_DATA" by (rule q_pkts_buffer [OF assms(1,2)])
  then obtain v bs where "p_buffer x = v # bs" by (cases "p_buffer x") simp_all
  then show ?thesis using assms(3) by (simp add: refuses_def priv_umtp_handle_msg_def npdu_handler_def)
qed

lemma drain_closed_stuck:
  assumes "mpu_wf m" and "u_dl U = Some dl" and "socket dl < 0" and "\<forall>y \<in> set (q_pkts Send_queue m). unat (p_length y) \<le> MAX_APDU"
    and "q_pkts Recv_queue m = [] \<and> q_pkts Send_queue m \<noteq> []
      \<or> (\<exists>x xs. q_pkts Recv_queue m = x # xs \<and> p_buffer x ! 0 \<noteq> FTTP_PROTOCOL_VERSION)"
  shows "mpu_drain (Some (priv_umtp_handle_msg sendto)) (Some (priv_umtp_send_msg sendto)) (m, U) = None"
proof -
  let ?I = "\<lambda>U. u_dl U = Some dl"
  have send: "refuses ?I (priv_umtp_send_msg sendto) y" if "y \<in> set (q_pkts Send_queue m)" for y
    by (rule send_msg_closed [OF assms(1) that _ assms(3)]) (use assms(4) that in blast)
  show ?thesis using assms(5)
  proof (elim disjE exE conjE)
    assume "q_pkts Recv_queue m = []" "q_pkts Send_queue m \<noteq> []"
    then obtain y ys where "q_pkts Recv_queue m = []" "q_pkts Send_queue m = y # ys" by (cases "q_pkts Send_queue m") simp_all
    then show ?thesis by (rule mpu_drain_unsent [OF assms(1), where I = ?I]) (use send assms(2) in \<open>simp_all add: \<open>q_pkts Send_queue m = y # ys\<close>\<close>)
  next
    fix x xs
    assume x: "q_pkts Recv_queue m = x # xs" "p_buffer x ! 0 \<noteq> FTTP_PROTOCOL_VERSION"
    have "refuses ?I (priv_umtp_handle_msg sendto) x" by (rule handle_msg_version [where q = Recv_queue, OF assms(1) _ x(2)]) (simp add: x(1))
    moreover have "leaves_queues ?I (priv_umtp_send_msg sendto) y" if "y \<in> set (q_pkts Send_queue m)" for y
      using send [OF that] unfolding refuses_def leaves_queues_def by blast
    ultimately have "stuck_on ?I (priv_umtp_send_msg sendto) x (m, U)" using assms(1,2) x(1) by (simp add: stuck_on_def)
    with \<open>refuses ?I (priv_umtp_handle_msg sendto) x\<close> show ?thesis by (rule mpu_drain_stuck)
  qed
qed

text \<open>C21. Stopping an instance on an open data link. \<open>umtp_stop\<close> closes exactly the socket, joins the
  task of the message process unit and then frees the unit. When that task is at the test of its loop,
  when its wait ends without a signal, or when nothing is queued, it ends, and \<open>umtp_stop\<close> goes on: the
  unit is freed, its queues and the rest of the instance unchanged; the field \<open>mpu\<close> keeps pointing to it, so a
  second \<open>umtp_stop\<close> works on freed memory. The task of the instance, which is joined last, ends at its next
  turn whatever else happens, but only because receiving on the closed socket fails: the flag
  \<open>running\<close> is set to true, not to false, and with it a task whose socket stays open and quiet never
  ends. When the task of the unit is in its inner loop, or signalled, and there is a message to send
  (and nothing received), or the first received message has another protocol version, \<open>umtp_stop\<close>
  does not return: the inner loop does not look at \<open>running\<close>, and nothing can be sent any more. NULL is
  ignored.\<close>

theorem umtp_stop_ends_task:
  assumes "u_dl U = Some dl" and "0 < socket dl" and "u_mpu U = Some m" and "mpu_wf m"
  shows "(mpu_running m = 0 \<or> at \<noteq> Some 0 \<or> (\<forall>q. q_pkts q m = []) \<longrightarrow>
      (\<exists>U'. umtp_stop sendto at False (Some U) = Inr ([socket dl], True, Some U')
        \<and> (\<exists>m'. U' = U\<lparr>u_dl := Some (dl\<lparr>socket := - 1\<rparr>), u_running := True, u_mpu := Some m'\<rparr>
            \<and> mpu_running m' = 0 \<and> (\<forall>q. q_pkts q m' = q_pkts q m))
        \<and> (\<forall>ev env k T. umtp_task_loop sendto ev env k (T, U') = Some (Inr (U'\<lparr>u_running := False\<rparr>)))
        \<and> (\<forall>T. umtp_task_loop sendto (\<lambda>_. (last_seconds T, Select_none)) (\<lambda>_ U. U) 0 (T, U'\<lparr>u_dl := Some dl\<rparr>) = None)
        \<and> umtp_stop sendto at True (Some U') = Inl Bad_pointer))
    \<and> (mpu_running m \<noteq> 0 \<and> at = Some 0 \<and> (\<forall>y \<in> set (q_pkts Send_queue m). unat (p_length y) \<le> MAX_APDU)
        \<and> (q_pkts Recv_queue m = [] \<and> q_pkts Send_queue m \<noteq> []
           \<or> (\<exists>x xs. q_pkts Recv_queue m = x # xs \<and> p_buffer x ! 0 \<noteq> FTTP_PROTOCOL_VERSION)) \<longrightarrow>
       umtp_stop sendto at False (Some U) = Inl No_return)
    \<and> umtp_stop sendto at freed None = Inr ([], freed, None)"
proof -
  let ?dl = "dl\<lparr>socket := - 1\<rparr>" and ?m = "m\<lparr>mpu_running := 0\<rparr>"
  let ?U = "U\<lparr>u_dl := Some ?dl, u_running := True, u_mpu := Some ?m\<rparr>"
  have wf: "mpu_wf ?m" "q_pkts q ?m = q_pkts q m" for q by (simp_all add: mpu_running_wf assms(4))
  have stop: "umtp_stop sendto at False (Some U) = Inr ([socket dl], True, Some ?U)"
    if "mpu_running m = 0 \<or> at \<noteq> Some 0 \<or> (\<forall>q. q_pkts q m = [])"
  proof (cases "mpu_running m = 0")
    case True
    then have "?m = m" by simp
    then show ?thesis using True assms(1-3) by (simp add: umtp_stop_def)
  next
    case False
    then have quiet: "at \<noteq> Some 0 \<or> q_pkts Recv_queue ?m = [] \<and> q_pkts Send_queue ?m = []" using that wf(2) by simp
    have "mpu_stop recv send at (Some m) V = Inr (Some ?m, V)" for recv send and V :: "'a umtp"
      using quiet mpu_drain_empty [OF wf(1), of recv send V]
      by (auto simp: mpu_stop_def mpu_after_wait_def Let_def split: option.split)
    then show ?thesis using False assms(1-3) by (simp add: umtp_stop_def)
  qed
  have loop: "umtp_task_loop sendto ev env k (T, ?U) = Some (Inr (?U\<lparr>u_running := False\<rparr>))" for ev env k T
    using umtp_turn_closed [of ?U ?dl sendto "ev k" T] by (subst umtp_task_loop.simps) simp
  have open_loop: "umtp_task_loop sendto (\<lambda>_. (last_seconds T, Select_none)) (\<lambda>_ U. U) 0 (T, ?U\<lparr>u_dl := Some dl\<rparr>) = None" for T
    by (rule task_loop_quiet [of _ dl]) (use assms(2) in simp_all)
  have again: "umtp_stop sendto at True (Some ?U) = Inl Bad_pointer" by (simp add: umtp_stop_def)
  have stuck: "umtp_stop sendto at False (Some U) = Inl No_return"
    if "mpu_running m \<noteq> 0" "at = Some 0" "\<forall>y \<in> set (q_pkts Send_queue m). unat (p_length y) \<le> MAX_APDU"
      "q_pkts Recv_queue m = [] \<and> q_pkts Send_queue m \<noteq> []
       \<or> (\<exists>x xs. q_pkts Recv_queue m = x # xs \<and> p_buffer x ! 0 \<noteq> FTTP_PROTOCOL_VERSION)"
  proof -
    have "mpu_drain (Some (priv_umtp_handle_msg sendto)) (Some (priv_umtp_send_msg sendto)) (?m, U\<lparr>u_dl := Some ?dl\<rparr>) = None"
      by (rule drain_closed_stuck [OF wf(1), where dl = ?dl]) (use that(3,4) wf(2) in simp_all)
    then show ?thesis using that(1,2) assms(1-3) by (simp add: umtp_stop_def mpu_stop_def mpu_after_wait_def)
  qed
  have null: "umtp_stop sendto at freed None = Inr ([], freed, None)" by (simp add: umtp_stop_def)
  show ?thesis
  proof (intro conjI impI)
    show "\<exists>U'. umtp_stop sendto at False (Some U) = Inr ([socket dl], True, Some U')
        \<and> (\<exists>m'. U' = U\<lparr>u_dl := Some ?dl, u_running := True, u_mpu := Some m'\<rparr> \<and> mpu_running m' = 0 \<and> (\<forall>q. q_pkts q m' = q_pkts q m))
        \<and> (\<forall>ev env k T. umtp_task_loop sendto ev env k (T, U') = Some (Inr (U'\<lparr>u_running := False\<rparr>)))
        \<and> (\<forall>T. umtp_task_loop sendto (\<lambda>_. (last_seconds T, Select_none)) (\<lambda>_ U. U) 0 (T, U'\<lparr>u_dl := Some dl\<rparr>) = None)
        \<and> umtp_stop sendto at True (Some U') = Inl Bad_pointer"
      if "mpu_running m = 0 \<or> at \<noteq> Some 0 \<or> (\<forall>q. q_pkts q m = [])"
      using stop [OF that] loop open_loop again wf(2) by (intro exI [of _ ?U] conjI exI [of _ ?m] allI refl) (assumption | simp)+
  qed (use stuck null in blast)+
qed

theorem umtp_stop_ends_task_witness:
  "(\<exists>U'. umtp_stop ex_net (Some 0) False (Some (ex_node 1)) = Inr ([3], True, Some U')
      \<and> umtp_task_loop ex_net (\<lambda>k. (int k, Select_none)) (\<lambda>k U. U) 0 (ex_vars, U') = Some (Inr (U'\<lparr>u_running := False\<rparr>)))
   \<and> (\<exists>T' U'. umtp_turn ex_net (7, Datagram 2 9 [0x68, 2]) (ex_vars, ex_node 1) = Inr (True, T', U')
      \<and> umtp_stop ex_net (Some 0) False (Some U') = Inl No_return)"
proof -
  have n: "u_mpu (ex_node 1) = Some ex_mpu" by (simp add: ex_node_def ex_umtp_facts)
  have l: "last_seconds ex_vars = 7" "dl_addr (ex_link 1) = 1" "socket (ex_link 1) = 3"
    by (simp_all add: ex_vars_def ex_node_facts)
  obtain U' where U': "umtp_stop ex_net (Some 0) False (Some (ex_node 1)) = Inr ([socket (ex_link 1)], True, Some U')"
    "\<forall>ev env k T. umtp_task_loop ex_net ev env k (T, U') = Some (Inr (U'\<lparr>u_running := False\<rparr>))"
    using that umtp_stop_ends_task [OF ex_node_facts(9) _ n ex_mpu_facts(1), THEN conjunct1, THEN mp, of "Some 0" ex_net]
    by (simp add: l(3) ex_mpu_facts(3)) blast
  have U: "umtp_ready (ex_node 1) ex_mpu" "u_dl (ex_node 1) = Some (ex_link 1)" "0 \<le> socket (ex_link 1)" "dl_decrypt (ex_link 1) = None"
    using ex_node_facts(1) [of 1] by (simp_all add: idle_def ex_node_facts(9))
  have room: "length (q_pkts Recv_queue ex_mpu) < 16" by (simp add: ex_mpu_facts(3))
  obtain T' m' where t: "umtp_turn ex_net (last_seconds ex_vars, Datagram 2 9 (UMTP_SIGNATURE # [2])) (ex_vars, ex_node 1)
      = Inr (True, T', (ex_node 1)\<lparr>u_mpu := Some m'\<rparr>)" "umtp_ready ((ex_node 1)\<lparr>u_mpu := Some m'\<rparr>) m'"
    "map pkt_msg (q_pkts Recv_queue m') = map pkt_msg (q_pkts Recv_queue ex_mpu) @ [(from_addr (task_src ex_vars) 2 9, (), [2])]"
    "q_pkts Send_queue m' = q_pkts Send_queue ex_mpu"
    by (rule umtp_turn_data [OF U ex_node_facts(2) room, of 2 9 "[2]" ex_net]) (simp_all add: l)
  have m': "mpu_wf m'" "mpu_running m' \<noteq> 0" using t(2) by (simp_all add: umtp_ready_def)
  from t(3) obtain x where x: "q_pkts Recv_queue m' = [x]" "pkt_msg x = (from_addr (task_src ex_vars) 2 9, (), [2])"
    by (auto simp: ex_mpu_facts(3))
  have "x \<in> set (q_pkts Recv_queue m')" "length [2 :: u8] < MAX_MPU_DATA" using x(1) by simp_all
  from pkt_msg_buffer [OF m'(1) this(1) x(2) this(2)] obtain rest where "p_buffer x = [2] @ rest" by metis
  then have "umtp_stop ex_net (Some 0) False (Some ((ex_node 1)\<lparr>u_mpu := Some m'\<rparr>)) = Inl No_return"
    using umtp_stop_ends_task [of "(ex_node 1)\<lparr>u_mpu := Some m'\<rparr>" "ex_link 1" m' "Some 0" ex_net] m' x(1) t(4) l(3)
    by (simp add: ex_node_facts(9) ex_mpu_facts(3))
  then show ?thesis using U' t(1) l by auto
qed

section \<open>Time\<close>

lemma elapsed_milliseconds: "ucast (word_of_int n * 1000 :: u32) = (word_of_int (n * 1000) :: u16)"
proof -
  have "(word_of_int n * 1000 :: u32) = word_of_int (n * 1000)" by simp
  moreover have "ucast (word_of_int k :: u32) = (word_of_int k :: u16)" for k
    by (rule bit_word_eqI) (simp add: bit_simps)
  ultimately show ?thesis by (simp only:)
qed

text \<open>C13. Time. In a turn without a message in which seconds have passed, the task lets the milliseconds
  pass for every session and remembers the time: timers run down, and a session whose timer has run
  down either has exactly its stored message sent again, in one frame to its destination, or, when
  its retries are used up, has the timeout handler of the service called with the data behind the
  header, and is freed. The milliseconds are counted in 16 bits: up to 65 seconds they are right, of
  66 seconds only 464 milliseconds are left.\<close>

theorem umtp_turn_time:
  fixes ms :: u16
  assumes "u_dl U = Some dl" and "0 \<le> socket dl" and "dl_encrypt dl = None" and "takes_frames sendto log"
    and "svc_good (u_svc U)" and "sess_wf (u_sess U)" and "(word_of_int (now - last_seconds T) :: u32) \<noteq> 0"
    and "ms = word_of_int ((now - last_seconds T) * 1000)"
  shows "umtp_turn sendto (now, Select_none) (T, U) =
      bindE (foldE (tick_call (resend_call sendto U) (expire_call U) (u_sess U) ms) (sessions (u_sess U)) (u_world U)) (\<lambda>w.
        Inr (True, T\<lparr>last_seconds := now\<rparr>,
          U\<lparr>u_sess := (u_sess U)\<lparr>sessions := map (tick_slot (u_sess U) ms) (sessions (u_sess U))\<rparr>, u_world := w\<rparr>))
    \<and> (last_seconds T \<le> now \<and> now \<le> last_seconds T + 65 \<longrightarrow> uint ms = (now - last_seconds T) * 1000)
    \<and> (now = last_seconds T + 66 \<longrightarrow> uint ms = 464)
    \<and> (\<forall>s msg w. waiting s \<and> timer s \<le> ucast ms \<and> addr_wf (s_dest s) \<and> s_pdu_len s = of_nat (length msg) \<and> 4 \<le> length msg
          \<and> length msg \<le> MAX_APDU \<and> take (length msg) (s_pdu s) = msg \<longrightarrow>
        tick_call (resend_call sendto U) (expire_call U) (u_sess U) ms s w =
          (if retry s < umtp_apdu_retry (u_sess U)
           then Inr (log w (UMTP_SIGNATURE # FTTP_PROTOCOL_VERSION # msg) (fst (dest_of dl (s_dest s))) (snd (dest_of dl (s_dest s))))
           else case s_timeout s of None \<Rightarrow> Inr w
             | Some _ \<Rightarrow> (case svc_entries (u_svc U) (uint (msg ! 2)) of None \<Rightarrow> Inr w
                | Some k \<Rightarrow> (case timeout_handler (the (svc_mem (u_svc U) k)) of None \<Rightarrow> Inr w
                   | Some f \<Rightarrow> f (s_dest s) (uint (msg ! 2)) (drop 4 (s_pdu s)) (int (length msg) - 4) w))))"
proof -
  have call: "tick_call (resend_call sendto U) (expire_call U) (u_sess U) ms s w =
          (if retry s < umtp_apdu_retry (u_sess U)
           then Inr (log w (UMTP_SIGNATURE # FTTP_PROTOCOL_VERSION # msg) (fst (dest_of dl (s_dest s))) (snd (dest_of dl (s_dest s))))
           else case s_timeout s of None \<Rightarrow> Inr w
             | Some _ \<Rightarrow> (case svc_entries (u_svc U) (uint (msg ! 2)) of None \<Rightarrow> Inr w
                | Some k \<Rightarrow> (case timeout_handler (the (svc_mem (u_svc U) k)) of None \<Rightarrow> Inr w
                   | Some f \<Rightarrow> f (s_dest s) (uint (msg ! 2)) (drop 4 (s_pdu s)) (int (length msg) - 4) w)))"
    if s: "waiting s" "timer s \<le> ucast ms" "addr_wf (s_dest s)" "s_pdu_len s = of_nat (length msg)" "4 \<le> length msg"
      "length msg \<le> MAX_APDU" "take (length msg) (s_pdu s) = msg" for s msg w
  proof -
    have len: "uint (s_pdu_len s) = int (length msg)" using s(4,6) by (simp add: uint_of_nat_small)
    have le: "length msg \<le> length (s_pdu s)" using arg_cong [OF s(7), of length] by simp
    have "msg ! 2 = s_pdu s ! 2" using nth_take [of 2 "length msg" "s_pdu s"] s(5,7) by simp
    then have get: "arr_get (s_pdu s) 2 = Inr (msg ! 2)" using le s(5) by (simp add: arr_get_def)
    have send: "npdu_send (Some (dludp_send_data sendto dl)) (s_dest s) (Some (s_pdu s)) (int (length msg)) w =
        Inr (0, log w (UMTP_SIGNATURE # FTTP_PROTOCOL_VERSION # msg) (fst (dest_of dl (s_dest s))) (snd (dest_of dl (s_dest s))))"
    proof -
      have "0 < int (length msg)" "int (length msg) \<le> int MAX_APDU" "nat (int (length msg)) \<le> length (s_pdu s)"
        using s(5,6) le by linarith+
      from npdu_send_udp [OF assms(2,3) s(3) this(3,1,2), of sendto w] assms(4) s(7) show ?thesis
        by (simp add: takes_frames_def)
    qed
    show ?thesis
      using s(1,2) get send
      by (simp add: tick_call_def not_less [symmetric] len resend_call_def expire_call_def assms(1) apdu_timeout_handler_def
          service_timeout_handler_good [OF assms(5)] split: option.split)
  qed
  have len: "length (sessions (u_sess U)) = 255" using assms(6) by (simp add: sess_wf_def)
  have "umtp_turn sendto (now, Select_none) (T, U) =
      bindE (foldE (tick_call (resend_call sendto U) (expire_call U) (u_sess U) ms) (sessions (u_sess U)) (u_world U)) (\<lambda>w.
        Inr (True, T\<lparr>last_seconds := now\<rparr>,
          U\<lparr>u_sess := (u_sess U)\<lparr>sessions := map (tick_slot (u_sess U) ms) (sessions (u_sess U))\<rparr>, u_world := w\<rparr>))"
  proof -
    have "umtp_elapse sendto ms U =
      bindE (foldE (tick_call (resend_call sendto U) (expire_call U) (u_sess U) ms) (sessions (u_sess U)) (u_world U)) (\<lambda>w.
        Inr (U\<lparr>u_sess := (u_sess U)\<lparr>sessions := map (tick_slot (u_sess U) ms) (sessions (u_sess U))\<rparr>, u_world := w\<rparr>))"
      using umtp_session_process_quiet [OF len, of "resend_call sendto U" "expire_call U" ms "u_world U"]
      by (simp add: umtp_elapse_def bindE_def split: sum.split)
    moreover have "ucast (word_of_int (now - last_seconds T) * 1000 :: u32) = ms"
      by (simp only: elapsed_milliseconds assms(8))
    ultimately show ?thesis
      using assms(1,2,7)
      by (simp add: umtp_turn_def Let_def bindE_def del: of_int_diff of_int_mult split: sum.split)
  qed
  moreover have "uint ms = (now - last_seconds T) * 1000" if "last_seconds T \<le> now" "now \<le> last_seconds T + 65"
    unfolding assms(8) by (rule uint_of_int_small) (use that in simp_all)
  moreover have "uint ms = 464" if "now = last_seconds T + 66" using that by (simp add: assms(8))
  ultimately show ?thesis using call by blast
qed

text \<open>The node with one session waiting: after 3 seconds its message is sent again.\<close>

theorem umtp_turn_time_witness:
  "tick_call (resend_call ex_net (ex_node 1)) (expire_call (ex_node 1)) (u_sess (ex_node 1)) 3000
      (ex_blank\<lparr>session_id := 1, waiting := True, timer := 3000, s_pdu_len := 4\<rparr>) 0 = Inr 100
   \<and> umtp_turn ex_net (10, Select_none) (ex_vars, ex_node 1) = Inr (True, ex_vars\<lparr>last_seconds := 10\<rparr>, ex_node 1)"
proof -
  let ?call = "tick_call (resend_call ex_net (ex_node 1)) (expire_call (ex_node 1)) (u_sess (ex_node 1)) 3000"
  let ?s = "ex_blank\<lparr>session_id := 1, waiting := True, timer := 3000, s_pdu_len := 4\<rparr>"
  have l: "last_seconds ex_vars = 7" by (simp add: ex_vars_def)
  have retries: "umtp_apdu_retry ex_sess = 1" by (simp add: ex_sess_def)
  have blank: "\<not> waiting ex_blank" by (simp add: ex_blank_def)
  have nodes: "foldE ?call (replicate n ex_blank) w = Inr w" for n w
    using blank by (induction n) (simp_all add: tick_call_def)
  have same: "map (tick_slot ex_sess 3000) (sessions ex_sess) = sessions ex_sess"
    using blank by (simp add: ex_sess_def tick_slot_def)
  have s: "waiting ?s" "timer ?s = 3000" "addr_wf (s_dest ?s)" "retry ?s = 0" "take 4 (s_pdu ?s) = [0, 0, 0, 0]" "s_pdu_len ?s = 4"
      "take (Suc (Suc (Suc (Suc 0)))) (s_pdu ?s) = [0, 0, 0, 0]"
    by (simp_all add: ex_blank_def ex_dl_facts(4)) (simp_all add: eval_nat_numeral)
  have ms: "(3000 :: u16) = word_of_int ((10 - last_seconds ex_vars) * 1000)" "(word_of_int (10 - last_seconds ex_vars) :: u32) \<noteq> 0"
    by (simp_all add: l)
  have a: "0 \<le> socket (ex_link 1)" "dl_encrypt (ex_link 1) = None" "svc_good (u_svc (ex_node 1))" "sess_wf (u_sess (ex_node 1))"
    by (simp_all add: ex_node_facts ex_registered_facts ex_sess_facts)
  note whole = umtp_turn_time [OF ex_node_facts(9) a(1,2) ex_node_facts(3) a(3,4) ms(2,1)]
  note t = whole [THEN conjunct1]
  have "tick_call (resend_call ex_net (ex_node 1)) (expire_call (ex_node 1)) (u_sess (ex_node 1)) 3000 ?s 0 =
      (if retry ?s < umtp_apdu_retry (u_sess (ex_node 1)) then Inr 100 else Inr 0)"
    using whole [THEN conjunct2, THEN conjunct2, THEN conjunct2, rule_format, of ?s "[0, 0, 0, 0]" 0] s
    by (simp add: ex_node_facts retries)
  then have c: "tick_call (resend_call ex_net (ex_node 1)) (expire_call (ex_node 1)) (u_sess (ex_node 1)) 3000 ?s 0 = Inr 100"
    using s by (simp add: ex_node_facts retries)
  have "sessions ex_sess = replicate 255 ex_blank" by (simp add: ex_sess_def)
  then have "umtp_turn ex_net (10, Select_none) (ex_vars, ex_node 1) = Inr (True, ex_vars\<lparr>last_seconds := 10\<rparr>,
      (ex_node 1)\<lparr>u_sess := ex_sess, u_world := 0\<rparr>)"
    using t nodes [of 255 0] same by (simp add: ex_node_facts)
  moreover have "(ex_node 1)\<lparr>u_sess := ex_sess, u_world := 0\<rparr> = ex_node 1" by (simp add: ex_node_def ex_umtp_def)
  ultimately show ?thesis using c by simp
qed

text \<open>C22. Starting. NULL, a missing data link and a missing configuration give \<open>-EINVAL\<close>; failing to
  allocate the message process unit gives \<open>-ENOMEM\<close>. When its thread cannot be created, the result is
  that error and the unit is freed again, with \<open>umtp->mpu\<close> still pointing to it. When the data link
  cannot be initialised, or the thread of the task cannot be created, the result is that error too,
  but the unit is left running and \<open>running\<close> is false, so that \<open>umtp_free\<close> frees the instance under
  it. Otherwise the result is 0, the task runs, and the instance is ready with empty queues.\<close>

theorem umtp_start_spec:
  assumes "u_dl U = Some dl" and "u_conf U = Some \<lparr>sync_mode = False\<rparr>" and "mpu_memory m a b" and "\<not> u_running U"
    and "length (apdu_trans_blk U) = MAX_APDU" and "svc_good (u_svc U)" and "sess_wf (u_sess U)"
    and "dludp_init (so_init os) (Some dl) = Inr (ret, closed, dl')"
  shows "umtp_start os None = Inr (- EINVAL, False, None :: 'w umtp option)
    \<and> umtp_start os (Some (U\<lparr>u_dl := None\<rparr>)) = Inr (- EINVAL, False, Some (U\<lparr>u_dl := None\<rparr>))
    \<and> umtp_start os (Some (U\<lparr>u_conf := None\<rparr>)) = Inr (- EINVAL, False, Some (U\<lparr>u_conf := None\<rparr>))
    \<and> (so_mpu os = None \<longrightarrow> umtp_start os (Some U) = Inr (- ENOMEM, False, Some (U\<lparr>u_mpu := None\<rparr>)))
    \<and> (so_mpu os = Some (m, a, b) \<longrightarrow>
        (\<exists>m'. mpu_wf m' \<and> (\<forall>q. q_pkts q m' = []) \<and>
          (if so_mpu_task os \<noteq> 0
           then umtp_start os (Some U) = Inr (so_mpu_task os, True, Some (U\<lparr>u_mpu := Some m'\<rparr>))
           else mpu_running m' \<noteq> 0 \<and>
            (if ret \<noteq> 0 \<or> so_task os \<noteq> 0
             then \<exists>U'. umtp_start os (Some U) = Inr (if ret \<noteq> 0 then ret else so_task os, False, Some U')
               \<and> u_mpu U' = Some m' \<and> (\<forall>sendto at. umtp_free sendto at False (Some U') = Inr ([], False))
             else umtp_start os (Some U) = Inr (0, False, Some (U\<lparr>u_mpu := Some m', u_dl := dl', u_running := True\<rparr>))
               \<and> umtp_ready (U\<lparr>u_mpu := Some m', u_dl := dl', u_running := True\<rparr>) m'))))"
proof -
  have "\<exists>m'. mpu_wf m' \<and> (\<forall>q. q_pkts q m' = []) \<and>
          (if so_mpu_task os \<noteq> 0
           then umtp_start os (Some U) = Inr (so_mpu_task os, True, Some (U\<lparr>u_mpu := Some m'\<rparr>))
           else mpu_running m' \<noteq> 0 \<and>
            (if ret \<noteq> 0 \<or> so_task os \<noteq> 0
             then \<exists>U'. umtp_start os (Some U) = Inr (if ret \<noteq> 0 then ret else so_task os, False, Some U')
               \<and> u_mpu U' = Some m' \<and> (\<forall>sendto at. umtp_free sendto at False (Some U') = Inr ([], False))
             else umtp_start os (Some U) = Inr (0, False, Some (U\<lparr>u_mpu := Some m', u_dl := dl', u_running := True\<rparr>))
               \<and> umtp_ready (U\<lparr>u_mpu := Some m', u_dl := dl', u_running := True\<rparr>) m'))"
    if os: "so_mpu os = Some (m, a, b)"
  proof -
    obtain m0 where m0: "mpu_create (Some (m, a, b)) = (0, Some m0)" "mpu_wf m0" "\<forall>q. q_pkts q m0 = []"
      by (rule mpu_create_ok [OF assms(3)])
    show ?thesis
      using m0 assms os
      by (intro exI [of _ "m0\<lparr>mpu_running := (if so_mpu_task os \<noteq> 0 then 0 else 1)\<rparr>"])
        (simp add: umtp_start_def start_mpu_def mpu_start_def mpu_running_wf umtp_free_def umtp_ready_def Let_def)
  qed
  then show ?thesis using assms(1,2) by (simp add: umtp_start_def start_mpu_def mpu_create_def)
qed

definition ex_os_start :: "int \<Rightarrow> start_os" where
  "ex_os_start created = \<lparr>so_mpu = Some (ex_raw, 4096, 40960), so_mpu_task = created, so_init = ex_os, so_task = 0\<rparr>"

theorem umtp_start_spec_witness:
  "\<exists>U'. umtp_start (ex_os_start 0) (Some ((ex_node 1)\<lparr>u_running := False\<rparr>)) = Inr (0, False, Some U') \<and> u_running U'
     \<and> (\<exists>U'. umtp_start (ex_os_start 11) (Some ((ex_node 1)\<lparr>u_running := False\<rparr>)) = Inr (11, True, Some U'))"
proof -
  let ?U = "(ex_node 1)\<lparr>u_running := False\<rparr>"
  have U: "u_dl ?U = Some (ex_link 1)" "u_conf ?U = Some \<lparr>sync_mode = False\<rparr>" "mpu_memory ex_raw 4096 40960" "\<not> u_running ?U"
    "length (apdu_trans_blk ?U) = MAX_APDU" "svc_good (u_svc ?U)" "sess_wf (u_sess ?U)"
    by (simp_all add: ex_node_facts ex_registered_facts ex_sess_facts) (simp_all add: ex_node_def ex_umtp_def mpu_memory_def
        ex_raw_def ex_packet_def)
  have i: "dludp_init (so_init (ex_os_start c)) (Some (ex_link 1)) = Inr (0, [], Some ((ex_link 1)\<lparr>broadcast_addr := 1 OR NOT 0x00FFFFFF\<rparr>))" for c
    by (simp add: ex_os_start_def ex_os_def ex_link_def get_local_address_ioctl_def get_local_ifr_ioctl_def htons_def Let_def)
  have e: "so_mpu (ex_os_start c) = Some (ex_raw, 4096, 40960)" "so_mpu_task (ex_os_start c) = c" "so_task (ex_os_start c) = 0" for c
    by (simp_all add: ex_os_start_def)
  show ?thesis
    using umtp_start_spec [OF U i, of 0] umtp_start_spec [OF U i, of 11] by (auto simp: e)
qed

section \<open>A full send queue\<close>

lemma apdu_handler_full:
  fixes svc sid :: u8
  assumes ready: "umtp_ready U m" and full: "length (sends m) = 16" and k: "length d \<le> 1020"
    and h: "service_handler (u_svc U) src \<lparr>sd_service_id = uint svc, sd_data_len = 0, sd_data = None\<rparr>
         (drop 4 (apdu_trans_blk U)) (Some (d @ rest)) (of_nat (length d)) (u_world U) = Inr (ret, sd, part, w)"
    and part: "length part = MAX_APDU - 4" and fits: "ret = 0 \<Longrightarrow> answer_fits sd part"
  obtains b where "apdu_handler sendto src (Some (([1, 0, svc, sid] @ d) @ rest)) (of_nat (length ([1, 0, svc, sid] @ d))) U =
      Inr (- ENOMEM, U\<lparr>apdu_trans_blk := b, u_world := w\<rparr>)" and "length b = MAX_APDU"
proof -
  have one: "apdu_has_session_id 1" by (simp add: apdu_has_session_id_def)
  let ?apdu = "hdr 1 UMTP_PDU_REQUEST svc sid @ d @ rest"
  let ?len = "of_nat (4 + length d) :: u16"
  have hd: "hdr 1 UMTP_PDU_REQUEST svc sid = [1, 0, svc, sid]" by (simp add: hdr_def one)
  have blk: "length (apdu_trans_blk U) = MAX_APDU" using ready by (simp add: umtp_ready_def)
  have len: "word_of_int (uint ?len - int 4) = (of_nat (length d) :: u32)"
    using k uint_of_nat_small [of "4 + length d"] by simp
  have "drop 4 ?apdu = d @ rest" by (simp add: hd)
  then have h': "service_handler (u_svc U) src \<lparr>sd_service_id = uint svc, sd_data_len = 0, sd_data = None\<rparr>
         (drop 4 (apdu_trans_blk U)) (Some (drop 4 ?apdu)) (word_of_int (uint ?len - int 4)) (u_world U) = Inr (ret, sd, part, w)"
    unfolding len using h by simp
  obtain b n where eq: "apdu_request sendto src 1 svc sid 4 ?apdu ?len U =
      priv_umtp_apdu_submit sendto src b (int n) (U\<lparr>apdu_trans_blk := b, u_world := w\<rparr>)" and b: "length b = MAX_APDU"
    by (rule apdu_request_encodes [where flag = 1 and svc = svc and sid = sid, unfolded if_P [OF one], OF blk h' part fits, of sendto])
  have "priv_umtp_apdu_submit sendto src b (int n) (U\<lparr>apdu_trans_blk := b, u_world := w\<rparr>)
      = Inr (- ENOMEM, U\<lparr>apdu_trans_blk := b, u_world := w\<rparr>)"
    using ready full mpu_put_full [of m Send_queue src "()" b "int n"]
    by (cases U) (simp add: priv_umtp_apdu_submit_def umtp_ready_def mpu_put_send_def)
  then have "apdu_handler sendto src (Some ?apdu) ?len U = Inr (- ENOMEM, U\<lparr>apdu_trans_blk := b, u_world := w\<rparr>)"
    using apdu_handler_hdr [of UMTP_PDU_REQUEST sendto src 1 svc sid "d @ rest" ?len U] eq one
    by (simp del: of_nat_add)
  then show ?thesis using that [OF _ b] by (simp add: hd)
qed

text \<open>C39. A request can be executed twice. When the send queue is full, the answer of a request cannot be
  queued: the request handler has run, but the packet counts as refused and stays. In the same turn of the inner
  loop the oldest packet to send goes out, so in the next turn the same request is handled again:
  its handler runs a second time, and now the answer is queued and the packet removed.\<close>

theorem request_runs_twice:
  fixes svc sid :: u8
  assumes "umtp_ready V m" and "u_dl V = Some dl" and "0 \<le> socket dl" and "dl_encrypt dl = None" and "takes_frames sendto log"
    and "q_pkts Recv_queue m = x # xs" and "pkt_msg x = (src, (), [FTTP_PROTOCOL_VERSION, 1, 0, svc, sid] @ d)"
    and "length d \<le> 1020" and "d \<noteq> []"
    and "length (sends m) = 16" and "hd (sends m) = (dst, (), bs)" and "addr_wf dst" and "bs \<noteq> []" and "length bs \<le> MAX_APDU"
    and "svc_entries (u_svc V) (uint svc) = Some k"
    and "\<And>blk rest w. length blk = MAX_APDU - 4 \<Longrightarrow> the (req_handler (the (svc_mem (u_svc V) k))) src
        \<lparr>sd_service_id = uint svc, sd_data_len = 0, sd_data = None\<rparr> blk (d @ rest) (int (length d)) w = Inr (0, sd, part blk, run w)"
    and "\<And>blk. length blk = MAX_APDU - 4 \<Longrightarrow> length (part blk) = MAX_APDU - 4"
    and "\<And>blk. length blk = MAX_APDU - 4 \<Longrightarrow> answer_fits sd (part blk)"
  shows "\<exists>m1 V1 m2 V2 blk. bindE (mpu_msg_handle Recv_queue (Some (priv_umtp_handle_msg sendto)) (m, V))
        (mpu_msg_handle Send_queue (Some (priv_umtp_send_msg sendto))) = Inr (m1, V1)
    \<and> q_pkts Recv_queue m1 = x # xs
    \<and> u_world V1 = log (run (u_world V)) (UMTP_SIGNATURE # FTTP_PROTOCOL_VERSION # bs) (fst (dest_of dl dst)) (snd (dest_of dl dst))
    \<and> mpu_msg_handle Recv_queue (Some (priv_umtp_handle_msg sendto)) (m1, V1) = Inr (m2, V2)
    \<and> q_pkts Recv_queue m2 = xs \<and> u_world V2 = run (u_world V1)
    \<and> sends m2 = tl (sends m) @ [(src, (), answer 1 svc sid 0 (answer_data sd (part blk)))]"
proof -
  let ?msg = "[1, 0, svc, sid] @ d"
  have one: "apdu_has_session_id 1" by (simp add: apdu_has_session_id_def)
  have V: "mpu_wf m" "mpu_running m \<noteq> 0" "u_mpu V = Some m" "svc_good (u_svc V)" "length (apdu_trans_blk V) = MAX_APDU"
    using assms(1) by (simp_all add: umtp_ready_def)
  have "x \<in> set (q_pkts Recv_queue m)" "pkt_msg x = (src, (), FTTP_PROTOCOL_VERSION # ?msg)" "length (FTTP_PROTOCOL_VERSION # ?msg) < MAX_MPU_DATA"
    using assms(6,7,8) by simp_all
  from pkt_msg_buffer [OF V(1) this] obtain rest where px: "p_buffer x = (FTTP_PROTOCOL_VERSION # ?msg) @ rest"
    "p_length x = of_nat (length (FTTP_PROTOCOL_VERSION # ?msg))" "p_addr x = src" by metis
  have len: "(of_nat (length d) :: u32) \<noteq> 0" "sint (of_nat (length d) :: u32) = int (length d)"
    using word_nz_small [of "int (length d)"] sint_small [of "int (length d)"] assms(8,9) by simp_all
  have sh: "service_handler (u_svc V) src \<lparr>sd_service_id = uint svc, sd_data_len = 0, sd_data = None\<rparr>
         blk (Some (d @ rest)) (of_nat (length d)) w = Inr (0, sd, part blk, run w)" if "length blk = MAX_APDU - 4" for blk w
    using assms(15,16) len that V(4) by (simp add: service_handler_good)
  \<comment> \<open>The first time the answer does not fit.\<close>
  have l1: "length (drop 4 (apdu_trans_blk V)) = MAX_APDU - 4" using V(5) by simp
  from apdu_handler_full [OF assms(1,10,8) sh [OF l1] assms(17) [OF l1] assms(18) [OF l1], of sendto sid]
  obtain b where b: "apdu_handler sendto src (Some (?msg @ rest)) (of_nat (length ?msg)) V =
      Inr (- ENOMEM, V\<lparr>apdu_trans_blk := b, u_world := run (u_world V)\<rparr>)" "length b = MAX_APDU" by metis
  let ?V0 = "V\<lparr>apdu_trans_blk := b, u_world := run (u_world V)\<rparr>"
  have same: "V\<lparr>u_mpu := Some m\<rparr> = V" using V(3) by (cases V) simp
  have "priv_umtp_handle_msg sendto x (m, V) = Inr (- ENOMEM, m, ?V0)"
    using handle_msg_apdu [OF px(1,2), of sendto m V] b(1) assms(8) V(3) by (simp add: px(3) same)
  then have first: "mpu_msg_handle Recv_queue (Some (priv_umtp_handle_msg sendto)) (m, V) = Inr (m, ?V0)"
    using mpu_msg_handle_first [of m Recv_queue x xs "priv_umtp_handle_msg sendto" V "- ENOMEM" m ?V0, OF V(1) assms(6) _ V(1)] assms(6)
    by simp
  \<comment> \<open>The oldest packet goes out.\<close>
  obtain y ys where y: "q_pkts Send_queue m = y # ys" "pkt_msg y = (dst, (), bs)"
    using assms(10,11) by (cases "q_pkts Send_queue m") auto
  let ?V1 = "?V0\<lparr>u_world := log (run (u_world V)) (UMTP_SIGNATURE # FTTP_PROTOCOL_VERSION # bs) (fst (dest_of dl dst)) (snd (dest_of dl dst))\<rparr>"
  let ?m1 = "q_pop Send_queue m"
  have "priv_umtp_send_msg sendto y (m, ?V0) = Inr (0, m, ?V1)"
    using send_msg_logged [where q = Send_queue, OF V(1) _ y(2) assms(5) _ assms(3,4,12,13,14), of ?V0 m] y(1) assms(2) by simp
  then have second: "mpu_msg_handle Send_queue (Some (priv_umtp_send_msg sendto)) (m, ?V0) = Inr (?m1, ?V1)"
    using mpu_msg_handle_first [of m Send_queue y ys "priv_umtp_send_msg sendto" ?V0 0 m ?V1, OF V(1) y(1) _ V(1)] y(1) by simp
  have m1: "mpu_wf ?m1" "q_pkts Send_queue ?m1 = ys" "q_pkts Recv_queue ?m1 = x # xs" "mpu_running ?m1 \<noteq> 0"
    using q_pop_ok(1,2) [OF V(1), of Send_queue] q_pop_ok(3) [OF V(1), of Send_queue Recv_queue] y(1) assms(6) V(2)
    by (simp_all add: q_pop_def)
  \<comment> \<open>The second time it does.\<close>
  let ?V2 = "?V1\<lparr>u_mpu := Some ?m1\<rparr>"
  have r: "umtp_ready ?V2 ?m1" using assms(1) b(2) m1 by (simp add: umtp_ready_def)
  have room: "length (sends ?m1) < 16" using assms(10) y(1) m1(2) by simp
  have l2: "length (drop 4 (apdu_trans_blk ?V2)) = MAX_APDU - 4" using b(2) by simp
  note s2 = sh [OF l2, of "u_world ?V2"]
  have four: "4 = length (hdr 1 UMTP_PDU_REQUEST svc sid)" "4 + length d < 65536" using assms(8) by (simp_all add: hdr_def one)
  have s2': "service_handler (u_svc ?V2) src \<lparr>sd_service_id = uint svc, sd_data_len = 0, sd_data = None\<rparr>
         (drop 4 (apdu_trans_blk ?V2)) (Some (d @ rest)) (of_nat (length d)) (u_world ?V2) = Inr (0, sd, part (drop 4 (apdu_trans_blk ?V2)), run (u_world ?V2))"
    using s2 by simp
  obtain m' blk where hd: "apdu_handler sendto src (Some (hdr 1 UMTP_PDU_REQUEST svc sid @ d @ rest)) (of_nat (4 + length d)) ?V2 =
      Inr (0, ?V2\<lparr>apdu_trans_blk := blk, u_world := run (u_world ?V2), u_mpu := Some m'\<rparr>)"
    "umtp_ready (?V2\<lparr>apdu_trans_blk := blk, u_world := run (u_world ?V2), u_mpu := Some m'\<rparr>) m'"
    "sends m' = sends ?m1 @ [(src, (), answer 1 svc sid 0 (answer_data sd (part (drop 4 (apdu_trans_blk ?V2)))))]" "q_pkts Recv_queue m' = q_pkts Recv_queue ?m1"
    by (rule apdu_handler_request [OF r room four s2' assms(17) [OF l2] assms(18) [OF l2], of sendto])
  let ?V3 = "?V2\<lparr>apdu_trans_blk := blk, u_world := run (u_world ?V2), u_mpu := Some m'\<rparr>"
  have "priv_umtp_handle_msg sendto x (?m1, ?V1) = Inr (0, m', ?V3)"
    using handle_msg_apdu [OF px(1,2), of sendto ?m1 ?V1] hd(1) assms(8) by (simp add: px(3) hdr_def one)
  moreover have "mpu_wf m'" using hd(2) by (simp add: umtp_ready_def)
  ultimately have third: "mpu_msg_handle Recv_queue (Some (priv_umtp_handle_msg sendto)) (?m1, ?V1) = Inr (q_pop Recv_queue m', ?V3)"
    using mpu_msg_handle_first [of ?m1 Recv_queue x xs "priv_umtp_handle_msg sendto" ?V1 0 m' ?V3, OF m1(1,3)] hd(4) m1(3) by simp
  have pop: "q_pkts Recv_queue (q_pop Recv_queue m') = xs" "q_pkts Send_queue (q_pop Recv_queue m') = q_pkts Send_queue m'"
    using q_pop_ok(2) [OF \<open>mpu_wf m'\<close>, of Recv_queue] q_pop_ok(3) [OF \<open>mpu_wf m'\<close>, of Recv_queue Send_queue] hd(4) m1(3) by simp_all
  show ?thesis
    by (rule exI [of _ ?m1], rule exI [of _ ?V1], rule exI [of _ "q_pop Recv_queue m'"], rule exI [of _ ?V3],
        rule exI [of _ "drop 4 (apdu_trans_blk ?V2)"])
      (use first second third m1(2,3) pop hd(3) y(1) in simp)
qed

lemma ex_filled: "n \<le> 16 \<Longrightarrow> \<exists>m. mpu_wf m \<and> mpu_running m \<noteq> 0 \<and> sends m = replicate n (ex_addr, (), [0]) \<and> q_pkts Recv_queue m = []"
proof (induction n)
  case 0
  then show ?case by (intro exI [of _ ex_mpu]) (simp add: ex_mpu_facts)
next
  case (Suc n)
  then obtain m where m: "mpu_wf m" "mpu_running m \<noteq> 0" "sends m = replicate n (ex_addr, (), [0])" "q_pkts Recv_queue m = []" by auto
  have "length (q_pkts Send_queue m) < 16" using arg_cong [OF m(3), of length] Suc.prems by simp
  then obtain m' where "mpu_wf m'" "sends m' = sends m @ [(ex_addr, (), take (nat 1) [0])]" "q_pkts Recv_queue m' = q_pkts Recv_queue m"
    "mpu_running m' = mpu_running m"
    by (rule mpu_put_ok [OF m(1,2), of Send_queue 1 "[0]" ex_addr "()"]) simp_all
  then show ?case using m by (intro exI [of _ m']) (simp add: replicate_append_same)
qed

text \<open>The counting service runs at 0 and at 101, where the frame that went out in between counts 100.\<close>

theorem request_runs_twice_witness:
  "\<exists>m m1 V1 m2 V2. bindE (mpu_msg_handle Recv_queue (Some (priv_umtp_handle_msg ex_net)) (m, (ex_node 1)\<lparr>u_mpu := Some m\<rparr>))
        (mpu_msg_handle Send_queue (Some (priv_umtp_send_msg ex_net))) = Inr (m1, V1) \<and> u_world V1 = 101
    \<and> mpu_msg_handle Recv_queue (Some (priv_umtp_handle_msg ex_net)) (m1, V1) = Inr (m2, V2) \<and> u_world V2 = 102"
proof -
  obtain m0 where m0: "mpu_wf m0" "mpu_running m0 \<noteq> 0" "sends m0 = replicate 16 (ex_addr, (), [0])" "q_pkts Recv_queue m0 = []"
    using ex_filled [of 16] by auto
  obtain m where m: "mpu_wf m" "map pkt_msg (q_pkts Recv_queue m) = map pkt_msg (q_pkts Recv_queue m0) @ [(ex_addr, (), take (nat 6) [1, 1, 0, 5, 9, 7])]"
    "q_pkts Send_queue m = q_pkts Send_queue m0" "mpu_running m = mpu_running m0"
    by (rule mpu_put_ok [OF m0(1,2), of Recv_queue 6 "[1, 1, 0, 5, 9, 7]" ex_addr "()"]) (simp_all add: m0(4))
  then obtain x where x: "q_pkts Recv_queue m = [x]" "pkt_msg x = (ex_addr, (), [1, 1, 0, 5, 9] @ [7])" using m0(4) by auto
  let ?V = "(ex_node 1)\<lparr>u_mpu := Some m\<rparr>"
  let ?sd = "\<lparr>sd_service_id = 5, sd_data_len = 1, sd_data = None\<rparr>"
  have V: "umtp_ready ?V m" "u_dl ?V = Some (ex_link 1)" "u_svc ?V = ex_registered" "u_world ?V = 0"
    using ex_node_facts(8) [of 1] m m0(2) by (simp_all add: umtp_ready_def ex_node_facts)
  have q: "length (sends m) = 16" "hd (sends m) = (ex_addr, (), [0])" using m(3) m0(3) by simp_all
  have d: "0 \<le> socket (ex_link 1)" "dl_encrypt (ex_link 1) = None" by (simp_all add: ex_node_facts)
  have "\<exists>m1 V1 m2 V2 blk. bindE (mpu_msg_handle Recv_queue (Some (priv_umtp_handle_msg ex_net)) (m, ?V))
        (mpu_msg_handle Send_queue (Some (priv_umtp_send_msg ex_net))) = Inr (m1, V1)
    \<and> q_pkts Recv_queue m1 = x # [] \<and> u_world V1 = (u_world ?V + 1) + 100
    \<and> mpu_msg_handle Recv_queue (Some (priv_umtp_handle_msg ex_net)) (m1, V1) = Inr (m2, V2)
    \<and> q_pkts Recv_queue m2 = [] \<and> u_world V2 = u_world V1 + 1
    \<and> sends m2 = tl (sends m) @ [(ex_addr, (), answer 1 5 9 0 (answer_data ?sd (blk[0 := 7])))]"
    by (rule request_runs_twice [OF V(1,2) d ex_node_facts(3) x _ _ q, where k = 0 and run = "\<lambda>w. w + 1"])
      (simp_all add: V ex_registered_facts ex_service_def answer_fits_def ex_dl_facts(4))
  then show ?thesis unfolding V(4) by (elim exE conjE, intro exI conjI; (assumption | simp))
qed

end
