(* ===== verification/Node.thy ===== *)
theory Node
  imports Umtp
begin

text \<open>
  An instance as a whole: the steps that its threads take (turns of the protocol task and of the
  message process unit's task, submissions, changes of the settings), in any order, and the safety of
  every run. A step is taken as atomic; the interleavings inside a queue operation are in
  \<open>Mpu_Threads\<close>.

  \<open>safe P r\<close> says of a result that it is no fault other than a loop that does not return or an
  overflow of the session counter, and that a value satisfies \<open>P\<close>. Every operation gets one lemma
  of this form over the invariant, and they compose along \<open>bindE\<close>.
\<close>

section \<open>Safe results\<close>

definition safe :: "('a \<Rightarrow> bool) \<Rightarrow> 'a res \<Rightarrow> bool" where
  "safe P r \<longleftrightarrow> (case r of Inl e \<Rightarrow> e = No_return \<or> e = Signed_overflow | Inr x \<Rightarrow> P x)"

lemma safe_simps [simp]:
  "safe P (Inr x) = P x" "safe P (Inl e) \<longleftrightarrow> e = No_return \<or> e = Signed_overflow"
  by (simp_all add: safe_def)

lemma safe_bind: "safe Q m \<Longrightarrow> (\<And>x. Q x \<Longrightarrow> safe P (f x)) \<Longrightarrow> safe P (bindE m f)"
  by (cases m) simp_all

lemma safe_mono: "safe Q r \<Longrightarrow> (\<And>x. Q x \<Longrightarrow> P x) \<Longrightarrow> safe P r"
  by (cases r) simp_all

lemma safe_foldE: "P s \<Longrightarrow> (\<And>x s. x \<in> set xs \<Longrightarrow> P s \<Longrightarrow> safe P (f x s)) \<Longrightarrow> safe P (foldE f xs s)"
  by (induction xs arbitrary: s) (auto intro: safe_bind)

section \<open>The message process unit\<close>

text \<open>Every packet has an address of the right size and a length its handler copes with.\<close>

fun queue_limit :: "mpu_queue \<Rightarrow> nat" where
  "queue_limit Recv_queue = MAX_MPU_DATA"
| "queue_limit Send_queue = MAX_APDU"

definition pkt_ok :: "mpu_queue \<Rightarrow> unit mpu_packet \<Rightarrow> bool" where
  "pkt_ok q x \<longleftrightarrow> addr_wf (p_addr x) \<and> unat (p_length x) \<le> queue_limit q \<and> length (p_buffer x) = MAX_MPU_DATA"

definition mpu_ok :: "unit mpu \<Rightarrow> bool" where
  "mpu_ok m \<longleftrightarrow> mpu_wf m \<and> (\<forall>q. \<forall>x \<in> set (q_pkts q m). pkt_ok q x)"

lemma mpu_ok_running [simp]: "mpu_ok (m\<lparr>mpu_running := r\<rparr>) = mpu_ok m"
  by (simp add: mpu_ok_def mpu_running_wf)

lemma mpu_put_keeps:
  assumes "mpu_ok m" and "addr_wf peer" and "0 \<le> len" and "len \<le> int (queue_limit q)" and "nat len \<le> length bs"
  shows "\<exists>r m'. mpu_put q (Some m) peer () (Some bs) len = Inr (r, Some m') \<and> mpu_ok m'"
proof -
  have wf: "mpu_wf m" using assms(1) by (simp add: mpu_ok_def)
  consider "mpu_running m = 0" | "mpu_running m \<noteq> 0" "length (q_pkts q m) = 16"
    | "mpu_running m \<noteq> 0" "length (q_pkts q m) < 16"
    using q_pkts_bound [OF wf, of q] by linarith
  then show ?thesis
  proof cases
    case 1
    then show ?thesis using assms(1) by (simp add: mpu_put_def)
  next
    case 2
    then show ?thesis using assms(1) mpu_put_full [OF wf] by simp
  next
    case 3
    have le: "len \<le> int MAX_MPU_DATA" using assms(4) by (cases q) simp_all
    obtain m' x where m': "mpu_put q (Some m) peer () (Some bs) len = Inr (0, Some m')" "mpu_wf m'"
        "q_pkts q m' = q_pkts q m @ [x]" "pkt_msg x = (peer, (), take (nat len) bs)" "unat (p_length x) = nat len"
      and other: "\<And>q'. q' \<noteq> q \<Longrightarrow> q_pkts q' m' = q_pkts q' m"
      by (rule mpu_put_pkt [OF wf 3 assms(3) le assms(5), of peer "()"]) blast
    have "length (p_buffer x) = MAX_MPU_DATA" using q_pkts_buffer [OF m'(2), of x q] m'(3) by simp
    then have x: "pkt_ok q x" using m'(4,5) assms(2,4) by (auto simp: pkt_ok_def pkt_msg_def)
    have "pkt_ok q' y" if "y \<in> set (q_pkts q' m')" for q' y
      using that x m'(3) other [of q'] assms(1) by (cases "q' = q") (auto simp: mpu_ok_def)
    then show ?thesis using m'(1,2) by (auto simp: mpu_ok_def)
  qed
qed

lemma mpu_pop_ok:
  assumes "mpu_ok m"
  shows "\<exists>d b. ringbuf_pop Map.empty (Some (get_queue q m)) NULL = Inr (d, Some b, Map.empty) \<and> mpu_ok (set_queue q b m)"
proof (cases "q_pkts q m = []")
  case True
  have wf: "mpu_wf m" using assms by (simp add: mpu_ok_def)
  have "ringbuf_empty (Some (get_queue q m))" using q_pkts_empty [OF wf] True by blast
  moreover have "set_queue q (get_queue q m) m = m" by (cases q) simp_all
  ultimately show ?thesis using assms by (intro exI [of _ False] exI [of _ "get_queue q m"]) simp
next
  case False
  have wf: "mpu_wf m" using assms by (simp add: mpu_ok_def)
  note pop = q_pop_ok [OF wf False]
  have "pkt_ok q' y" if "y \<in> set (q_pkts q' (q_pop q m))" for q' y
    using that assms pop(2,3) by (cases "q' = q") (auto simp: mpu_ok_def dest: list.set_sel(2) [OF False])
  then have "mpu_ok (q_pop q m)" using pop(1) by (simp add: mpu_ok_def)
  then show ?thesis using pop(4) by (auto simp: q_pop_def)
qed

text \<open>A handler that keeps the packets in order and a property \<open>K\<close> of the rest.\<close>

definition handler_ok :: "(unit mpu \<times> 'w \<Rightarrow> bool) \<Rightarrow> mpu_queue \<Rightarrow> (unit, 'w) mpu_handler \<Rightarrow> bool" where
  "handler_ok J q f \<longleftrightarrow> (\<forall>x mw. pkt_ok q x \<longrightarrow> J mw \<longrightarrow> safe (\<lambda>(ret, m, w). J (m, w)) (f x mw))"

definition keeps_pop :: "(unit mpu \<times> 'w \<Rightarrow> bool) \<Rightarrow> bool" where
  "keeps_pop J \<longleftrightarrow> (\<forall>m w. J (m, w) \<longrightarrow> mpu_ok m \<and> (\<forall>m'. mpu_ok m' \<longrightarrow> J (m', w)))"

lemma keeps_popD: "keeps_pop J \<Longrightarrow> J (m, w) \<Longrightarrow> mpu_ok m" "keeps_pop J \<Longrightarrow> J (m, w) \<Longrightarrow> mpu_ok m' \<Longrightarrow> J (m', w)"
  unfolding keeps_pop_def by blast+

lemma msg_handle_safe:
  assumes "keeps_pop J" and "handler_ok J q f" and "J (m, w)"
  shows "safe J (mpu_msg_handle q (Some f) (m, w))"
proof -
  have ok: "mpu_ok m" by (rule keeps_popD(1) [OF assms(1,3)])
  then have wf: "mpu_wf m" by (simp add: mpu_ok_def)
  show ?thesis
  proof (cases "q_pkts q m")
    case Nil
    show ?thesis by (simp add: mpu_msg_handle_empty [OF wf Nil] assms(3))
  next
    case (Cons x xs)
    define b where "b = get_queue q m"
    define i where "i = rb_slot b (tail b)"
    have qb: "q_ok b" using mpu_wf_queue [OF wf] by (simp add: b_def)
    have ne: "\<not> ringbuf_empty (Some b)" using q_pkts_empty [OF wf, of q] Cons by (simp add: b_def)
    have i: "i < 16" using q_slot_less [OF qb] by (simp add: i_def)
    have peek: "ringbuf_peek (Some b) = Inr (slot_addr b i)" using ne q_ring_data [OF qb] by (simp add: i_def)
    have nz: "slot_addr b i \<noteq> NULL" using slot_addr_nz [OF wf] by (simp add: b_def)
    obtain pkt where pkt: "pkts m (slot_addr b i) = Some pkt" using wf i unfolding mpu_wf_def b_def by blast
    have "q_pkts q m = pkt # tl (q_pkts q m)"
      using rb.content_dequeue [OF mpu_wf_rb [OF wf, of q], of "\<lambda>i. the (pkts m (slot_addr b i))"] ne pkt
      by (simp add: q_pkts_def b_def i_def)
    then have "pkt \<in> set (q_pkts q m)" by (metis list.set_intros(1))
    then have "pkt_ok q pkt" using ok by (simp add: mpu_ok_def)
    then have f: "safe (\<lambda>(ret, m, w). J (m, w)) (f pkt (m, w))" using assms(2,3) by (simp add: handler_ok_def)
    have pop: "safe J (if ret \<noteq> 0 then Inr (m1, w1)
        else bindE (ringbuf_pop Map.empty (Some (get_queue q m1)) NULL) (\<lambda>(_, bo, _).
          Inr (case bo of Some b \<Rightarrow> set_queue q b m1 | None \<Rightarrow> m1, w1)))" if J: "J (m1, w1)" for ret :: int and m1 w1
    proof -
      have ok1: "mpu_ok m1" by (rule keeps_popD(1) [OF assms(1) J])
      obtain d b1 where "ringbuf_pop Map.empty (Some (get_queue q m1)) NULL = Inr (d, Some b1, Map.empty)"
        "mpu_ok (set_queue q b1 m1)" using mpu_pop_ok [OF ok1] by blast
      then show ?thesis using J keeps_popD(2) [OF assms(1) J] by (simp del: ringbuf_pop.simps)
    qed
    show ?thesis
      using ne peek nz pkt
      unfolding mpu_msg_handle_def fst_conv b_def [symmetric]
      by (simp del: ringbuf_empty.simps ringbuf_peek.simps ringbuf_pop.simps)
        (rule safe_bind [OF f], use pop in auto)
  qed
qed

lemma drain_safe:
  assumes "keeps_pop J" and "handler_ok J Recv_queue f" and "handler_ok J Send_queue g" and "J mw"
  shows "safe J (case mpu_drain (Some f) (Some g) mw of None \<Rightarrow> Inl No_return | Some r \<Rightarrow> r)"
proof (cases "mpu_drain (Some f) (Some g) mw")
  case (Some r)
  have "r = Some f \<longrightarrow> s = Some g \<longrightarrow> J mw \<longrightarrow> safe J y" if "mpu_drain r s mw = Some y" for r s mw y
  proof (rule mpu_drain.raw_induct [OF _ that], intro impI)
    fix loop r s and mw and y
    assume IH: "\<And>r s mw y. loop r s mw = Some y \<Longrightarrow> r = Some f \<longrightarrow> s = Some g \<longrightarrow> J mw \<longrightarrow> safe J y"
      and body: "(if ringbuf_empty (Some (send_queue (fst mw))) \<and> ringbuf_empty (Some (recv_queue (fst mw)))
        then Some (Inr mw)
        else case bindE (mpu_msg_handle Recv_queue r mw) (mpu_msg_handle Send_queue s) of
            Inl e \<Rightarrow> Some (Inl e) | Inr mw' \<Rightarrow> loop r s mw') = Some y"
      and rs: "r = Some f" "s = Some g" "J mw"
    have h: "safe J (mpu_msg_handle q (Some h) mw')" if "handler_ok J q h" "J mw'" for q h mw'
      using msg_handle_safe [OF assms(1) that(1)] that(2) by (cases mw') simp
    have both: "safe J (bindE (mpu_msg_handle Recv_queue r mw) (mpu_msg_handle Send_queue s))"
      unfolding rs by (rule safe_bind [OF h [OF assms(2) rs(3)] h [OF assms(3)]])
    show "safe J y"
    proof (cases "bindE (mpu_msg_handle Recv_queue r mw) (mpu_msg_handle Send_queue s)")
      case (Inl e)
      then have "y = Inr mw \<or> y = Inl e" using body by (simp del: ringbuf_empty.simps split: if_splits)
      moreover have "e = No_return \<or> e = Signed_overflow" using both by (simp add: Inl)
      ultimately show ?thesis using rs(3) by auto
    next
      case (Inr mw')
      then have "J mw'" using both by simp
      then have "safe J y'" if "loop r s mw' = Some y'" for y' using IH [OF that] rs(1,2) by simp
      then show ?thesis using body Inr rs(3) by (simp del: ringbuf_empty.simps split: if_splits) auto
    qed
  qed
  then show ?thesis using Some assms(4) by simp
qed simp

section \<open>The sessions\<close>

definition slot_fit :: "('t, 'u) umtp_session \<Rightarrow> bool" where
  "slot_fit s \<longleftrightarrow> addr_wf (s_dest s) \<and> unat (s_pdu_len s) \<le> MAX_APDU"

definition sess_fit :: "('t, 'u) session_state \<Rightarrow> bool" where
  "sess_fit S \<longleftrightarrow> sess_wf S \<and> (\<forall>s \<in> set (sessions S). slot_fit s)"

lemma sess_fit_update:
  "sess_fit S \<Longrightarrow> sess_wf S' \<Longrightarrow> sessions S' = (sessions S)[i := s] \<Longrightarrow> slot_fit s \<Longrightarrow> sess_fit S'"
  by (auto simp: sess_fit_def dest: set_update_subset_insert [THEN subsetD])

lemma sess_fit_nth: "sess_fit S \<Longrightarrow> i < 255 \<Longrightarrow> slot_fit (sessions S ! i)"
  by (simp add: sess_fit_def sess_wf_def)

lemma free_session_loop_faults:
  assumes "free_session_loop S = Some (Inl e)" and "length (sessions S) = 255"
  shows "e = Signed_overflow"
proof -
  have "length (sessions S) = 255 \<longrightarrow> r = Inl e \<longrightarrow> e = Signed_overflow" if "free_session_loop S = Some r" for r
  proof (rule free_session_loop.raw_induct [OF _ that], intro impI)
    fix loop S r
    assume IH: "\<And>S r. loop S = Some r \<Longrightarrow> length (sessions S) = 255 \<longrightarrow> r = Inl e \<longrightarrow> e = Signed_overflow"
      and body: "(let n = next_session_id S; idx = session_get_index S (word_of_int n) in
        if idx = of_nat MAX_UMTP_SESSION
        then (let idx = session_get_index S 0 in
          Some (if idx \<noteq> of_nat MAX_UMTP_SESSION
            then bindE (upd_session (unat idx) (\<lambda>s. s\<lparr>session_id := word_of_int n, waiting := False,
                   timer := apdu_timeout S\<rparr>) S) (\<lambda>S'.
                 bindE (incr_session_id n) (\<lambda>n'. Inr (word_of_int n, S'\<lparr>next_session_id := n'\<rparr>)))
            else Inr (0, S)))
        else case incr_session_id n of
            Inl e \<Rightarrow> Some (Inl e)
          | Inr n' \<Rightarrow> loop (S\<lparr>next_session_id := n'\<rparr>)) = Some r"
      and len: "length (sessions S) = 255" and r: "r = Inl e"
    have over: "incr_session_id n = Inl f \<Longrightarrow> f = Signed_overflow" for n f
      by (auto simp: incr_session_id_def split: if_splits)
    have idx: "session_get_index S 0 \<noteq> 255 \<Longrightarrow> unat (session_get_index S 0) < 255"
      by (rule session_index_cases [OF len, of 0]) auto
    have "loop (S\<lparr>next_session_id := n\<rparr>) = Some (Inl e) \<Longrightarrow> e = Signed_overflow" for n
      using IH [of "S\<lparr>next_session_id := n\<rparr>"] len by simp
    then show "e = Signed_overflow"
      using body len idx over unfolding r
      by (auto simp: Let_def upd_session_ok bindE_def split: if_splits sum.splits)
  qed
  then show ?thesis using assms by simp
qed

lemma free_session_safe:
  assumes "sess_fit S"
  shows "safe (\<lambda>(sid, S'). sess_fit S') (umtp_free_session S)"
proof (cases "umtp_free_session S")
  case (Inl e)
  have "length (sessions S) = 255" using assms by (simp add: sess_fit_def sess_wf_def)
  then show ?thesis
    using Inl free_session_loop_faults [of S e] by (auto simp: umtp_free_session_def split: if_splits option.splits)
next
  case (Inr r)
  obtain sid S' where r: "r = (sid, S')" by (cases r)
  have wf: "sess_wf S" using assms by (simp add: sess_fit_def)
  have "sess_fit S'"
  proof (cases "sess_alloc S sid S'")
    case True
    then obtain i n where i: "i < 255" "S' = S\<lparr>next_session_id := n, sessions := (sessions S)[i := (sessions S ! i)
           \<lparr>session_id := sid, waiting := False, timer := umtp_apdu_timeout S\<rparr>]\<rparr>" by (auto simp: sess_alloc_def)
    have "slot_fit ((sessions S ! i)\<lparr>session_id := sid, waiting := False, timer := umtp_apdu_timeout S\<rparr>)"
      using sess_fit_nth [OF assms i(1)] by (simp add: slot_fit_def)
    then show ?thesis
      by (rule sess_fit_update [OF assms sess_alloc_wf(1) [OF True wf], rotated]) (simp add: i(2))
  next
    case False
    then have "S' = S" using umtp_free_session_alloc [of S sid S'] wf Inr r by (auto split: if_splits)
    then show ?thesis using assms by simp
  qed
  then show ?thesis by (simp add: Inr r)
qed

lemma wait_session_safe:
  assumes "sess_fit S" and "\<And>k S. sess_fit S \<Longrightarrow> sess_fit (env k S)"
  shows "safe (\<lambda>(sid, S'). sess_fit S') (case wait_session env k S of None \<Rightarrow> Inl No_return | Some r \<Rightarrow> r)"
proof (cases "wait_session env k S")
  case (Some y)
  have "e = env \<longrightarrow> sess_fit S \<longrightarrow> safe (\<lambda>(sid, S'). sess_fit S') y" if "wait_session e k S = Some y" for e k S y
  proof (rule wait_session.raw_induct [OF _ that], intro impI)
    fix loop e k S and y :: "(u8 \<times> (unit, unit) session_state) res"
    assume IH: "\<And>e k S y. loop e k S = Some y \<Longrightarrow> e = env \<longrightarrow> sess_fit S \<longrightarrow> safe (\<lambda>(sid, S'). sess_fit S') y"
      and body: "(case umtp_free_session S of Inl f \<Rightarrow> Some (Inl f)
        | Inr r \<Rightarrow> if fst r = 0 then loop e (Suc k) (e k (snd r)) else Some (Inr r)) = Some y"
      and e: "e = env" and fit: "sess_fit S"
    note free = free_session_safe [OF fit]
    show "safe (\<lambda>(sid, S'). sess_fit S') y"
    proof (cases "umtp_free_session S")
      case (Inl f)
      then show ?thesis using body free by auto
    next
      case (Inr r)
      then have "sess_fit (snd r)" using free by (simp add: case_prod_beta)
      moreover have "safe (\<lambda>(sid, S'). sess_fit S') y" if "loop env (Suc k) (env k (snd r)) = Some y"
        using IH [OF that] assms(2) calculation by simp
      ultimately show ?thesis using body unfolding Inr by (auto simp: e split: if_splits)
    qed
  qed
  then show ?thesis using Some assms(1) by simp
qed simp

lemma session_set_safe:
  assumes "sess_fit S" and "addr_wf dst" and "unat n \<le> length bs" and "unat n \<le> MAX_APDU"
  shows "safe sess_fit (umtp_session_set sid t u dst bs n S)"
proof (cases "sid \<in> live S")
  case True
  have wf: "sess_wf S" using assms(1) by (simp add: sess_fit_def)
  have le: "unat n \<le> MAX_PDU" using assms(4) by simp
  show ?thesis
    by (rule umtp_session_set_ok [OF wf True assms(3) le, of t u dst])
      (use assms in \<open>auto intro!: sess_fit_update [OF assms(1)] simp: slot_fit_def\<close>)
next
  case False
  have len: "length (sessions S) = 255" using assms(1) by (simp add: sess_fit_def sess_wf_def)
  then have "sid = 0 \<or> session_get_index S sid = 255" using False session_index_none [OF len] by (auto simp: live_def)
  then show ?thesis using assms(1) by (auto simp: umtp_session_set_def)
qed

lemma session_clear_safe:
  assumes "sess_fit S"
  shows "safe sess_fit (umtp_session_clear sid S)"
proof -
  have wf: "sess_wf S" and len: "length (sessions S) = 255" using assms by (simp_all add: sess_fit_def sess_wf_def)
  obtain S' where S': "umtp_session_clear sid S = Inr S'" "sess_wf S'" by (rule umtp_session_clear_ok [OF wf])
  let ?i = "unat (session_get_index S sid)"
  show ?thesis
  proof (cases "session_get_index S sid < 255")
    case True
    then have i: "?i < 255" by (simp add: word_less_nat_alt)
    then have "sessions S' = (sessions S)[?i := (sessions S ! ?i)\<lparr>waiting := False, session_id := 0\<rparr>]"
      using S'(1) True len by (auto simp: umtp_session_clear_def Let_def upd_session_ok)
    then show ?thesis
      using S' sess_fit_nth [OF assms i] by (simp add: sess_fit_update [OF assms S'(2)] slot_fit_def)
  next
    case False
    then show ?thesis using S' assms by (simp add: umtp_session_clear_def Let_def)
  qed
qed

text \<open>Time: every call out is safe on a slot that fits.\<close>

lemma session_process_safe:
  assumes "sess_fit S"
    and "\<And>d a p l w. addr_wf a \<Longrightarrow> 0 \<le> l \<Longrightarrow> l \<le> int MAX_APDU \<Longrightarrow> length p = MAX_PDU \<Longrightarrow> safe (\<lambda>_. True) (g d a p l w)"
    and "\<And>d a p l w. addr_wf a \<Longrightarrow> 0 \<le> l \<Longrightarrow> l \<le> int MAX_APDU \<Longrightarrow> length p = MAX_PDU \<Longrightarrow> safe (\<lambda>_. True) (c d a p l w)"
  shows "safe (\<lambda>(S', w). sess_fit S') (umtp_session_process (quiet_send g) (quiet_tmo c) ms (S, w))"
proof -
  have wf: "sess_wf S" and len: "length (sessions S) = 255" using assms(1) by (simp_all add: sess_fit_def sess_wf_def)
  have keeps: "keeps_wf (umtp_session_process (quiet_send g) (quiet_tmo c) ms)"
    by (rule session_process_wf) (auto simp: keeps_wf_def quiet_send_def quiet_tmo_def bindE_eq_Inr)
  have slots: "slot_fit (tick_slot S ms s)" if "s \<in> set (sessions S)" for s
    using that assms(1) by (auto simp: sess_fit_def slot_fit_def tick_slot_def)
  have fit: "sess_fit (S\<lparr>sessions := map (tick_slot S ms) (sessions S)\<rparr>)"
    if "umtp_session_process (quiet_send g) (quiet_tmo c) ms (S, w) = Inr (S\<lparr>sessions := map (tick_slot S ms) (sessions S)\<rparr>, w')" for w'
  proof -
    have "sess_wf (S\<lparr>sessions := map (tick_slot S ms) (sessions S)\<rparr>)"
      using keeps wf that unfolding keeps_wf_def by blast
    then show ?thesis using slots by (auto simp: sess_fit_def)
  qed
  have "safe (\<lambda>_. True) (tick_call g c S ms s w)" if "s \<in> set (sessions S)" for s w
  proof -
    have s: "addr_wf (s_dest s)" "0 \<le> uint (s_pdu_len s)" "uint (s_pdu_len s) \<le> int MAX_APDU" "length (s_pdu s) = MAX_PDU"
    proof -
      have f: "slot_fit s" "sess_ok s" using that assms(1) by (simp_all add: sess_fit_def sess_wf_def)
      then show "addr_wf (s_dest s)" "length (s_pdu s) = MAX_PDU" by (simp_all add: slot_fit_def sess_ok_def)
      have "int (unat (s_pdu_len s)) \<le> int MAX_APDU" using f(1) by (simp only: slot_fit_def of_nat_le_iff)
      then show "uint (s_pdu_len s) \<le> int MAX_APDU" by simp
    qed simp
    show ?thesis
      unfolding tick_call_def
      by (auto split: option.split intro: assms(2) [OF s] assms(3) [OF s])
  qed
  then have "safe (\<lambda>_. True) (foldE (tick_call g c S ms) (sessions S) w)" by (intro safe_foldE) auto
  then show ?thesis
    using fit unfolding umtp_session_process_quiet [OF len]
    by (cases "foldE (tick_call g c S ms) (sessions S) w") simp_all
qed

section \<open>The services\<close>

text \<open>
  What is asked of the registered handlers: they may read the data up to the length they are told, which for
  a request or a response that is shorter than its header is negative; a request handler keeps the size of the answer
  buffer and, when it succeeds, states a length that lies within it.
\<close>

definition service_ok :: "'w service_type \<Rightarrow> bool" where
  "service_ok ty \<longleftrightarrow>
     (\<forall>f src sd blk bs n w. req_handler ty = Some f \<longrightarrow> - 4 \<le> n \<longrightarrow> n \<le> int (length bs) \<longrightarrow>
        MAX_APDU - 4 \<le> length blk \<longrightarrow> sd_data_len sd = 0 \<longrightarrow> sd_data sd = None \<longrightarrow>
        safe (\<lambda>(ret, sd', part, w'). length part = length blk \<and> (ret = 0 \<longrightarrow> answer_fits sd' part)) (f src sd blk bs n w))
   \<and> (\<forall>f src session bs n w. rsp_handler ty = Some f \<longrightarrow> - 4 \<le> n \<longrightarrow> n \<le> int (length bs) \<longrightarrow>
        safe (\<lambda>_. True) (f src session bs n w))
   \<and> (\<forall>f src status session w. error_handler ty = Some f \<longrightarrow> safe (\<lambda>_. True) (f src status session w))
   \<and> (\<forall>f dst i bs n w. timeout_handler ty = Some f \<longrightarrow> - 4 \<le> n \<longrightarrow> n \<le> int (length bs) \<longrightarrow>
        safe (\<lambda>_. True) (f dst i bs n w))"

definition services_ok :: "'w service_state \<Rightarrow> bool" where
  "services_ok S \<longleftrightarrow> svc_good S \<and> (\<forall>k a. svc_entries S k = Some a \<longrightarrow> service_ok (the (svc_mem S a)))"

lemma services_safe:
  assumes "services_ok S" and "- 4 \<le> n" and "n \<le> int (length bs)" and "n < 60000"
  shows "MAX_APDU - 4 \<le> length blk \<Longrightarrow> sd_data_len sd = 0 \<Longrightarrow> sd_data sd = None \<Longrightarrow> safe (\<lambda>(ret, sd', part, w'). length part = length blk \<and> (ret = 0 \<longrightarrow> answer_fits sd' part))
      (service_handler S src sd blk (Some bs) (word_of_int n) w)"
    and "safe (\<lambda>_. True) (service_rsp_handler S src i session (Some bs) (word_of_int n) w)"
    and "safe (\<lambda>_. True) (service_timeout_handler S src i bs n w)"
    and "safe (\<lambda>_. True) (service_error_handler S src i status session w)"
proof -
  have good: "svc_good S" and ok: "\<And>k a. svc_entries S k = Some a \<Longrightarrow> service_ok (the (svc_mem S a))"
    using assms(1) by (auto simp: services_ok_def)
  have sint: "sint (word_of_int n :: u32) = n" using assms(2,4) by (simp add: sint_small)
  show "safe (\<lambda>(ret, sd', part, w'). length part = length blk \<and> (ret = 0 \<longrightarrow> answer_fits sd' part))
      (service_handler S src sd blk (Some bs) (word_of_int n) w)"
    if blk: "MAX_APDU - 4 \<le> length blk" "sd_data_len sd = 0" "sd_data sd = None"
  proof (cases "svc_entries S (sd_service_id sd)")
    case None
    then show ?thesis by (simp add: service_handler_good [OF good])
  next
    case a: (Some a)
    obtain ty f where "svc_mem S a = Some ty" "req_handler ty = Some f" by (rule svc_entries_handler [OF good a])
    then show ?thesis
      using ok [OF a] assms(2,3) blk unfolding service_ok_def
      by (simp add: service_handler_good [OF good] a sint)
  qed
  show "safe (\<lambda>_. True) (service_rsp_handler S src i session (Some bs) (word_of_int n) w)"
    using ok [of i] assms(2,3) unfolding service_ok_def
    by (auto simp: service_rsp_handler_good [OF good] sint split: option.split)
  show "safe (\<lambda>_. True) (service_error_handler S src i status session w)"
    using ok [of i] unfolding service_ok_def
    by (auto simp: service_error_handler_good [OF good] split: option.split)
  show "safe (\<lambda>_. True) (service_timeout_handler S src i bs n w)"
    using ok [of i] assms(2,3) unfolding service_ok_def
    by (auto simp: service_timeout_handler_good [OF good] split: option.split)
qed

section \<open>The layers\<close>

text \<open>The part of the invariant outside the message process unit, and the whole.\<close>

definition base_ok :: "'w umtp \<Rightarrow> bool" where
  "base_ok U \<longleftrightarrow> u_conf U = Some \<lparr>sync_mode = False\<rparr>
     \<and> (\<exists>dl. u_dl U = Some dl \<and> dl_encrypt dl = None \<and> dl_decrypt dl = None)
     \<and> length (apdu_trans_blk U) = MAX_APDU \<and> services_ok (u_svc U) \<and> sess_fit (u_sess U)"

definition node_ok :: "'w umtp \<Rightarrow> bool" where
  "node_ok U \<longleftrightarrow> base_ok U \<and> (\<exists>m. u_mpu U = Some m \<and> mpu_ok m)"

lemma node_ok_update [simp]:
  "base_ok (U\<lparr>u_world := w\<rparr>) = base_ok U" "base_ok (U\<lparr>u_mpu := x\<rparr>) = base_ok U"
  "node_ok (U\<lparr>u_world := w\<rparr>) = node_ok U" "node_ok (U\<lparr>u_mpu := Some m\<rparr>) \<longleftrightarrow> base_ok U \<and> mpu_ok m"
  "node_ok U \<Longrightarrow> node_ok (U\<lparr>u_sess := S\<rparr>) = sess_fit S"
  "node_ok U \<Longrightarrow> node_ok (U\<lparr>apdu_trans_blk := b\<rparr>) = (length b = MAX_APDU)"
  by (simp_all add: node_ok_def base_ok_def)

lemma priv_submit_safe:
  assumes "node_ok U" and "addr_wf dst" and "0 \<le> len" and "len \<le> int MAX_APDU" and "nat len \<le> length bs"
  shows "safe (\<lambda>(r, U'). node_ok U') (priv_umtp_apdu_submit sendto dst bs len U)"
proof -
  obtain m where m: "u_mpu U = Some m" "mpu_ok m" "base_ok U" using assms(1) by (auto simp: node_ok_def)
  have "len \<le> int (queue_limit Send_queue)" using assms(4) by simp
  from mpu_put_keeps [OF m(2) assms(2,3) this assms(5)] m(1,3) show ?thesis
    by (auto simp: priv_umtp_apdu_submit_def base_ok_def node_ok_def mpu_put_send_def)
qed

lemma data_length:
  fixes k :: u16
  assumes "n \<le> 4" and "n \<le> length bs" and "uint k \<le> int (length bs)" and "length bs < 60000"
  shows "- 4 \<le> uint k - int n \<and> uint k - int n \<le> int (length (drop n bs)) \<and> uint k - int n < 60000"
proof -
  have "int (length (drop n bs)) = int (length bs) - int n" using assms(2) by (simp add: of_nat_diff)
  then show ?thesis using assms uint_ge_0 [of k] by linarith
qed

lemma apdu_request_safe:
  fixes flag svc sid :: u8
  defines "n \<equiv> (if apdu_has_session_id flag then 4 else 3 :: nat)"
  assumes "node_ok U" and "addr_wf src" and "n \<le> length bs" and "uint k \<le> int (length bs)" and "length bs < 60000"
  shows "safe (\<lambda>(r, U'). node_ok U') (apdu_request sendto src flag svc sid n bs k U)"
proof -
  have ok: "services_ok (u_svc U)" and blk: "length (apdu_trans_blk U) = MAX_APDU"
    using assms(2) by (auto simp: node_ok_def base_ok_def)
  have n: "n \<le> 4" by (simp add: n_def)
  have len: "- 4 \<le> uint k - int n" "uint k - int n \<le> int (length (drop n bs))" "uint k - int n < 60000"
    using data_length [OF n assms(4-6)] by blast+
  define h where "h = service_handler (u_svc U) src \<lparr>sd_service_id = uint svc, sd_data_len = 0, sd_data = None\<rparr>
      (drop n (apdu_trans_blk U)) (Some (drop n bs)) (word_of_int (uint k - int n)) (u_world U)"
  have sh: "safe (\<lambda>(ret, sd', part, w'). length part = length (drop n (apdu_trans_blk U)) \<and> (ret = 0 \<longrightarrow> answer_fits sd' part)) h"
    unfolding h_def by (rule services_safe(1) [OF ok len]) (use blk n in simp_all)
  show ?thesis
  proof (cases h)
    case (Inl e)
    then show ?thesis using sh unfolding apdu_request_def h_def [symmetric] by simp
  next
    case (Inr r)
    obtain ret sd part w where r: "r = (ret, sd, part, w)" by (cases r)
    then have part: "length part = MAX_APDU - n" "ret = 0 \<Longrightarrow> answer_fits sd part" using sh Inr blk by simp_all
    have hr: "h = Inr (ret, sd, part, w)" using Inr r by simp
    obtain b len where eq: "apdu_request sendto src flag svc sid n bs k U =
        priv_umtp_apdu_submit sendto src b (int len) (U\<lparr>apdu_trans_blk := b, u_world := w\<rparr>)"
      and b: "length b = MAX_APDU" "len \<le> MAX_APDU"
      using apdu_request_encodes [OF blk hr [unfolded h_def n_def] part [unfolded n_def]] unfolding n_def by metis
    have "node_ok (U\<lparr>apdu_trans_blk := b, u_world := w\<rparr>)" using assms(2) b(1) by simp
    then show ?thesis unfolding eq by (rule priv_submit_safe [OF _ assms(3)]) (use b in simp_all)
  qed
qed

lemma clear_session_safe:
  assumes "node_ok U"
  shows "safe (\<lambda>(r, U'). node_ok U') (clear_session flag sid U)"
proof -
  have "sess_fit (u_sess U)" using assms by (simp add: node_ok_def base_ok_def)
  from session_clear_safe [OF this, of sid] show ?thesis
    using assms by (auto simp: clear_session_def intro: safe_bind)
qed

lemma apdu_handler_safe:
  assumes "node_ok U" and "addr_wf src" and "5 \<le> length bs" and "uint k \<le> int (length bs)" and "length bs < 60000"
  shows "safe (\<lambda>(r, U'). node_ok U') (apdu_handler sendto src (Some bs) k U)"
proof -
  have ok: "services_ok (u_svc U)" using assms(1) by (auto simp: node_ok_def base_ok_def)
  let ?sid = "if apdu_has_session_id (bs ! 0) then bs ! 3 else 0"
  let ?n = "if apdu_has_session_id (bs ! 0) then 4 else 3 :: nat"
  have clear: "safe (\<lambda>(r, U'). node_ok U') (clear_session (bs ! 0) ?sid (U\<lparr>u_world := w\<rparr>))" for w
    using assms(1) by (intro clear_session_safe) simp
  have req: "safe (\<lambda>(r, U'). node_ok U') (apdu_request sendto src (bs ! 0) (bs ! 2) ?sid ?n bs k U)"
    using assms by (intro apdu_request_safe) simp_all
  have len: "- 4 \<le> uint k - int ?n" "uint k - int ?n \<le> int (length (drop ?n bs))" "uint k - int ?n < 60000"
    using data_length [of ?n bs k] assms(3-5) by auto
  note handlers = services_safe(2,4) [OF ok len]
  have hd: "bindE (if apdu_has_session_id (bs ! 0) then bindE (arr_get bs 3) (\<lambda>i. Inr (i, 4)) else Inr (0, 3 :: nat)) f = f (?sid, ?n)"
    for f :: "u8 \<times> nat \<Rightarrow> (int \<times> 'a umtp) res"
    using assms(3) by simp
  have get: "arr_get bs 0 = Inr (bs ! 0)" "arr_get bs 1 = Inr (bs ! 1)" "arr_get bs 2 = Inr (bs ! 2)"
      "arr_get bs ?n = Inr (bs ! ?n)" using assms(3) by (auto simp: arr_get_def)
  show ?thesis
    unfolding apdu_handler_def option.case get bindE_Inr hd prod.case Let_def
    using assms(1) req clear handlers clear [of "u_world U"] by (auto intro!: safe_bind simp del: arr_get_Inr)
qed

lemma npdu_handler_safe:
  assumes "node_ok U" and "addr_wf src" and "6 \<le> length bs" and "uint k \<le> int (length bs)" and "length bs < 60000"
  shows "safe (\<lambda>(r, U'). node_ok U') (npdu_handler sendto src (Some bs) k U)"
proof -
  have "safe (\<lambda>(r, U'). node_ok U') (apdu_handler sendto src (Some (drop 1 bs)) (k - 1) U)" if "1 < uint k"
  proof -
    have "uint k < 65536" using uint_lt2p [of k] by simp
    then have "uint (k - 1) = uint k - 1" using that by (simp add: uint_word_ariths(2))
    then show ?thesis using assms by (intro apdu_handler_safe) simp_all
  qed
  moreover have "arr_get bs 0 = Inr (bs ! 0)" using assms(3) by (auto simp: arr_get_def)
  ultimately show ?thesis
    using assms(1) by (simp add: npdu_handler_def npdu_decode_def)
qed

section \<open>The handlers of the message process unit\<close>

lemma npdu_send_safe:
  assumes "dl_encrypt dl = None" and "addr_wf dst" and "len \<le> int MAX_APDU" and "nat len \<le> length bs"
  shows "\<exists>r w'. npdu_send (Some (dludp_send_data sendto dl)) dst (Some bs) len w = Inr (r, w')"
proof (cases "len \<le> 0 \<or> 0 \<le> socket dl")
  case True
  then show ?thesis
    using npdu_send_udp [OF _ assms(1,2,4) _ assms(3), of sendto w]
    by (cases "len \<le> 0") (auto simp: npdu_send_def split: prod.splits)
next
  case False
  then have "nat len \<le> 1024" "0 \<le> len" using assms(3) by simp_all
  then have "\<exists>b. arr_write ((replicate 1025 0)[0 := FTTP_PROTOCOL_VERSION]) 1 (take (nat len) bs) = Inr b"
    using assms(4) by (simp add: arr_write_def)
  then show ?thesis
    using False assms(4) by (auto simp: npdu_send_def encode_npdu_def arr_read_def dludp_send_data_def)
qed

lemma send_msg_safe: "handler_ok (\<lambda>(m, U). mpu_ok m \<and> base_ok U) Send_queue (priv_umtp_send_msg sendto)"
proof -
  have "safe (\<lambda>(ret, m, U). mpu_ok m \<and> base_ok U) (priv_umtp_send_msg sendto x (m, U))"
    if x: "pkt_ok Send_queue x" and ok: "mpu_ok m" "base_ok U" for x m and U :: "'a umtp"
  proof -
    obtain dl where dl: "u_dl U = Some dl" "dl_encrypt dl = None" using ok(2) by (auto simp: base_ok_def)
    have len: "unat (p_length x) \<le> MAX_APDU" "length (p_buffer x) = MAX_MPU_DATA" "addr_wf (p_addr x)"
      using x by (simp_all add: pkt_ok_def)
    have le: "uint (p_length x) \<le> int MAX_APDU" "nat (uint (p_length x)) \<le> length (p_buffer x)"
    proof -
      have "int (unat (p_length x)) \<le> int MAX_APDU" using len(1) by (simp only: of_nat_le_iff)
      then show "uint (p_length x) \<le> int MAX_APDU" by simp
      show "nat (uint (p_length x)) \<le> length (p_buffer x)" using len(1,2) by (simp add: nat_uint_eq)
    qed
    obtain r w' where "npdu_send (Some (dludp_send_data sendto dl)) (p_addr x) (Some (p_buffer x)) (uint (p_length x)) (u_world U) = Inr (r, w')"
      using npdu_send_safe [OF dl(2) len(3) le] by blast
    then show ?thesis using ok by (simp add: priv_umtp_send_msg_def dl(1))
  qed
  then show ?thesis by (auto simp: handler_ok_def)
qed

lemma handle_msg_safe: "handler_ok (\<lambda>(m, U). mpu_ok m \<and> base_ok U) Recv_queue (priv_umtp_handle_msg sendto)"
proof -
  have "safe (\<lambda>(ret, m, U). mpu_ok m \<and> base_ok U) (priv_umtp_handle_msg sendto x (m, U))"
    if x: "pkt_ok Recv_queue x" and ok: "mpu_ok m" "base_ok U" for x m and U :: "'a umtp"
  proof -
    have len: "unat (p_length x) \<le> MAX_MPU_DATA" "length (p_buffer x) = MAX_MPU_DATA" "addr_wf (p_addr x)"
      using x by (simp_all add: pkt_ok_def)
    have "int (unat (p_length x)) \<le> int MAX_MPU_DATA" using len(1) by (simp only: of_nat_le_iff)
    then have le: "uint (p_length x) \<le> int (length (p_buffer x))" using len(2) by simp
    have "node_ok (U\<lparr>u_mpu := Some m\<rparr>)" using ok by simp
    from npdu_handler_safe [OF this len(3) _ le, of sendto] len(2)
    have "safe (\<lambda>(r, U'). node_ok U')
        (npdu_handler sendto (p_addr x) (Some (p_buffer x)) (p_length x) (U\<lparr>u_mpu := Some m\<rparr>))" by simp
    then show ?thesis
      unfolding priv_umtp_handle_msg_def prod.case by (rule safe_bind) (auto simp: node_ok_def)
  qed
  then show ?thesis by (auto simp: handler_ok_def)
qed

lemma mpu_turn_safe:
  assumes "node_ok U"
  shows "safe node_ok (umtp_mpu_turn sendto ret U)"
proof -
  obtain m where m: "u_mpu U = Some m" "mpu_ok m" "base_ok U" using assms by (auto simp: node_ok_def)
  let ?J = "\<lambda>(m, U :: 'a umtp). mpu_ok m \<and> base_ok U"
  have J: "keeps_pop ?J" by (simp add: keeps_pop_def)
  have drain: "safe ?J (case mpu_drain (Some (priv_umtp_handle_msg sendto)) (Some (priv_umtp_send_msg sendto)) (m, U) of
      None \<Rightarrow> Inl No_return | Some r \<Rightarrow> r)"
    by (rule drain_safe [OF J handle_msg_safe send_msg_safe]) (simp add: m)
  have "safe (\<lambda>(go, locked, m, U). ?J (m, U))
      (mpu_turn (Some (priv_umtp_handle_msg sendto)) (Some (priv_umtp_send_msg sendto)) ret (m, U))"
    using drain m(2,3)
    by (cases "mpu_drain (Some (priv_umtp_handle_msg sendto)) (Some (priv_umtp_send_msg sendto)) (m, U)")
      (auto simp: mpu_turn_def mpu_after_wait_def intro: safe_bind)
  then show ?thesis
    unfolding umtp_mpu_turn_def m(1) option.case by (rule safe_bind) auto
qed

section \<open>The protocol task and submissions\<close>

text \<open>Datagrams of at most 2001 bytes: what is behind the signature fits a packet.\<close>

fun event_fits :: "udp_event \<Rightarrow> bool" where
  "event_fits (Datagram a p bs) = (length bs \<le> Suc MAX_MPU_DATA)"
| "event_fits _ = True"

lemma recv_keeps:
  assumes "dl_decrypt dl = None" and "vars_ok T" and "event_fits e"
  obtains len src buf where "dludp_recv_data (Some dl) (Some (task_src T)) (Some (task_buf T)) (int MAX_PDU) 1000 e w
      = Inr (len, Some src, Some buf, w)"
    and "addr_wf src" and "length buf = MAX_PDU" and "len \<le> int MAX_MPU_DATA"
proof -
  have T: "addr_wf (task_src T)" "length (task_buf T) = MAX_PDU" using assms(2) by (simp_all add: vars_ok_def)
  consider "socket dl < 0 \<or> e = Select_none \<or> e = Recv_fail \<or> (\<exists>a p. e = Datagram a p [])"
    | a p bs where "0 \<le> socket dl" "e = Datagram a p bs" "bs \<noteq> []"
    by (cases "0 \<le> socket dl"; cases e; force)
  then show ?thesis
  proof cases
    case 1
    then have "\<exists>len \<le> int MAX_MPU_DATA. dludp_recv_data (Some dl) (Some (task_src T)) (Some (task_buf T)) (int MAX_PDU) 1000 e w
        = Inr (len, Some (task_src T), Some (task_buf T), w)" by (auto simp: arr_write_def)
    then show ?thesis using T that by blast
  next
    case 2
    have le: "length bs \<le> MAX_PDU" "length bs \<le> length (task_buf T) + 1" "length bs \<le> 2001"
      using assms(3) T(2) 2(2) by simp_all
    have "length (tl bs @ drop (length bs - 1) (task_buf T)) = MAX_PDU" using T(2) le(3) by simp
    moreover have "int (length bs) - 1 \<le> int MAX_MPU_DATA" using le(3) by simp
    moreover have "addr_wf ((task_src T)\<lparr>addr_len := 6, addr := u32_bytes a @ u16_bytes p @ drop 6 (addr (task_src T))\<rparr>)"
      using T(1) by simp
    ultimately show ?thesis
    proof (cases "a = dl_addr dl \<and> uint p = port dl \<or> hd bs \<noteq> UMTP_SIGNATURE")
      case True
      then have "dludp_recv_data (Some dl) (Some (task_src T)) (Some (task_buf T)) (int MAX_PDU) 1000 e w
          = Inr (0, Some (task_src T), Some (task_buf T), w)"
        unfolding 2(2) dludp_recv_plain [OF 2(1) assms(1) T(1) le(1,2) 2(3)] by (rule if_P)
      then show ?thesis by (rule that) (use T in simp_all)
    next
      case False
      then have "dludp_recv_data (Some dl) (Some (task_src T)) (Some (task_buf T)) (int MAX_PDU) 1000 e w
          = Inr (int (length bs) - 1, Some ((task_src T)\<lparr>addr_len := 6, addr := u32_bytes a @ u16_bytes p @ drop 6 (addr (task_src T))\<rparr>),
              Some (tl bs @ drop (length bs - 1) (task_buf T)), w)"
        unfolding 2(2) dludp_recv_plain [OF 2(1) assms(1) T(1) le(1,2) 2(3)] by (rule if_not_P)
      then show ?thesis by (rule that) fact+
    qed
  qed
qed

lemma elapse_safe:
  assumes "node_ok U"
  shows "safe node_ok (umtp_elapse sendto ms U)"
proof -
  have ok: "services_ok (u_svc U)" and fit: "sess_fit (u_sess U)" using assms by (auto simp: node_ok_def base_ok_def)
  obtain dl where dl: "u_dl U = Some dl" "dl_encrypt dl = None" using assms by (auto simp: node_ok_def base_ok_def)
  have send: "safe (\<lambda>_. True) (resend_call sendto U d a p l w)"
    if "addr_wf a" "0 \<le> l" "l \<le> int MAX_APDU" "length p = MAX_PDU" for d a p l w
  proof -
    have "nat l \<le> length p" using that by simp
    from npdu_send_safe [OF dl(2) that(1,3) this, of sendto w] show ?thesis by (auto simp: resend_call_def dl(1))
  qed
  have tmo: "safe (\<lambda>_. True) (expire_call U d a p l w)"
    if "addr_wf a" "0 \<le> l" "l \<le> int MAX_APDU" "length p = MAX_PDU" for d a p l w
  proof -
    have "safe (\<lambda>_. True) (service_timeout_handler (u_svc U) a (uint (p ! 2)) (drop 4 p) (l - 4) w)"
      by (rule services_safe(3) [OF ok]) (use that in simp_all)
    moreover have "arr_get p 2 = Inr (p ! 2)" using that(4) by (simp add: arr_get_def)
    ultimately show ?thesis by (simp add: expire_call_def apdu_timeout_handler_def)
  qed
  have "safe (\<lambda>(S', w). sess_fit S')
      (umtp_session_process (quiet_send (resend_call sendto U)) (quiet_tmo (expire_call U)) ms (u_sess U, u_world U))"
    by (rule session_process_safe [OF fit send tmo])
  then show ?thesis
    unfolding umtp_elapse_def by (rule safe_bind) (use assms in auto)
qed

lemma turn_safe:
  assumes "node_ok U" and "vars_ok T" and "event_fits e"
  shows "safe (\<lambda>(go, T', U'). vars_ok T' \<and> node_ok U') (umtp_turn sendto (n, e) (T, U))"
proof -
  obtain dl where dl: "u_dl U = Some dl" "dl_decrypt dl = None" using assms(1) by (auto simp: node_ok_def base_ok_def)
  obtain len src buf where recv: "dludp_recv_data (Some dl) (Some (task_src T)) (Some (task_buf T)) (int MAX_PDU) 1000 e (u_world U)
      = Inr (len, Some src, Some buf, u_world U)" and src: "addr_wf src" "length buf = MAX_PDU" "len \<le> int MAX_MPU_DATA"
    by (rule recv_keeps [OF dl(2) assms(2,3)])
  have vars: "vars_ok (T\<lparr>task_src := src, task_buf := buf\<rparr>)" "vars_ok (T\<lparr>task_src := src, task_buf := buf, last_seconds := n\<rparr>)"
    using src by (simp_all add: vars_ok_def)
  have deliver: "safe node_ok (umtp_deliver sendto src buf len U)" if "0 < len"
  proof -
    obtain m where m: "u_mpu U = Some m" "mpu_ok m" "u_conf U = Some \<lparr>sync_mode = False\<rparr>"
      using assms(1) by (auto simp: node_ok_def base_ok_def)
    have "len \<le> int (queue_limit Recv_queue)" "nat len \<le> length buf" "0 \<le> len" using src that by simp_all
    with mpu_put_keeps [OF m(2) src(1), of len Recv_queue buf] assms(1) m(1,3) show ?thesis
      by (auto simp: umtp_deliver_def mpu_put_recv_def node_ok_def)
  qed
  have rest: "safe (\<lambda>(go, T', U'). vars_ok T' \<and> node_ok U') (let s = word_of_int (n - last_seconds T) :: u32 in
      if s \<noteq> 0 then bindE (umtp_elapse sendto (ucast (s * 1000)) U2)
         (\<lambda>U3. Inr (True, T\<lparr>task_src := src, task_buf := buf, last_seconds := n\<rparr>, U3))
      else Inr (True, T\<lparr>task_src := src, task_buf := buf\<rparr>, U2))" if "node_ok U2" for U2
  proof -
    have "safe (\<lambda>(go, T', U'). vars_ok T' \<and> node_ok U')
        (bindE (umtp_elapse sendto ms U2) (\<lambda>U3. Inr (True, T\<lparr>task_src := src, task_buf := buf, last_seconds := n\<rparr>, U3)))" for ms
      by (rule safe_bind [OF elapse_safe [OF that]]) (use vars in simp)
    then show ?thesis using vars that by (simp add: Let_def)
  qed
  have same: "U\<lparr>u_world := u_world U\<rparr> = U" by simp
  show ?thesis
    using vars assms(1) rest deliver
    unfolding umtp_turn_def prod.case dl(1) option.case recv bindE_Inr Let_def option.sel same
    by (auto intro: safe_bind)
qed

lemma submit_no_session:
  assumes "confirmed ad"
  shows "wait_session env 0 (u_sess U) = None \<Longrightarrow> umtp_apdu_submit sendto env dst (Some ad) U = Inl No_return"
    and "wait_session env 0 (u_sess U) = Some (Inl e) \<Longrightarrow> umtp_apdu_submit sendto env dst (Some ad) U = Inl e"
  using assms by (simp_all add: umtp_apdu_submit_def submit_header flag_facts)

lemma submit_safe:
  assumes "node_ok U" and "addr_wf dst" and "\<And>k S. sess_fit S \<Longrightarrow> sess_fit (env k S)"
    and "\<And>ad. data = Some ad \<Longrightarrow> 0 \<le> ad_data_len ad \<and> nat (ad_data_len ad) \<le> length (ad_data ad)
      \<and> nat (ad_data_len ad) \<le> (if confirmed ad then 1020 else 1021)"
  shows "safe (\<lambda>(r, U'). node_ok U') (umtp_send_message sendto env dst data U)"
proof (cases data)
  case None
  then show ?thesis using assms(1) by (simp add: umtp_send_message_def umtp_apdu_submit_def)
next
  case (Some ad)
  let ?L = "ad_data_len ad"
  have L: "0 \<le> ?L" "nat ?L \<le> length (ad_data ad)" "nat ?L \<le> (if confirmed ad then 1020 else 1021)"
    using assms(4) [OF Some] by simp_all
  have fit: "sess_fit (u_sess U)" using assms(1) by (auto simp: node_ok_def base_ok_def)
  have wait: "safe (\<lambda>(sid, S'). sess_fit S') (case wait_session env 0 (u_sess U) of None \<Rightarrow> Inl No_return | Some r \<Rightarrow> r)"
    by (rule wait_session_safe [OF fit assms(3)])
  have put: "safe (\<lambda>(r, U'). node_ok U') (priv_umtp_apdu_submit sendto dst bs len (U\<lparr>u_sess := S\<rparr>))"
    if "sess_fit S" "0 \<le> len" "len \<le> 1024" "nat len \<le> length bs" for S len bs
    by (rule priv_submit_safe) (use that assms(1,2) in simp_all)
  show ?thesis
  proof (cases "confirmed ad")
    case False
    let ?msg = "hdr 0 UMTP_PDU_REQUEST (word_of_int (ad_service ad)) 0 @ take (nat ?L) (ad_data ad)
      @ replicate (MAX_APDU - 3 - nat ?L) 0"
    have "safe (\<lambda>(r, U'). node_ok U') (priv_umtp_apdu_submit sendto dst ?msg (3 + ?L) (U\<lparr>u_sess := u_sess U\<rparr>))"
      by (rule put [OF fit]) (use L False in \<open>simp_all add: length_hdr flag_facts\<close>)
    then show ?thesis
      using L False submit_unconfirmed [OF False L(1,2), of sendto env dst U]
      by (simp add: Some umtp_send_message_def Let_def length_hdr)
  next
    case True
    show ?thesis
    proof (cases "wait_session env 0 (u_sess U)")
      case None
      then show ?thesis by (simp add: Some umtp_send_message_def submit_no_session(1) [OF True])
    next
      case w: (Some r)
      show ?thesis
      proof (cases r)
        case (Inl e)
        then show ?thesis using wait w by (simp add: Some umtp_send_message_def submit_no_session(2) [OF True])
      next
        case (Inr x)
        obtain sid S1 where x: "x = (sid, S1)" by (cases x)
        have S1: "sess_fit S1" using wait by (simp add: w Inr x)
        let ?h = "hdr 1 UMTP_PDU_REQUEST (word_of_int (ad_service ad)) sid"
        let ?msg = "?h @ take (nat ?L) (ad_data ad) @ replicate (MAX_APDU - 4 - nat ?L) 0"
        have one: "apdu_has_session_id 1" by (simp add: apdu_has_session_id_def)
        have msg: "length ?msg = 1024" using L True by (simp add: length_hdr one)
        define n where "n = (word_of_int (4 + ?L) :: u16)"
        have "uint n = 4 + ?L" unfolding n_def by (rule uint_of_int_small) (use L True in simp_all)
        then have n: "unat n \<le> 1024" using L True by (simp add: unat_eq_nat_uint)
        have "safe (\<lambda>(r, U'). node_ok U') (bindE (umtp_session_set sid (Some ()) () dst ?msg n S1)
            (\<lambda>S2. priv_umtp_apdu_submit sendto dst ?msg (4 + ?L) (U\<lparr>u_sess := S2\<rparr>)))"
          by (rule safe_bind [OF session_set_safe [OF S1 assms(2)] put]) (use n msg L True in simp_all)
        then show ?thesis
          using submit_confirmed [OF True L(1,2), of env U sid S1 sendto dst] w Inr x L(3) True
          by (simp add: Some umtp_send_message_def Let_def n_def)
      qed
    qed
  qed
qed

section \<open>Runs\<close>

text \<open>
  What happens to an instance: a turn of its task with the time and what the socket does; a turn of the
  message process unit's task with the result of its wait; a submission, with what the other threads do to
  the sessions while it waits for one; changed settings; and whatever the rest of the program does to the world.
\<close>

datatype 'w node_event =
    Ev_turn int udp_event
  | Ev_mpu int
  | Ev_submit "nat \<Rightarrow> (unit, unit) session_state \<Rightarrow> (unit, unit) session_state" umtp_addr "apdu_data option"
  | Ev_retry u8
  | Ev_timeout u32
  | Ev_world "'w \<Rightarrow> 'w"

fun node_step :: "'w sendto_fun \<Rightarrow> 'w node_event \<Rightarrow> task_vars \<times> 'w umtp \<Rightarrow> (task_vars \<times> 'w umtp) res" where
  "node_step sendto (Ev_turn n e) (T, U) = bindE (umtp_turn sendto (n, e) (T, U)) (\<lambda>(go, T', U'). Inr (T', U'))"
| "node_step sendto (Ev_mpu ret) (T, U) = bindE (umtp_mpu_turn sendto ret U) (\<lambda>U'. Inr (T, U'))"
| "node_step sendto (Ev_submit env dst data) (T, U) =
     bindE (umtp_send_message sendto env dst data U) (\<lambda>(r, U'). Inr (T, U'))"
| "node_step sendto (Ev_retry n) (T, U) = Inr (T, U\<lparr>u_sess := apdu_retry_set n (u_sess U)\<rparr>)"
| "node_step sendto (Ev_timeout n) (T, U) = Inr (T, U\<lparr>u_sess := apdu_timeout_set n (u_sess U)\<rparr>)"
| "node_step sendto (Ev_world f) (T, U) = Inr (T, U\<lparr>u_world := f (u_world U)\<rparr>)"

fun event_ok :: "'w node_event \<Rightarrow> bool" where
  "event_ok (Ev_turn n e) = event_fits e"
| "event_ok (Ev_submit env dst data) \<longleftrightarrow> addr_wf dst \<and> (\<forall>k S. sess_fit S \<longrightarrow> sess_fit (env k S))
     \<and> (case data of None \<Rightarrow> True | Some ad \<Rightarrow> 0 \<le> ad_data_len ad \<and> nat (ad_data_len ad) \<le> length (ad_data ad)
          \<and> nat (ad_data_len ad) \<le> (if confirmed ad then 1020 else 1021))"
| "event_ok _ = True"

lemma node_step_safe:
  assumes "vars_ok T \<and> node_ok U" and "event_ok e"
  shows "safe (\<lambda>(T', U'). vars_ok T' \<and> node_ok U') (node_step sendto e (T, U))"
proof (cases e)
  case (Ev_turn n ev)
  have "safe (\<lambda>(go, T', U'). vars_ok T' \<and> node_ok U') (umtp_turn sendto (n, ev) (T, U))"
    by (rule turn_safe) (use assms Ev_turn in auto)
  then show ?thesis unfolding Ev_turn node_step.simps by (rule safe_bind) auto
next
  case (Ev_mpu ret)
  have "safe node_ok (umtp_mpu_turn sendto ret U)" using assms(1) by (intro mpu_turn_safe) simp
  then show ?thesis unfolding Ev_mpu node_step.simps by (rule safe_bind) (use assms(1) in simp)
next
  case (Ev_submit env dst data)
  have "safe (\<lambda>(r, U'). node_ok U') (umtp_send_message sendto env dst data U)"
    by (rule submit_safe) (use assms Ev_submit in auto)
  then show ?thesis unfolding Ev_submit node_step.simps by (rule safe_bind) (use assms(1) in auto)
next
  case (Ev_retry n)
  have "sess_fit (apdu_retry_set n S) = sess_fit S" for S :: "(unit, unit) session_state"
    by (simp add: sess_fit_def sess_wf_def apdu_retry_set_def ids_def)
  then show ?thesis using assms(1) by (simp add: Ev_retry) (auto simp: node_ok_def base_ok_def)
next
  case (Ev_timeout n)
  have "sess_fit (apdu_timeout_set n S) = sess_fit S" for S :: "(unit, unit) session_state"
    by (simp add: sess_fit_def sess_wf_def apdu_timeout_set_def ids_def)
  then show ?thesis using assms(1) by (simp add: Ev_timeout) (auto simp: node_ok_def base_ok_def)
qed (use assms in simp)

text \<open>A successful start establishes the invariant.\<close>

lemma dludp_init_keeps:
  assumes "dludp_init os (Some dl) = Inr (r, closed, d)"
  shows "\<exists>d'. d = Some d' \<and> dl_encrypt d' = dl_encrypt dl \<and> dl_decrypt d' = dl_decrypt dl"
proof -
  define dl1 where "dl1 = (if port dl \<le> 0 then dl\<lparr>port := UMTP_DEFAULT_PORT\<rparr> else dl)"
  define dl2 where "dl2 = (case ip dl1 of
      Some s \<Rightarrow> (case inet_aton os s of Some a \<Rightarrow> dl1\<lparr>dl_addr := a\<rparr> | None \<Rightarrow> dl1)
    | None \<Rightarrow> (case dlumtp_addr_get (oi_ifr os) (Some (eth0_or (intf dl1))) (Some (dl_addr dl1)) of
          (_, Some a) \<Rightarrow> dl1\<lparr>dl_addr := a\<rparr> | (_, None) \<Rightarrow> dl1))"
  have keep: "dl_encrypt dl2 = dl_encrypt dl" "dl_decrypt dl2 = dl_decrypt dl"
    by (simp_all add: dl2_def dl1_def case_prod_beta del: dlumtp_addr_get.simps split: option.split)
  obtain bc where "\<exists>n. dlumtp_bcast_addr_get (oi_ifr os) (Some (eth0_or (intf dl2))) (Some (dl_addr dl2))
      (Some (broadcast_addr dl2)) = Inr (n, bc)"
    using assms unfolding dludp_init.simps Let_def dl1_def [symmetric] dl2_def [symmetric] bindE_eq_Inr by auto
  then have "\<exists>n. dludp_init os (Some dl) = Inr (n, closed, d) \<and> (\<exists>x y. d = Some ((case bc of Some a \<Rightarrow> dl2\<lparr>broadcast_addr := a\<rparr> | None \<Rightarrow> dl2)
      \<lparr>socket := x\<rparr>))"
    using assms unfolding dludp_init.simps Let_def dl1_def [symmetric] dl2_def [symmetric]
    by (auto simp del: dlumtp_bcast_addr_get.simps split: if_splits)
  then show ?thesis using keep by (auto split: option.splits)
qed

lemma start_node_ok:
  assumes "umtp_start os (Some U) = Inr (0, freed, Some U')" and "so_mpu os = Some (m, a, b)" and "mpu_memory m a b"
    and "base_ok U"
  shows "node_ok U'"
proof -
  obtain dl where dl: "u_dl U = Some dl" "dl_encrypt dl = None" "dl_decrypt dl = None" and conf: "u_conf U = Some \<lparr>sync_mode = False\<rparr>"
    using assms(4) by (auto simp: base_ok_def)
  obtain m0 where m0: "mpu_create (Some (m, a, b)) = (0, Some m0)" "mpu_wf m0" "\<forall>q. q_pkts q m0 = []"
    by (rule mpu_create_ok [OF assms(3)])
  have "mpu_ok m0" using m0(2,3) by (simp add: mpu_ok_def)
  then have ok: "mpu_ok (m0\<lparr>mpu_running := 1\<rparr>)" by simp
  obtain d closed where d: "dludp_init (so_init os) (Some dl) = Inr (0, closed, d)"
    and U': "U' = U\<lparr>u_mpu := Some (m0\<lparr>mpu_running := 1\<rparr>), u_dl := d, u_running := True\<rparr>"
    using assms(1,2) dl(1) conf m0(1)
    by (auto simp: umtp_start_def start_mpu_def mpu_start_def Let_def bindE_eq_Inr simp del: dludp_init.simps split: if_splits)
  then show ?thesis
    using dludp_init_keeps [OF d] ok assms(4) dl by (auto simp: node_ok_def base_ok_def)
qed

text \<open>C2. Every run of an instance is safe. After a successful \<open>umtp_start\<close>, whatever turns of its two tasks, submissions and changes of the settings
  happen in whatever order, with datagrams of at most 2001 bytes of any content, submitted data that
  fit, and service handlers that keep to their buffers: no step reads or writes outside an object or follows a bad
  pointer. This holds whatever bytes the memory that \<open>malloc\<close> gives for the message process unit
  holds; it does not say that no step reads a byte of a packet that no message has written there,
  which a short datagram makes the handlers do. A run that is not stopped by a loop that does not return or
  by the overflow of the session counter leaves at most 16 packets in each queue, each of a length that its
  handler copes with, 255 sessions with no identifier twice, every stored request within its buffer, and the
  invariant with which the run started.\<close>

theorem node_run_safe:
  assumes "umtp_start os (Some U0) = Inr (0, freed, Some U)" and "so_mpu os = Some (m, a, b)" and "mpu_memory m a b"
    and "base_ok U0" and "vars_ok T" and "\<forall>e \<in> set evs. event_ok e"
  shows "case foldE (node_step sendto) evs (T, U) of
      Inl e \<Rightarrow> e = No_return \<or> e = Signed_overflow
    | Inr (T', U') \<Rightarrow> vars_ok T' \<and> node_ok U'
        \<and> (\<exists>m. u_mpu U' = Some m \<and> (\<forall>q. length (q_pkts q m) \<le> 16
            \<and> (\<forall>x \<in> set (q_pkts q m). unat (p_length x) \<le> (if q = Send_queue then MAX_APDU else MAX_MPU_DATA))))
        \<and> length (sessions (u_sess U')) = MAX_UMTP_SESSION
        \<and> (\<forall>i < MAX_UMTP_SESSION. \<forall>j < MAX_UMTP_SESSION. ids (u_sess U') ! i = ids (u_sess U') ! j
            \<and> ids (u_sess U') ! i \<noteq> 0 \<longrightarrow> i = j)
        \<and> (\<forall>s \<in> set (sessions (u_sess U')). unat (s_pdu_len s) \<le> MAX_APDU)"
proof -
  have start: "node_ok U" by (rule start_node_ok [OF assms(1-4)])
  have run: "safe (\<lambda>(T', U'). vars_ok T' \<and> node_ok U') (foldE (node_step sendto) evs (T, U))"
  proof (rule safe_foldE)
    fix e and TU :: "task_vars \<times> 'a umtp"
    assume "e \<in> set evs" and "case TU of (T', U') \<Rightarrow> vars_ok T' \<and> node_ok U'"
    then show "safe (\<lambda>(T', U'). vars_ok T' \<and> node_ok U') (node_step sendto e TU)"
      using assms(6) by (cases TU) (auto intro!: node_step_safe)
  qed (use assms(5) start in simp)
  have node: "(\<exists>m. u_mpu V = Some m \<and> (\<forall>q. length (q_pkts q m) \<le> 16
            \<and> (\<forall>x \<in> set (q_pkts q m). unat (p_length x) \<le> (if q = Send_queue then MAX_APDU else MAX_MPU_DATA))))
        \<and> length (sessions (u_sess V)) = MAX_UMTP_SESSION
        \<and> (\<forall>i < MAX_UMTP_SESSION. \<forall>j < MAX_UMTP_SESSION. ids (u_sess V) ! i = ids (u_sess V) ! j
            \<and> ids (u_sess V) ! i \<noteq> 0 \<longrightarrow> i = j)
        \<and> (\<forall>s \<in> set (sessions (u_sess V)). unat (s_pdu_len s) \<le> MAX_APDU)" if "node_ok V" for V :: "'a umtp"
  proof -
    obtain m where m: "u_mpu V = Some m" "mpu_ok m" and fit: "sess_fit (u_sess V)"
      using \<open>node_ok V\<close> by (auto simp: node_ok_def base_ok_def)
    have "unat (p_length x) \<le> (if q = Send_queue then MAX_APDU else MAX_MPU_DATA)" if "x \<in> set (q_pkts q m)" for q x
    proof -
      have "pkt_ok q x" using m(2) that by (simp add: mpu_ok_def)
      then show ?thesis by (cases q) (simp_all add: pkt_ok_def)
    qed
    moreover have "length (q_pkts q m) \<le> 16" for q using m(2) q_pkts_bound [of m q] by (simp add: mpu_ok_def)
    moreover have "sess_wf (u_sess V)" using fit by (simp add: sess_fit_def)
    ultimately show ?thesis
      using m(1) fit ids_unique [OF \<open>sess_wf (u_sess V)\<close>] by (auto simp: sess_fit_def slot_fit_def sess_wf_def)
  qed
  show ?thesis
  proof (cases "foldE (node_step sendto) evs (T, U)")
    case (Inl e)
    then show ?thesis using run by simp
  next
    case (Inr x)
    obtain T' U' where x: "x = (T', U')" by (cases x)
    have "vars_ok T'" "node_ok U'" using run by (simp_all add: Inr x)
    then show ?thesis using node [of U'] unfolding Inr x sum.case prod.case by blast
  qed
qed

lemma ex_node_ok: "base_ok (ex_node a)"
proof -
  have "service_ok (ex_service 5)" by (auto simp: service_ok_def ex_service_def answer_fits_def)
  then have "services_ok ex_registered"
    by (auto simp: services_ok_def ex_registered_facts split: if_splits)
  moreover have "sess_fit ex_sess"
    using ex_sess_facts(1) by (simp add: sess_fit_def) (simp add: ex_sess_def ex_blank_def slot_fit_def ex_dl_facts(4))
  ultimately show ?thesis
    using ex_node_facts(8) [of a] by (simp add: base_ok_def ex_node_facts umtp_ready_def)
qed

text \<open>After the start: a submission, its transmission, three quiet seconds, and a datagram of junk.\<close>

theorem node_run_safe_witness:
  "\<exists>U. umtp_start (ex_os_start 0) (Some (ex_node 1)) = Inr (0, False, Some U) \<and>
    (case foldE (node_step ex_net)
      [Ev_submit ex_quiet ex_addr (Some \<lparr>ad_service = 5, confirmed = True, ad_data = [7], ad_data_len = 1\<rparr>),
       Ev_mpu 0, Ev_turn 10 Select_none, Ev_turn 11 (Datagram 2 9 [0x68, 1, 7])] (ex_vars, U) of
      Inl e \<Rightarrow> e = No_return \<or> e = Signed_overflow
    | Inr (T', U') \<Rightarrow> node_ok U' \<and> length (sessions (u_sess U')) = 255)"
proof -
  have os: "so_mpu (ex_os_start 0) = Some (ex_raw, 4096, 40960)" "so_mpu_task (ex_os_start 0) = 0" "so_task (ex_os_start 0) = 0"
    by (simp_all add: ex_os_start_def)
  have mem: "mpu_memory ex_raw 4096 40960" by (simp add: mpu_memory_def ex_raw_def ex_packet_def)
  have "dludp_init (so_init (ex_os_start 0)) (Some (ex_link 1)) = Inr (0, [], Some ((ex_link 1)\<lparr>broadcast_addr := 1 OR NOT 0x00FFFFFF\<rparr>))"
    by (simp add: ex_os_start_def ex_os_def ex_link_def get_local_address_ioctl_def get_local_ifr_ioctl_def htons_def Let_def)
  then obtain U where U: "umtp_start (ex_os_start 0) (Some (ex_node 1)) = Inr (0, False, Some U)"
    using ex_node_facts(8,9) [of 1] os
    by (simp add: umtp_start_def start_mpu_def mpu_create_def mpu_start_def umtp_ready_def Let_def del: dludp_init.simps)
  show ?thesis
    using U node_run_safe [OF U os(1) mem ex_node_ok ex_node_facts(2), of
      "[Ev_submit ex_quiet ex_addr (Some \<lparr>ad_service = 5, confirmed = True, ad_data = [7], ad_data_len = 1\<rparr>),
       Ev_mpu 0, Ev_turn 10 Select_none, Ev_turn 11 (Datagram 2 9 [0x68, 1, 7])]" ex_net]
    by (auto simp: ex_dl_facts(4) ex_quiet_def simp del: node_step.simps foldE.simps split: sum.splits)
qed

end
