(* ===== verification/Modes.thy ===== *)
theory Modes
  imports Node
begin

text \<open>
  The two modes of an instance. In synchronous mode a message is handled, and sent, where it
  arises; in asynchronous mode it goes through the queues of the message process unit.
  \<open>twin U V\<close> relates an asynchronous instance with empty queues to a synchronous one in the same state.
  Every step of the synchronous instance is matched by the same step of its twin followed by one turn
  of the message process unit, and the two are twins again.
\<close>

section \<open>The part of a step that does not depend on the mode\<close>

lemma bindE_prod: "bindE (case p of (a, b) \<Rightarrow> f a b) g = (case p of (a, b) \<Rightarrow> bindE (f a b) g)"
  by (cases p) simp

text \<open>What a result satisfies if it is one.\<close>

definition post :: "('a \<Rightarrow> bool) \<Rightarrow> 'a res \<Rightarrow> bool" where
  "post P r \<longleftrightarrow> (\<forall>x. r = Inr x \<longrightarrow> P x)"

lemma post_bind: "post Q m \<Longrightarrow> (\<And>x. Q x \<Longrightarrow> post P (f x)) \<Longrightarrow> post P (bindE m f)"
  by (cases m) (simp_all add: post_def)

lemma post_simps [simp]: "post P (Inr x) = P x" "post P (Inl e)" "post (\<lambda>_. True) r"
  by (simp_all add: post_def)

lemma post_arr:
  "post (\<lambda>zs. length zs = length xs \<and> i + length ys \<le> length xs) (arr_write xs i ys)"
  "post (\<lambda>zs. length zs = length xs) (arr_set xs i v)"
  "post (\<lambda>ys. 0 \<le> n \<and> length ys = nat n) (arr_read xs i n)"
  by (auto simp: post_def arr_write_def arr_set_def arr_read_def split: if_splits)

text \<open>What \<open>apdu_request\<close> computes before it submits the answer: the buffer, the length, the world.\<close>

definition request_answer ::
  "'w service_state \<Rightarrow> u8 list \<Rightarrow> 'w \<Rightarrow> umtp_addr \<Rightarrow> u8 \<Rightarrow> u8 \<Rightarrow> u8 \<Rightarrow> nat \<Rightarrow> u8 list \<Rightarrow> u32 \<Rightarrow> (u8 list \<times> u16 \<times> 'w) res"
where
  "request_answer svcs blk w src flag svc sid n data len =
     bindE (service_handler svcs src \<lparr>sd_service_id = uint svc, sd_data_len = 0, sd_data = None\<rparr>
         (drop n blk) (Some data) len w) (\<lambda>(ret, sd, part, w).
     bindE (arr_write blk n part) (\<lambda>blk0.
     bindE (arr_set blk0 0 flag) (\<lambda>blk1.
     bindE (arr_set blk1 1 (if ret \<noteq> 0 then UMTP_PDU_ERROR else UMTP_PDU_RESPONSE)) (\<lambda>blk2.
     bindE (arr_set blk2 2 svc) (\<lambda>blk3.
     bindE (if apdu_has_session_id flag
            then bindE (arr_set blk3 3 sid) (\<lambda>b. Inr (b, 4)) else Inr (blk3, 3 :: nat)) (\<lambda>(blk4, k).
     bindE (if ret \<noteq> 0 then bindE (arr_set blk4 k (word_of_int ret)) (\<lambda>b. Inr (b, of_nat k + 1))
            else bindE (case sd_data sd of
                None \<Rightarrow> arr_read blk4 n (uint (sd_data_len sd))
              | Some bs \<Rightarrow> arr_read bs 0 (uint (sd_data_len sd))) (\<lambda>xs.
              bindE (arr_write blk4 k xs) (\<lambda>b. Inr (b, of_nat k + ucast (sd_data_len sd))))) (\<lambda>(blk5, encode_len :: u16).
     Inr (blk5, encode_len, w))))))))"

lemma apdu_request_factor:
  "apdu_request sendto src flag svc sid n apdu pdu_len W =
     bindE (request_answer (u_svc W) (apdu_trans_blk W) (u_world W) src flag svc sid n (drop n apdu)
         (word_of_int (uint pdu_len - int n))) (\<lambda>(b, len, w).
       priv_umtp_apdu_submit sendto src b (uint len) (W\<lparr>apdu_trans_blk := b, u_world := w\<rparr>))"
  unfolding apdu_request_def request_answer_def bindE_assoc bindE_prod bindE_Inr prod.case
  by (rule refl)

lemma uint_sum_small:
  fixes l :: u32
  assumes "k + unat l \<le> MAX_APDU"
  shows "uint (of_nat k + ucast l :: u16) = int (k + unat l)"
proof -
  have "(of_nat k + ucast l :: u16) = of_nat (k + unat l)" by (simp add: unsigned_def)
  then show ?thesis using assms uint_of_nat_small [of "k + unat l"] by simp
qed

lemma request_answer_bounds:
  assumes blk: "length blk = MAX_APDU"
  shows "post (\<lambda>(b, k, w). length b = MAX_APDU \<and> 0 < uint k \<and> uint k \<le> int MAX_APDU)
    (request_answer svcs blk w src flag svc sid n data len)"
proof -
  let ?P = "\<lambda>(b :: u8 list, k :: u16). length b = MAX_APDU \<and> 0 < uint k \<and> uint k \<le> int MAX_APDU"
  have head: "post (\<lambda>(b, k). length b = MAX_APDU \<and> (k = 3 \<or> k = 4))
      (if apdu_has_session_id flag then bindE (arr_set b 3 sid) (\<lambda>b. Inr (b, 4)) else Inr (b, 3 :: nat))"
    if "length b = MAX_APDU" for b
    using that by (auto intro: post_bind [OF post_arr(2)])
  have body: "post ?P (if ret \<noteq> 0 then bindE (arr_set b k (word_of_int ret)) (\<lambda>b. Inr (b, of_nat k + 1))
            else bindE (case sd_data sd of None \<Rightarrow> arr_read b n (uint (sd_data_len sd))
              | Some bs \<Rightarrow> arr_read bs 0 (uint (sd_data_len sd))) (\<lambda>xs.
              bindE (arr_write b k xs) (\<lambda>b. Inr (b, of_nat k + ucast (sd_data_len sd)))))"
    if b: "length b = MAX_APDU" and k: "k = 3 \<or> k = 4" for ret sd b k
  proof (cases "ret = 0")
    case False
    have "post ?P (bindE (arr_set b k (word_of_int ret)) (\<lambda>b. Inr (b, of_nat k + 1)))"
      by (rule post_bind [OF post_arr(2)]) (use b k in auto)
    then show ?thesis using False by simp
  next
    case True
    have "post (\<lambda>xs. length xs = unat (sd_data_len sd)) (case sd_data sd of None \<Rightarrow> arr_read b n (uint (sd_data_len sd))
              | Some bs \<Rightarrow> arr_read bs 0 (uint (sd_data_len sd)))"
      using post_arr(3) [where n = "uint (sd_data_len sd)"] by (auto simp: post_def split: option.split)
    moreover have "post ?P (bindE (arr_write b k xs) (\<lambda>b. Inr (b, of_nat k + ucast (sd_data_len sd))))"
      if "length xs = unat (sd_data_len sd)" for xs
      by (rule post_bind [OF post_arr(1)]) (use b k that in \<open>auto simp: uint_sum_small simp del: of_nat_add\<close>)
    ultimately show ?thesis using True by (auto intro: post_bind)
  qed
  show ?thesis
    unfolding request_answer_def
    by (rule post_bind [where Q = "\<lambda>_. True"], simp, simp only: split_paired_all prod.case,
        rule post_bind [OF post_arr(1)], (rule post_bind [OF post_arr(2)])+, rule post_bind [OF head], simp add: blk,
        simp only: split_paired_all prod.case, rule post_bind [OF body], auto)
qed

text \<open>What \<open>umtp_apdu_submit\<close> computes before it submits the message: the message, its length, the sessions.\<close>

definition submit_message ::
  "(nat \<Rightarrow> (unit, unit) session_state \<Rightarrow> (unit, unit) session_state) \<Rightarrow> umtp_addr \<Rightarrow> apdu_data
   \<Rightarrow> (unit, unit) session_state \<Rightarrow> (u8 list \<times> int \<times> (unit, unit) session_state) res"
where
  "submit_message env dst ad S =
     bindE (arr_set (replicate MAX_APDU 0) 0 (if confirmed ad then apdu_flag_set_session_id 0 else 0)) (\<lambda>tmp0.
     bindE (arr_set tmp0 1 UMTP_PDU_REQUEST) (\<lambda>tmp1.
     bindE (arr_set tmp1 2 (word_of_int (ad_service ad))) (\<lambda>tmp2.
     bindE (if apdu_has_session_id (if confirmed ad then apdu_flag_set_session_id 0 else 0)
            then (case wait_session env 0 S of
                None \<Rightarrow> Inl No_return
              | Some r \<Rightarrow> bindE r (\<lambda>(sid, S). bindE (arr_set tmp2 3 sid) (\<lambda>t. Inr (sid, t, 4, S))))
            else Inr (0, tmp2, 3 :: nat, S)) (\<lambda>(sid, tmp3, n, S1).
     bindE (arr_read (ad_data ad) 0 (ad_data_len ad)) (\<lambda>xs.
     bindE (arr_write tmp3 n xs) (\<lambda>tmp4.
     bindE (if confirmed ad
            then umtp_session_set sid (Some ()) () dst tmp4 (word_of_int (int n + ad_data_len ad)) S1
            else Inr S1) (\<lambda>S2.
     Inr (tmp4, int n + ad_data_len ad, S2))))))))"

lemma submit_factor:
  "umtp_send_message sendto env dst (Some ad) W =
     bindE (submit_message env dst ad (u_sess W)) (\<lambda>(b, len, S).
       priv_umtp_apdu_submit sendto dst b len (W\<lparr>u_sess := S\<rparr>))"
proof -
  have "\<not> MAX_APDU < MAX_APDU" by simp
  then show ?thesis
    unfolding umtp_send_message_def umtp_apdu_submit_def submit_message_def option.case Let_def
      bindE_assoc bindE_prod bindE_Inr prod.case by (rule if_not_P)
qed

lemma submit_message_bounds:
  "post (\<lambda>(b, k, S). length b = MAX_APDU \<and> 0 < k \<and> k \<le> int MAX_APDU) (submit_message env dst ad S)"
proof -
  have head: "post (\<lambda>(sid, b, n, S). length b = MAX_APDU \<and> (n = 3 \<or> n = 4))
      (if apdu_has_session_id flag
       then (case wait_session env 0 S of
           None \<Rightarrow> Inl No_return
         | Some r \<Rightarrow> bindE r (\<lambda>(sid, S). bindE (arr_set b 3 sid) (\<lambda>t. Inr (sid, t, 4, S))))
       else Inr (0, b, 3 :: nat, S))" if "length b = MAX_APDU" for flag b
    using that
    by (auto simp: post_simps(3) split: option.split intro!: post_bind [where Q = "\<lambda>_. True"] post_bind [OF post_arr(2)])
  have body: "post (\<lambda>(b, k, S). length b = MAX_APDU \<and> 0 < k \<and> k \<le> int MAX_APDU)
     (bindE (arr_read (ad_data ad) 0 (ad_data_len ad)) (\<lambda>xs.
      bindE (arr_write b n xs) (\<lambda>tmp4.
      bindE (if confirmed ad
            then umtp_session_set sid (Some ()) () dst tmp4 (word_of_int (int n + ad_data_len ad)) S1
            else Inr S1) (\<lambda>S2. Inr (tmp4, int n + ad_data_len ad, S2)))))"
    if "length b = MAX_APDU" "n = 3 \<or> n = 4" for b n sid S1
    by (rule post_bind [OF post_arr(3)], rule post_bind [OF post_arr(1)], rule post_bind [where Q = "\<lambda>_. True"])
      (use that in auto)
  show ?thesis
    unfolding submit_message_def
    by ((rule post_bind [OF post_arr(2)])+, rule post_bind [OF head], simp,
        simp only: split_paired_all prod.case, rule body, auto)
qed

section \<open>Twins\<close>

definition in_sync :: "'w umtp \<Rightarrow> 'w umtp" where
  "in_sync U = U\<lparr>u_conf := Some \<lparr>sync_mode = True\<rparr>\<rparr>"

text \<open>Handlers that look at the bytes of the message only, not at what the buffer holds behind it.\<close>

definition reads_message :: "'w service_state \<Rightarrow> bool" where
  "reads_message S \<longleftrightarrow> (\<forall>src sd blk session i d rest rest' w. length d \<le> MAX_MPU_DATA \<longrightarrow>
     service_handler S src sd blk (Some (d @ rest)) (of_nat (length d)) w = service_handler S src sd blk (Some (d @ rest')) (of_nat (length d)) w
   \<and> service_rsp_handler S src i session (Some (d @ rest)) (of_nat (length d)) w
       = service_rsp_handler S src i session (Some (d @ rest')) (of_nat (length d)) w)"

definition alike :: "'w umtp \<Rightarrow> 'w umtp \<Rightarrow> bool" where
  "alike U V \<longleftrightarrow> u_conf U = Some \<lparr>sync_mode = False\<rparr> \<and> u_conf V = Some \<lparr>sync_mode = True\<rparr>
     \<and> (\<exists>dl. u_dl U = Some dl \<and> 0 \<le> socket dl \<and> dl_encrypt dl = None \<and> dl_decrypt dl = None) \<and> u_dl V = u_dl U
     \<and> length (apdu_trans_blk U) = MAX_APDU \<and> apdu_trans_blk V = apdu_trans_blk U
     \<and> u_sess V = u_sess U \<and> u_svc V = u_svc U \<and> reads_message (u_svc U)"

definition unit_with :: "unit mpu \<Rightarrow> unit mpu_packet list \<Rightarrow> unit mpu_packet list \<Rightarrow> bool" where
  "unit_with m rs ss \<longleftrightarrow> mpu_wf m \<and> mpu_running m \<noteq> 0 \<and> q_pkts Recv_queue m = rs \<and> q_pkts Send_queue m = ss"

definition twin :: "'w umtp \<Rightarrow> 'w umtp \<Rightarrow> bool" where
  "twin U V \<longleftrightarrow> alike U V \<and> u_world V = u_world U \<and> (\<exists>m. u_mpu U = Some m \<and> unit_with m [] [])"

text \<open>In the middle of a step: at most one message that the synchronous instance has sent is still queued.\<close>

definition pending :: "('w \<Rightarrow> u8 list \<Rightarrow> u32 \<Rightarrow> u16 \<Rightarrow> 'w) \<Rightarrow> unit mpu_packet list \<Rightarrow> 'w umtp \<Rightarrow> 'w umtp \<Rightarrow> bool" where
  "pending log rs U V \<longleftrightarrow> alike U V \<and> (\<exists>m. u_mpu U = Some m \<and>
     (unit_with m rs [] \<and> u_world V = u_world U
    \<or> (\<exists>y dst msg dl. unit_with m rs [y] \<and> pkt_msg y = (dst, (), msg) \<and> addr_wf dst \<and> msg \<noteq> [] \<and> length msg \<le> MAX_APDU
         \<and> u_dl U = Some dl
         \<and> u_world V = log (u_world U) (UMTP_SIGNATURE # FTTP_PROTOCOL_VERSION # msg) (fst (dest_of dl dst)) (snd (dest_of dl dst)))))"

lemma pendingE:
  assumes "pending log rs U V"
  obtains m where "alike U V" and "u_mpu U = Some m" and "unit_with m rs []" and "u_world V = u_world U"
  | m y dst msg dl where "alike U V" and "u_mpu U = Some m" and "unit_with m rs [y]" and "pkt_msg y = (dst, (), msg)"
    and "addr_wf dst" and "msg \<noteq> []" and "length msg \<le> MAX_APDU" and "u_dl U = Some dl"
    and "u_world V = log (u_world U) (UMTP_SIGNATURE # FTTP_PROTOCOL_VERSION # msg) (fst (dest_of dl dst)) (snd (dest_of dl dst))"
  using assms unfolding pending_def by blast

lemma alike_update [simp]:
  "alike (U\<lparr>u_world := w\<rparr>) V = alike U V" "alike U (V\<lparr>u_world := w\<rparr>) = alike U V"
  "alike (U\<lparr>u_mpu := x\<rparr>) V = alike U V" "alike U (V\<lparr>u_mpu := x\<rparr>) = alike U V"
  "alike U V \<Longrightarrow> alike (U\<lparr>u_sess := S\<rparr>) (V\<lparr>u_sess := S\<rparr>)"
  "alike U V \<Longrightarrow> length b = MAX_APDU \<Longrightarrow> alike (U\<lparr>apdu_trans_blk := b\<rparr>) (V\<lparr>apdu_trans_blk := b\<rparr>)"
  by (simp_all add: alike_def)

lemma submit_pending:
  assumes "alike U V" and "u_world V = u_world U" and "u_mpu U = Some m" and "unit_with m rs []"
    and "takes_frames sendto log" and "addr_wf dst" and "0 < len" and "len \<le> int MAX_APDU" and "length b = MAX_APDU"
  obtains U' V' where "priv_umtp_apdu_submit sendto dst b len U = Inr (0, U')" and "priv_umtp_apdu_submit sendto dst b len V = Inr (0, V')"
    and "pending log rs U' V'"
proof -
  have m: "mpu_wf m" "mpu_running m \<noteq> 0" "length (q_pkts Send_queue m) < 16" "q_pkts Recv_queue m = rs" "q_pkts Send_queue m = []"
    using assms(4) by (simp_all add: unit_with_def)
  have len: "0 \<le> len" "len \<le> int MAX_MPU_DATA" "nat len \<le> length b" using assms(7-9) by simp_all
  obtain m' where m': "mpu_put Send_queue (Some m) dst () (Some b) len = Inr (0, Some m')" "mpu_wf m'"
    "sends m' = sends m @ [(dst, (), take (nat len) b)]" "q_pkts Recv_queue m' = q_pkts Recv_queue m" "mpu_running m' = mpu_running m"
    by (rule mpu_put_ok [OF m(1-3) len, of dst "()"]) simp
  obtain y where y: "q_pkts Send_queue m' = [y]" "pkt_msg y = (dst, (), take (nat len) b)"
    using m'(3) m(5) by auto
  obtain dl where dl: "u_dl U = Some dl" "u_dl V = Some dl" "0 \<le> socket dl" "dl_encrypt dl = None" using assms(1) by (auto simp: alike_def)
  have conf: "u_conf V = Some \<lparr>sync_mode = True\<rparr>" using assms(1) by (simp add: alike_def)
  let ?w = "log (u_world U) (UMTP_SIGNATURE # FTTP_PROTOCOL_VERSION # take (nat len) b) (fst (dest_of dl dst)) (snd (dest_of dl dst))"
  have "priv_umtp_apdu_submit sendto dst b len U = Inr (0, U\<lparr>u_mpu := Some m'\<rparr>)"
    using m'(1) assms(1,3) by (simp add: priv_umtp_apdu_submit_def mpu_put_send_def alike_def)
  moreover have "priv_umtp_apdu_submit sendto dst b len V = Inr (0, V\<lparr>u_world := ?w\<rparr>)"
    using npdu_send_udp [OF dl(3,4) assms(6) len(3) assms(7,8), of sendto "u_world V"] assms(2,5,7-9) dl(2) conf
    by (simp add: priv_umtp_apdu_submit_def takes_frames_def)
  moreover have "take (nat len) b \<noteq> []" "length (take (nat len) b) \<le> MAX_APDU" using assms(7,9) by auto
  then have "pending log rs (U\<lparr>u_mpu := Some m'\<rparr>) (V\<lparr>u_world := ?w\<rparr>)"
    using assms(1,6) m' m y dl(1) by (simp add: pending_def unit_with_def)
  ultimately show ?thesis using that by blast
qed

text \<open>What is queued is sent in the next turn of the unit's task.\<close>

lemma sends_pending:
  assumes "mpu_wf m0" and "y \<in> set (q_pkts q m0)" and "pkt_msg y = (dst, (), msg)" and "alike U V" and "takes_frames sendto log"
    and "addr_wf dst" and "msg \<noteq> []" and "length msg \<le> MAX_APDU" and "u_dl U = Some dl"
  shows "priv_umtp_send_msg sendto y (m, U) = Inr (0, m, U\<lparr>u_world :=
      log (u_world U) (UMTP_SIGNATURE # FTTP_PROTOCOL_VERSION # msg) (fst (dest_of dl dst)) (snd (dest_of dl dst))\<rparr>)"
  using assms(4,9) by (intro send_msg_logged [OF assms(1-3,5,9) _ _ assms(6-8)]) (auto simp: alike_def)

lemma pending_sent:
  assumes "pending log [] U V" and "takes_frames sendto log"
  obtains U' where "umtp_mpu_turn sendto 0 U = Inr U'" and "twin U' V"
  using assms(1)
proof (cases rule: pendingE)
  case (1 m)
  then have e: "ringbuf_empty (Some (get_queue q m))" for q
    using q_pkts_empty [of m q] by (cases q) (simp_all add: unit_with_def)
  have "mpu_drain (Some (priv_umtp_handle_msg sendto)) (Some (priv_umtp_send_msg sendto)) (m, U) = Some (Inr (m, U))"
    using e [of Recv_queue] e [of Send_queue] by (subst mpu_drain.simps) (simp del: ringbuf_empty.simps)
  then have "umtp_mpu_turn sendto 0 U = Inr (U\<lparr>u_mpu := Some m\<rparr>)"
    using 1 by (simp add: umtp_mpu_turn_def mpu_turn_def mpu_after_wait_def unit_with_def)
  then show ?thesis by (rule that) (use 1 in \<open>simp add: twin_def\<close>)
next
  case (2 m y dst msg dl)
  have m: "mpu_wf m" "mpu_running m \<noteq> 0" "q_pkts Recv_queue m = []" "q_pkts Send_queue m = [y]"
    using 2 by (simp_all add: unit_with_def)
  have "y \<in> set (q_pkts Send_queue m)" using m(4) by simp
  from sends_pending [OF m(1) this 2(4,1) assms(2) 2(5-8), of m]
  have tx: "priv_umtp_send_msg sendto y (m, U) = Inr (0, m, U\<lparr>u_world := u_world V\<rparr>)" by (simp add: 2(9))
  obtain m' where m': "mpu_turn (Some (priv_umtp_handle_msg sendto)) (Some (priv_umtp_send_msg sendto)) 0 (m, U)
      = Inr (True, False, m', U\<lparr>u_world := u_world V\<rparr>)" "mpu_wf m'" "q_pkts Recv_queue m' = []" "q_pkts Send_queue m' = []"
    "mpu_running m' = mpu_running m"
    by (rule mpu_turn_send_one [where send = "priv_umtp_send_msg sendto", OF m tx])
  then have "umtp_mpu_turn sendto 0 U = Inr (U\<lparr>u_world := u_world V, u_mpu := Some m'\<rparr>)"
    by (simp add: umtp_mpu_turn_def 2(2))
  then show ?thesis by (rule that) (use 2(1) m' m(2) in \<open>simp add: twin_def unit_with_def\<close>)
qed

lemma pending_handled:
  assumes "u_mpu U = Some m" and "unit_with m [x] []" and "priv_umtp_handle_msg sendto x (m, U) = Inr (0, m1, U1)"
    and "u_mpu U1 = Some m1" and "pending log [x] U1 V" and "takes_frames sendto log"
  obtains U' where "umtp_mpu_turn sendto 0 U = Inr U'" and "twin U' V"
proof -
  have m: "mpu_wf m" "mpu_running m \<noteq> 0" "q_pkts Recv_queue m = [x]" using assms(2) by (simp_all add: unit_with_def)
  have like: "alike U1 V" using assms(5) by (simp add: pending_def)
  have m1: "mpu_wf m1" "mpu_running m1 \<noteq> 0" "q_pkts Recv_queue m1 = [x]"
    using assms(4,5) by (auto simp: pending_def unit_with_def)
  have s: "q_pkts Send_queue m1 = [] \<and> U1\<lparr>u_world := u_world V\<rparr> = U1
      \<or> (\<exists>y. q_pkts Send_queue m1 = [y] \<and> (\<forall>m. priv_umtp_send_msg sendto y (m, U1) = Inr (0, m, U1\<lparr>u_world := u_world V\<rparr>)))"
    using assms(5)
  proof (cases rule: pendingE)
    case (1 m')
    then show ?thesis using assms(4) by (simp add: unit_with_def)
  next
    case (2 m' y dst msg dl)
    then have y: "q_pkts Send_queue m1 = [y]" using assms(4) by (simp add: unit_with_def)
    then have "y \<in> set (q_pkts Send_queue m1)" by simp
    from sends_pending [OF m1(1) this 2(4) like assms(6) 2(5-8)]
    have "priv_umtp_send_msg sendto y (m, U1) = Inr (0, m, U1\<lparr>u_world := u_world V\<rparr>)" for m by (simp add: 2(9))
    then show ?thesis using y by blast
  qed
  obtain m' where m': "mpu_turn (Some (priv_umtp_handle_msg sendto)) (Some (priv_umtp_send_msg sendto)) 0 (m, U)
      = Inr (True, False, m', U1\<lparr>u_world := u_world V\<rparr>)" "mpu_wf m'" "q_pkts Recv_queue m' = []" "q_pkts Send_queue m' = []"
    "mpu_running m' \<noteq> 0"
    by (rule mpu_turn_recv_one [of m x "priv_umtp_handle_msg sendto" U m1 U1 "U1\<lparr>u_world := u_world V\<rparr>" "priv_umtp_send_msg sendto",
        OF m assms(3) m1(1,3,2) s])
  then have "umtp_mpu_turn sendto 0 U = Inr (U1\<lparr>u_world := u_world V, u_mpu := Some m'\<rparr>)"
    by (simp add: umtp_mpu_turn_def assms(1))
  then show ?thesis by (rule that) (use like m' in \<open>simp add: twin_def unit_with_def\<close>)
qed

section \<open>Handling a message\<close>

lemma reads_messageD:
  assumes "reads_message S" and "length d \<le> MAX_MPU_DATA"
  shows "service_handler S src sd blk (Some (d @ rest)) (of_nat (length d)) w = service_handler S src sd blk (Some (d @ rest')) (of_nat (length d)) w"
    and "service_rsp_handler S src i session (Some (d @ rest)) (of_nat (length d)) w
       = service_rsp_handler S src i session (Some (d @ rest')) (of_nat (length d)) w"
  using assms unfolding reads_message_def by blast+

lemma clear_pending:
  assumes "alike U V" and "u_world V = u_world U" and "u_mpu U = Some m" and "unit_with m rs []" and "clear_session flag sid V = Inr (r, V')"
  obtains U' where "clear_session flag sid U = Inr (0, U')" and "pending log rs U' V'"
proof (cases "apdu_has_session_id flag")
  case True
  then obtain S where S: "umtp_session_clear sid (u_sess V) = Inr S" "V' = V\<lparr>u_sess := S\<rparr>"
    using assms(5) by (auto simp: clear_session_def res_simps)
  then have "clear_session flag sid U = Inr (0, U\<lparr>u_sess := S\<rparr>)"
    using True assms(1) by (simp add: clear_session_def alike_def)
  moreover have "pending log rs (U\<lparr>u_sess := S\<rparr>) V'" using assms(1-4) S(2) by (simp add: pending_def)
  ultimately show ?thesis using that by blast
next
  case False
  then have "clear_session flag sid U = Inr (0, U)" "V' = V" using assms(5) by (simp_all add: clear_session_def)
  moreover have "pending log rs U V" using assms(1-4) by (simp add: pending_def)
  ultimately show ?thesis using that by blast
qed

lemma world_clear_pending:
  assumes "alike U V" and "u_mpu U = Some m" and "unit_with m rs []"
    and "bindE g (\<lambda>w. clear_session flag sid (V\<lparr>u_world := w\<rparr>)) = Inr (r, V')"
  obtains U' where "bindE g (\<lambda>w. clear_session flag sid (U\<lparr>u_world := w\<rparr>)) = Inr (0, U')" and "pending log rs U' V'"
proof -
  obtain w where w: "g = Inr w" "clear_session flag sid (V\<lparr>u_world := w\<rparr>) = Inr (r, V')" using assms(4) by (auto simp: res_simps)
  show ?thesis
    by (rule clear_pending [of "U\<lparr>u_world := w\<rparr>" "V\<lparr>u_world := w\<rparr>" m rs flag sid r V' log])
      (use assms(1-3) w that in simp_all)
qed

lemma request_pending:
  fixes flag svc sid :: u8 and d :: "u8 list"
  defines "n \<equiv> (if apdu_has_session_id flag then 4 else 3 :: nat)"
  assumes "alike U V" and "u_world V = u_world U" and "u_mpu U = Some m" and "unit_with m rs []"
    and "takes_frames sendto log" and "addr_wf src" and "reads_message (u_svc U)" and "length d \<le> MAX_MPU_DATA"
    and "word_of_int (uint pdu_len - int n) = (of_nat (length d) :: u32)" and "length h = n"
    and "apdu_request sendto src flag svc sid n (h @ d @ rest') pdu_len V = Inr (r, V')"
  obtains U' where "apdu_request sendto src flag svc sid n (h @ d @ rest) pdu_len U = Inr (0, U')" and "pending log rs U' V'"
proof -
  have V: "u_svc V = u_svc U" "apdu_trans_blk V = apdu_trans_blk U" "length (apdu_trans_blk U) = MAX_APDU"
    using assms(2) by (simp_all add: alike_def)
  let ?ans = "\<lambda>rest. request_answer (u_svc U) (apdu_trans_blk U) (u_world U) src flag svc sid n (d @ rest) (of_nat (length d))"
  have same: "?ans rest = ?ans rest'"
    unfolding request_answer_def by (subst reads_messageD(1) [OF assms(8,9), of _ _ _ rest _ rest']) (rule refl)
  have eq: "apdu_request sendto src flag svc sid n (h @ d @ r) pdu_len W = bindE (?ans r) (\<lambda>(b, len, w).
      priv_umtp_apdu_submit sendto src b (uint len) (W\<lparr>apdu_trans_blk := b, u_world := w\<rparr>))"
    if "u_svc W = u_svc U" "apdu_trans_blk W = apdu_trans_blk U" "u_world W = u_world U" for W r
    using that assms(10,11) by (simp add: apdu_request_factor)
  obtain b k w where a: "?ans rest' = Inr (b, k, w)"
    and sub: "priv_umtp_apdu_submit sendto src b (uint k) (V\<lparr>apdu_trans_blk := b, u_world := w\<rparr>) = Inr (r, V')"
    using assms(12) by (auto simp: eq V assms(3) res_simps)
  have k: "length b = MAX_APDU" "0 < uint k" "uint k \<le> int MAX_APDU"
    using request_answer_bounds [OF V(3)] a unfolding post_def by fastforce+
  let ?U = "U\<lparr>apdu_trans_blk := b, u_world := w\<rparr>" and ?V = "V\<lparr>apdu_trans_blk := b, u_world := w\<rparr>"
  have like: "alike ?U ?V" "u_world ?V = u_world ?U" "u_mpu ?U = Some m" using assms(2,4) k(1) by simp_all
  obtain U' V'' where "priv_umtp_apdu_submit sendto src b (uint k) ?U = Inr (0, U')"
    "priv_umtp_apdu_submit sendto src b (uint k) ?V = Inr (0, V'')" "pending log rs U' V''"
    by (rule submit_pending [OF like assms(5-7) k(2,3,1)])
  then show ?thesis using that sub by (simp add: eq same a)
qed

lemma handler_pending:
  fixes flag svc sid :: u8
  assumes "alike U V" and "u_world V = u_world U" and "u_mpu U = Some m" and "unit_with m rs []"
    and "takes_frames sendto log" and "addr_wf src" and "reads_message (u_svc U)"
    and "type < UMTP_PDU_TYPE_MAX" and "type = UMTP_PDU_ERROR \<Longrightarrow> d \<noteq> []" and "length d \<le> MAX_MPU_DATA"
    and "apdu_handler sendto src (Some (hdr flag type svc sid @ d @ rest'))
       (of_nat (length (hdr flag type svc sid) + length d)) V = Inr (r, V')"
  obtains U' where "apdu_handler sendto src (Some (hdr flag type svc sid @ d @ rest))
       (of_nat (length (hdr flag type svc sid) + length d)) U = Inr (0, U')" and "pending log rs U' V'"
proof -
  let ?n = "if apdu_has_session_id flag then 4 else 3 :: nat"
  let ?i = "if apdu_has_session_id flag then sid else 0"
  let ?len = "of_nat (length (hdr flag type svc sid) + length d) :: u16"
  have V: "u_svc V = u_svc U" "u_sess V = u_sess U" using assms(1) by (simp_all add: alike_def)
  have n: "length (hdr flag type svc sid) = ?n" by (simp add: length_hdr)
  then have "length (hdr flag type svc sid) + length d < 65536" using assms(10) by simp
  from uint_of_nat_small [OF this] have "uint ?len = int ?n + int (length d)" by (simp only: n of_nat_add)
  then have len: "word_of_int (uint ?len - int ?n) = (of_nat (length d) :: u32)" by simp
  let ?session = "if apdu_has_session_id flag then umtp_get_session ?i (u_sess U) else None"
  note hd = apdu_handler_hdr [OF assms(8), of sendto src flag svc sid, unfolded Let_def len]
  note clear = world_clear_pending [OF assms(1,3,4)]
  consider "type = UMTP_PDU_REQUEST" | "type = UMTP_PDU_RESPONSE" | "type = UMTP_PDU_ERROR"
    | "type \<noteq> UMTP_PDU_REQUEST" "type \<noteq> UMTP_PDU_RESPONSE" "type \<noteq> UMTP_PDU_ERROR" by blast
  then show ?thesis
  proof cases
    case 1
    have "apdu_handler sendto src (Some (hdr flag type svc sid @ d @ r)) ?len W
        = apdu_request sendto src flag svc ?i ?n (hdr flag type svc sid @ d @ r) ?len W" for W r
      unfolding hd if_P [OF 1] by (rule refl)
    then show ?thesis
      using request_pending [where flag = flag and rest = rest, OF assms(1-7,10) len n, of svc ?i rest' r V'] that assms(11) by metis
  next
    case 2
    then have "type \<noteq> UMTP_PDU_REQUEST" by simp
    then have h: "apdu_handler sendto src (Some (hdr flag type svc sid @ d @ r)) ?len W
        = bindE (service_rsp_handler (u_svc W) src (uint svc) ?session (Some (d @ r)) (of_nat (length d)) (u_world W))
            (\<lambda>w. clear_session flag ?i (W\<lparr>u_world := w\<rparr>))" if "u_sess W = u_sess U" for W r
      unfolding hd if_not_P [OF \<open>type \<noteq> UMTP_PDU_REQUEST\<close>] if_P [OF 2] that len by (simp only: refl)
    note rd = reads_messageD(2) [OF assms(7,10), where rest = rest and rest' = rest']
    show ?thesis
      by (rule clear [of _ flag ?i r V']) (use assms(11) that in \<open>simp_all only: h V refl assms(2) rd\<close>)
  next
    case 3
    then have ne: "type \<noteq> UMTP_PDU_REQUEST" "type \<noteq> UMTP_PDU_RESPONSE" by simp_all
    have h: "apdu_handler sendto src (Some (hdr flag type svc sid @ d @ r)) ?len W
        = bindE (service_error_handler (u_svc W) src (uint svc) (uint (d ! 0)) ?session (u_world W))
            (\<lambda>w. clear_session flag ?i (W\<lparr>u_world := w\<rparr>))" if "u_sess W = u_sess U" for W r
    proof -
      have "arr_get (d @ r) 0 = Inr (d ! 0)" using assms(9) [OF 3] by (simp add: arr_get_def nth_append)
      then show ?thesis
        unfolding hd if_not_P [OF ne(1)] if_not_P [OF ne(2)] if_P [OF 3] that by (simp only: bindE_Inr)
    qed
    show ?thesis
      by (rule clear [of _ flag ?i r V']) (use assms(11) that in \<open>simp_all only: h V refl assms(2)\<close>)
  next
    case 4
    then have h: "apdu_handler sendto src (Some (hdr flag type svc sid @ d @ r)) ?len W = clear_session flag ?i W" for W r
      unfolding hd by (simp only: if_False)
    obtain U' where "clear_session flag ?i U = Inr (0, U')" "pending log rs U' V'"
      by (rule clear_pending [OF assms(1-4), of flag ?i r V' log]) (use assms(11) h in simp_all)
    then show ?thesis using that h by simp
  qed
qed

section \<open>Steps\<close>

text \<open>A message behind the signature byte that has its version, a known type, its whole header and, for an error, its status.\<close>

fun well_formed :: "u8 list \<Rightarrow> bool" where
  "well_formed (v # flag # type # svc # ys) \<longleftrightarrow> v = FTTP_PROTOCOL_VERSION \<and> type < UMTP_PDU_TYPE_MAX
     \<and> (if apdu_has_session_id flag then ys \<noteq> [] \<and> (type = UMTP_PDU_ERROR \<longrightarrow> tl ys \<noteq> [])
        else type = UMTP_PDU_ERROR \<longrightarrow> ys \<noteq> [])"
| "well_formed _ = False"

lemma well_formedE:
  assumes "well_formed bs"
  obtains flag type svc sid d where "bs = FTTP_PROTOCOL_VERSION # hdr flag type svc sid @ d" and "type < UMTP_PDU_TYPE_MAX"
    and "type = UMTP_PDU_ERROR \<Longrightarrow> d \<noteq> []"
proof -
  obtain flag type svc ys where bs: "bs = FTTP_PROTOCOL_VERSION # flag # type # svc # ys" "type < UMTP_PDU_TYPE_MAX"
    and ys: "if apdu_has_session_id flag then ys \<noteq> [] \<and> (type = UMTP_PDU_ERROR \<longrightarrow> tl ys \<noteq> []) else type = UMTP_PDU_ERROR \<longrightarrow> ys \<noteq> []"
    using assms by (cases bs rule: well_formed.cases) auto
  show ?thesis
  proof (cases "apdu_has_session_id flag")
    case True
    then show ?thesis using bs ys by (intro that [of flag type svc "hd ys" "tl ys"]) (auto simp: hdr_def)
  next
    case False
    then show ?thesis using bs ys by (intro that [of flag type svc 0 ys]) (auto simp: hdr_def)
  qed
qed

lemma deliver_in_sync:
  assumes "u_conf V = Some \<lparr>sync_mode = True\<rparr>" and "length msg < 65535" and "msg \<noteq> []"
  shows "umtp_deliver sendto src ((FTTP_PROTOCOL_VERSION # msg) @ rest) (int (length (FTTP_PROTOCOL_VERSION # msg))) V =
    bindE (apdu_handler sendto src (Some (msg @ rest)) (of_nat (length msg)) V) (\<lambda>(ret, V'). Inr V')"
proof -
  let ?k = "of_nat (length msg) :: u16"
  have len: "(word_of_int (int (length (FTTP_PROTOCOL_VERSION # msg))) :: u16) = ?k + 1" by simp
  have "length msg + 1 < 65536" "0 < length msg" using assms(2,3) by simp_all
  from uint_of_nat_small [OF this(1)] have "uint (?k + 1) = int (length msg) + 1" by (simp only: of_nat_add of_nat_1)
  then have "0 < ?k + 1" "?k + 1 \<noteq> 1" using \<open>0 < length msg\<close> by (auto simp: word_less_def word_uint_eq_iff)
  then have "npdu_handler sendto src (Some ((FTTP_PROTOCOL_VERSION # msg) @ rest)) (word_of_int (int (length (FTTP_PROTOCOL_VERSION # msg)))) V
      = apdu_handler sendto src (Some (msg @ rest)) ?k V"
    unfolding len by (simp only: append_Cons npdu_handler_version if_False add_diff_cancel_right')
  then show ?thesis using assms(1) by (simp add: umtp_deliver_def)
qed

lemma deliver_twin:
  assumes "twin U V" and "takes_frames sendto log" and "addr_wf src" and "reads_message (u_svc U)" and "well_formed bs"
    and "length bs < MAX_MPU_DATA" and "umtp_deliver sendto src (bs @ rest') (int (length bs)) V = Inr V'"
  obtains U1 U2 where "umtp_deliver sendto src (bs @ rest') (int (length bs)) U = Inr U1" and "umtp_mpu_turn sendto 0 U1 = Inr U2"
    and "twin U2 V'"
proof -
  obtain flag type svc sid d where bs: "bs = FTTP_PROTOCOL_VERSION # hdr flag type svc sid @ d"
    and type: "type < UMTP_PDU_TYPE_MAX" "type = UMTP_PDU_ERROR \<Longrightarrow> d \<noteq> []" by (rule well_formedE [OF assms(5)]) blast
  let ?msg = "hdr flag type svc sid @ d"
  obtain m where like: "alike U V" "u_world V = u_world U" and um: "u_mpu U = Some m" "unit_with m [] []"
    using assms(1) by (auto simp: twin_def)
  have m: "mpu_wf m" "mpu_running m \<noteq> 0" "length (q_pkts Recv_queue m) < 16" using um(2) by (simp_all add: unit_with_def)
  have len: "0 \<le> int (length bs)" "int (length bs) \<le> int MAX_MPU_DATA" "nat (int (length bs)) \<le> length (bs @ rest')"
    using assms(6) by simp_all
  obtain m1 where m1: "mpu_put Recv_queue (Some m) src () (Some (bs @ rest')) (int (length bs)) = Inr (0, Some m1)" "mpu_wf m1"
    "map pkt_msg (q_pkts Recv_queue m1) = map pkt_msg (q_pkts Recv_queue m) @ [(src, (), take (nat (int (length bs))) (bs @ rest'))]"
    "q_pkts Send_queue m1 = q_pkts Send_queue m" "mpu_running m1 = mpu_running m"
    by (rule mpu_put_ok [OF m len, of src "()"]) simp
  obtain x where x: "q_pkts Recv_queue m1 = [x]" "pkt_msg x = (src, (), bs)" using m1(3) um(2) by (auto simp: unit_with_def)
  have "x \<in> set (q_pkts Recv_queue m1)" using x(1) by simp
  from pkt_msg_buffer [OF m1(2) this x(2) assms(6)] obtain rest where px: "p_buffer x = bs @ rest"
    "p_length x = of_nat (length bs)" "p_addr x = src" by metis
  let ?U1 = "U\<lparr>u_mpu := Some m1\<rparr>"
  have del: "umtp_deliver sendto src (bs @ rest') (int (length bs)) U = Inr ?U1"
    using like(1) um(1) m1(1) by (simp add: umtp_deliver_def mpu_put_recv_def alike_def)
  have u1: "alike ?U1 V" "u_world V = u_world ?U1" "u_mpu ?U1 = Some m1" "unit_with m1 [x] []" "reads_message (u_svc ?U1)"
    using like m1 x(1) um(2) m(2) assms(4) by (simp_all add: unit_with_def)
  have ln: "length ?msg < 65535" "?msg \<noteq> []" "length d \<le> MAX_MPU_DATA" using assms(6) bs by (simp_all add: hdr_def)
  have "u_conf V = Some \<lparr>sync_mode = True\<rparr>" using like(1) by (simp add: alike_def)
  from deliver_in_sync [OF this ln(1,2), of sendto src rest']
  have sync: "umtp_deliver sendto src (bs @ rest') (int (length bs)) V =
      bindE (apdu_handler sendto src (Some (hdr flag type svc sid @ d @ rest')) (of_nat (length (hdr flag type svc sid) + length d)) V)
        (\<lambda>(ret, V'). Inr V')" by (simp add: bs)
  obtain r where r: "apdu_handler sendto src (Some (hdr flag type svc sid @ d @ rest')) (of_nat (length (hdr flag type svc sid) + length d)) V = Inr (r, V')"
    using assms(7) unfolding sync by (auto simp: res_simps)
  obtain U' where h: "apdu_handler sendto src (Some (hdr flag type svc sid @ d @ rest)) (of_nat (length (hdr flag type svc sid) + length d)) ?U1 = Inr (0, U')"
    "pending log [x] U' V'"
    by (rule handler_pending [OF u1(1-4) assms(2,3) u1(5) type ln(3) r])
  obtain m2 where m2: "u_mpu U' = Some m2" using h(2) by (auto simp: pending_def)
  have "priv_umtp_handle_msg sendto x (m1, ?U1) = Inr (0, m2, U')"
    using handle_msg_apdu [of x ?msg rest sendto m1 ?U1, OF _ _ ln(2,1)] px h(1) m2 by (simp add: bs)
  from pending_handled [OF u1(3,4) this m2 h(2) assms(2)] obtain U2 where "umtp_mpu_turn sendto 0 ?U1 = Inr U2" "twin U2 V'" .
  then show ?thesis by (rule that [OF del])
qed

text \<open>A turn with a datagram in which no time passes, and a turn without one.\<close>

lemma turn_datagram:
  assumes "u_dl W = Some dl" and "0 \<le> socket dl" and "dl_decrypt dl = None" and "vars_ok T" and "f \<noteq> []" and "length f \<le> MAX_MPU_DATA"
    and "(word_of_int (n - last_seconds T) :: u32) = 0"
  shows "a = dl_addr dl \<and> uint p = port dl \<or> hd f \<noteq> UMTP_SIGNATURE \<Longrightarrow> umtp_turn sendto (n, Datagram a p f) (T, W) = Inr (True, T, W)"
    and "\<not> (a = dl_addr dl \<and> uint p = port dl \<or> hd f \<noteq> UMTP_SIGNATURE) \<Longrightarrow> tl f \<noteq> [] \<Longrightarrow> umtp_turn sendto (n, Datagram a p f) (T, W) =
      bindE (umtp_deliver sendto (from_addr (task_src T) a p) (tl f @ drop (length f - 1) (task_buf T)) (int (length (tl f))) W)
       (\<lambda>W'. Inr (True, T\<lparr>task_src := from_addr (task_src T) a p, task_buf := tl f @ drop (length f - 1) (task_buf T)\<rparr>, W'))"
proof -
  have T: "addr_wf (task_src T)" "length (task_buf T) = MAX_PDU" using assms(4) by (simp_all add: vars_ok_def)
  have le: "length f \<le> MAX_PDU" "length f \<le> length (task_buf T) + 1" using assms(6) T(2) by simp_all
  note recv = dludp_recv_plain [OF assms(2,3) T(1) le assms(5), of 1000 a p "u_world W"]
  have l: "int (length f) - 1 = int (length (tl f))" using assms(5) by (cases f) simp_all
  have same: "W\<lparr>u_world := u_world W\<rparr> = W" "T\<lparr>task_src := task_src T, task_buf := task_buf T\<rparr> = T" by simp_all
  show "umtp_turn sendto (n, Datagram a p f) (T, W) = Inr (True, T, W)"
    if c: "a = dl_addr dl \<and> uint p = port dl \<or> hd f \<noteq> UMTP_SIGNATURE"
    unfolding umtp_turn_def prod.case assms(1) option.case recv if_P [OF c] bindE_Inr Let_def option.sel same assms(7) by simp
  show "umtp_turn sendto (n, Datagram a p f) (T, W) =
      bindE (umtp_deliver sendto (from_addr (task_src T) a p) (tl f @ drop (length f - 1) (task_buf T)) (int (length (tl f))) W)
       (\<lambda>W'. Inr (True, T\<lparr>task_src := from_addr (task_src T) a p, task_buf := tl f @ drop (length f - 1) (task_buf T)\<rparr>, W'))"
    if c: "\<not> (a = dl_addr dl \<and> uint p = port dl \<or> hd f \<noteq> UMTP_SIGNATURE)" and ne: "tl f \<noteq> []"
  proof -
    have pos: "0 < int (length (tl f))" "\<not> (int (length (tl f)) < 0 \<and> int (length (tl f)) \<noteq> - ETIMEDOUT)" using ne by (cases f; simp)+
    have t: "last_seconds (T\<lparr>task_src := s, task_buf := b\<rparr>) = last_seconds T" "task_src (T\<lparr>task_src := s, task_buf := b\<rparr>) = s"
      "task_buf (T\<lparr>task_src := s, task_buf := b\<rparr>) = b" for s b by simp_all
    show ?thesis
      unfolding umtp_turn_def prod.case assms(1) option.case recv if_not_P [OF c] bindE_Inr Let_def option.sel same l t assms(7)
        from_addr_def [symmetric] if_not_P [OF pos(2)] if_P [OF pos(1)] by simp
  qed
qed

lemma turn_silence:
  assumes "u_dl W = Some dl" and "0 \<le> socket dl"
  shows "umtp_turn sendto (n, Select_none) (T, W) =
    (if (word_of_int (n - last_seconds T) :: u32) = 0 then Inr (True, T, W)
     else bindE (umtp_elapse sendto (ucast (word_of_int (n - last_seconds T) * 1000 :: u32)) W)
       (\<lambda>W'. Inr (True, T\<lparr>last_seconds := n\<rparr>, W')))"
  using assms by (simp add: umtp_turn_def Let_def)

lemma elapse_twin:
  assumes "twin U V" and "umtp_elapse sendto ms V = Inr V'"
  obtains U' where "umtp_elapse sendto ms U = Inr U'" and "twin U' V'"
proof -
  have same: "u_dl V = u_dl U" "u_svc V = u_svc U" "u_sess V = u_sess U" "u_world V = u_world U"
    using assms(1) by (simp_all add: twin_def alike_def)
  have "resend_call sendto V = resend_call sendto U" "expire_call V = expire_call U"
    by (simp_all add: fun_eq_iff resend_call_def expire_call_def same)
  then obtain S w where "umtp_session_process (quiet_send (resend_call sendto U)) (quiet_tmo (expire_call U)) ms (u_sess U, u_world U)
      = Inr (S, w)" "V' = V\<lparr>u_sess := S, u_world := w\<rparr>"
    using assms(2) by (auto simp: umtp_elapse_def same res_simps)
  then show ?thesis
    using assms(1) by (intro that [of "U\<lparr>u_sess := S, u_world := w\<rparr>"]) (simp_all add: umtp_elapse_def twin_def)
qed

text \<open>The events in which both modes agree, for a run in which a datagram arrives in a turn in which no second passes.\<close>

fun mode_event :: "'w node_event \<Rightarrow> bool" where
  "mode_event (Ev_turn n Select_none) = True"
| "mode_event (Ev_turn n (Datagram a p f)) \<longleftrightarrow> f \<noteq> [] \<and> length f \<le> MAX_MPU_DATA \<and> (hd f = UMTP_SIGNATURE \<longrightarrow> well_formed (tl f))"
| "mode_event (Ev_turn n Recv_fail) = False"
| "mode_event (Ev_submit env dst data) = addr_wf dst"
| "mode_event (Ev_mpu ret) = False"
| "mode_event _ = True"

fun in_time :: "int \<Rightarrow> 'w node_event list \<Rightarrow> bool" where
  "in_time t (Ev_turn n e # es) \<longleftrightarrow> ((word_of_int (n - t) :: u32) = 0 \<and> in_time t es
     \<or> (word_of_int (n - t) :: u32) \<noteq> 0 \<and> e = Select_none \<and> in_time n es)"
| "in_time t (_ # es) = in_time t es"
| "in_time t [] = True"

lemma step_twin:
  assumes "twin U V" and "vars_ok T" and "takes_frames sendto log" and "mode_event e" and "in_time (last_seconds T) (e # es)"
    and "node_step sendto e (T, V) = Inr (T', V')"
  shows "(\<exists>U'. foldE (node_step sendto) [e, Ev_mpu 0] (T, U) = Inr (T', U') \<and> twin U' V') \<and> vars_ok T' \<and> in_time (last_seconds T') es"
proof -
  have T: "addr_wf (task_src T)" "length (task_buf T) = MAX_PDU" using assms(2) by (simp_all add: vars_ok_def)
  obtain m where U: "alike U V" "u_world V = u_world U" "u_mpu U = Some m" "unit_with m [] []" and reads: "reads_message (u_svc U)"
    using assms(1) by (auto simp: twin_def alike_def)
  obtain dl where dl: "u_dl U = Some dl" "u_dl V = Some dl" "0 \<le> socket dl" "dl_decrypt dl = None" using U(1) by (auto simp: alike_def)
  \<comment> \<open>A turn of the unit in which there is nothing to do.\<close>
  have idle: "\<exists>U'. umtp_mpu_turn sendto 0 U1 = Inr U' \<and> twin U' V1" if "twin U1 V1" for U1 V1
  proof -
    have "pending log [] U1 V1" using that by (auto simp: twin_def pending_def)
    from pending_sent [OF this assms(3)] show ?thesis by blast
  qed
  have rest: ?thesis if "node_step sendto e (T, U) = Inr (T', U1)" "twin U1 V'" "vars_ok T'" "in_time (last_seconds T') es" for U1
    using idle [OF that(2)] that by auto
  show ?thesis
  proof (cases e)
    case (Ev_submit env dst data)
    show ?thesis
    proof (cases data)
      case None
      then show ?thesis using assms Ev_submit by (intro rest [of U]) (auto simp: umtp_send_message_def umtp_apdu_submit_def)
    next
      case (Some ad)
      have "u_sess V = u_sess U" using U(1) by (simp add: alike_def)
      then obtain b k S r where msg: "submit_message env dst ad (u_sess U) = Inr (b, k, S)" "T' = T"
        and sub: "priv_umtp_apdu_submit sendto dst b k (V\<lparr>u_sess := S\<rparr>) = Inr (r, V')"
        using assms(6) by (auto simp: Ev_submit Some submit_factor res_simps)
      have k: "length b = MAX_APDU" "0 < k" "k \<le> int MAX_APDU"
        using submit_message_bounds [of env dst ad "u_sess U"] msg(1) by (auto simp: post_def)
      have like: "alike (U\<lparr>u_sess := S\<rparr>) (V\<lparr>u_sess := S\<rparr>)" "u_world (V\<lparr>u_sess := S\<rparr>) = u_world (U\<lparr>u_sess := S\<rparr>)"
        "u_mpu (U\<lparr>u_sess := S\<rparr>) = Some m" using U by simp_all
      have "addr_wf dst" using assms(4) by (simp add: Ev_submit)
      obtain U1 V1 where p: "priv_umtp_apdu_submit sendto dst b k (U\<lparr>u_sess := S\<rparr>) = Inr (0, U1)"
        "priv_umtp_apdu_submit sendto dst b k (V\<lparr>u_sess := S\<rparr>) = Inr (0, V1)" "pending log [] U1 V1"
        by (rule submit_pending [OF like U(4) assms(3) \<open>addr_wf dst\<close> k(2,3,1)])
      obtain U2 where "umtp_mpu_turn sendto 0 U1 = Inr U2" "twin U2 V1" by (rule pending_sent [OF p(3) assms(3)])
      then show ?thesis
        using assms(2,5) msg p(1,2) sub by (simp add: Ev_submit Some submit_factor)
    qed
  next
    case (Ev_turn n ev)
    let ?e = "word_of_int (n - last_seconds T) :: u32"
    show ?thesis
    proof (cases ev)
      case Select_none
      note silence = turn_silence [OF _ dl(3), where sendto = sendto and n = n and T = T]
      show ?thesis
      proof (cases "?e = 0")
        case True
        then have "node_step sendto e (T, W) = Inr (T, W)" if "u_dl W = Some dl" for W
          unfolding Ev_turn Select_none node_step.simps silence [OF that] if_P [OF True] by simp
        then show ?thesis using dl(1,2) assms True by (intro rest [of U]) (simp_all add: Ev_turn)
      next
        case False
        have step: "node_step sendto e (T, W) = bindE (umtp_elapse sendto (ucast (?e * 1000)) W) (\<lambda>W'. Inr (T\<lparr>last_seconds := n\<rparr>, W'))"
          if "u_dl W = Some dl" for W
          unfolding Ev_turn Select_none node_step.simps silence [OF that] if_not_P [OF False] bindE_assoc bindE_Inr prod.case by (rule refl)
        obtain V1 where V1: "umtp_elapse sendto (ucast (?e * 1000)) V = Inr V1" "T' = T\<lparr>last_seconds := n\<rparr>" "V' = V1"
          using assms(6) unfolding step [OF dl(2)] by (auto simp only: bindE_eq_Inr sum.inject prod.inject)
        obtain U1 where U1: "umtp_elapse sendto (ucast (?e * 1000)) U = Inr U1" "twin U1 V1" by (rule elapse_twin [OF assms(1) V1(1)])
        have "node_step sendto e (T, U) = Inr (T', U1)" unfolding step [OF dl(1)] U1(1) bindE_Inr V1(2) by (rule refl)
        moreover have "vars_ok T'" using assms(2) by (simp add: V1(2) vars_ok_def)
        moreover have "in_time (last_seconds T') es" using assms(5) False unfolding Ev_turn Select_none in_time.simps by (simp add: V1(2))
        ultimately show ?thesis using U1(2) V1(3) rest by blast
      qed
    next
      case Recv_fail
      then show ?thesis using assms(4) by (simp add: Ev_turn)
    next
      case (Datagram a p f)
      have f: "f \<noteq> []" "length f \<le> MAX_MPU_DATA" and wf: "hd f = UMTP_SIGNATURE \<Longrightarrow> well_formed (tl f)"
        using assms(4) by (simp_all add: Ev_turn Datagram)
      have time: "?e = 0" and later: "in_time (last_seconds T) es"
        using assms(5) unfolding Ev_turn Datagram in_time.simps by blast+
      note turn = turn_datagram [OF _ dl(3,4) assms(2) f time, where sendto = sendto and a = a and p = p]
      show ?thesis
      proof (cases "a = dl_addr dl \<and> uint p = port dl \<or> hd f \<noteq> UMTP_SIGNATURE")
        case True
        have "node_step sendto e (T, W) = Inr (T, W)" if "u_dl W = Some dl" for W
          unfolding Ev_turn Datagram node_step.simps turn(1) [OF that True] by simp
        then show ?thesis using dl(1,2) assms(1,2,6) later by (intro rest [of U]) simp_all
      next
        case False
        have good: "well_formed (tl f)" using wf False by blast
        then have ne: "tl f \<noteq> []" by auto
        let ?src = "from_addr (task_src T) a p" and ?rest = "drop (length f - 1) (task_buf T)"
        have step: "node_step sendto e (T, W) = bindE (umtp_deliver sendto ?src (tl f @ ?rest) (int (length (tl f))) W)
            (\<lambda>W'. Inr (T\<lparr>task_src := ?src, task_buf := tl f @ ?rest\<rparr>, W'))" if "u_dl W = Some dl" for W
          unfolding Ev_turn Datagram node_step.simps turn(2) [OF that False ne] bindE_assoc bindE_Inr prod.case by (rule refl)
        have V1: "umtp_deliver sendto ?src (tl f @ ?rest) (int (length (tl f))) V = Inr V'"
          and T': "T' = T\<lparr>task_src := ?src, task_buf := tl f @ ?rest\<rparr>"
          using assms(6) unfolding step [OF dl(2)] by (auto simp only: bindE_eq_Inr sum.inject prod.inject)
        have src: "addr_wf ?src" using from_addr_facts(1) T(1) by blast
        have "length (tl f) < MAX_MPU_DATA" using f by (cases f) simp_all
        from deliver_twin [OF assms(1,3) src reads good this V1] obtain U1 U2
          where d: "umtp_deliver sendto ?src (tl f @ ?rest) (int (length (tl f))) U = Inr U1" "umtp_mpu_turn sendto 0 U1 = Inr U2" "twin U2 V'" .
        have "foldE (node_step sendto) [e, Ev_mpu 0] (T, U) = Inr (T', U2)"
          unfolding foldE.simps step [OF dl(1)] d(1) bindE_Inr T' node_step.simps d(2) by (rule refl)
        moreover have "vars_ok T'" using src T(2) f by (cases f) (simp_all add: T' vars_ok_def)
        moreover have "in_time (last_seconds T') es" using later by (simp add: T')
        ultimately show ?thesis using d(3) by blast
      qed
    qed
  next
    case (Ev_mpu ret)
    then show ?thesis using assms(4) by simp
  next
    case (Ev_retry n)
    have "u_sess V = u_sess U" using U(1) by (simp add: alike_def)
    then have "twin (U\<lparr>u_sess := apdu_retry_set n (u_sess U)\<rparr>) V'" using assms(6) U by (auto simp: Ev_retry twin_def)
    then show ?thesis using assms by (intro rest) (auto simp: Ev_retry)
  next
    case (Ev_timeout n)
    have "u_sess V = u_sess U" using U(1) by (simp add: alike_def)
    then have "twin (U\<lparr>u_sess := apdu_timeout_set n (u_sess U)\<rparr>) V'" using assms(6) U by (auto simp: Ev_timeout twin_def)
    then show ?thesis using assms by (intro rest) (auto simp: Ev_timeout)
  next
    case (Ev_world f)
    then have "twin (U\<lparr>u_world := f (u_world U)\<rparr>) V'" using assms(6) U by (auto simp: Ev_world twin_def)
    then show ?thesis using assms by (intro rest) (auto simp: Ev_world)
  qed
qed

section \<open>Runs\<close>

lemma run_twin:
  assumes "twin U V" and "vars_ok T" and "takes_frames sendto log" and "\<forall>e \<in> set evs. mode_event e"
    and "in_time (last_seconds T) evs" and "foldE (node_step sendto) evs (T, V) = Inr (T', V')"
  shows "\<exists>U'. foldE (node_step sendto) (concat (map (\<lambda>e. [e, Ev_mpu 0]) evs)) (T, U) = Inr (T', U') \<and> twin U' V'"
  using assms
proof (induction evs arbitrary: T U V)
  case (Cons e evs)
  obtain T1 V1 where s: "node_step sendto e (T, V) = Inr (T1, V1)" "foldE (node_step sendto) evs (T1, V1) = Inr (T', V')"
    using Cons.prems(6) by (auto simp: res_simps)
  have "mode_event e" using Cons.prems(4) by simp
  from step_twin [OF Cons.prems(1-3) this Cons.prems(5) s(1)] obtain U1
    where u: "foldE (node_step sendto) [e, Ev_mpu 0] (T, U) = Inr (T1, U1)" "twin U1 V1" and t: "vars_ok T1" "in_time (last_seconds T1) evs"
    by blast
  have "\<forall>e \<in> set evs. mode_event e" using Cons.prems(4) by simp
  from Cons.IH [OF u(2) t(1) Cons.prems(3) this t(2) s(2)] obtain U'
    where "foldE (node_step sendto) (concat (map (\<lambda>e. [e, Ev_mpu 0]) evs)) (T1, U1) = Inr (T', U')" "twin U' V'" by blast
  then show ?case
    unfolding list.map concat.simps foldE_append u(1) bindE_Inr by blast
qed simp

lemma idle_twin: "idle U m dl \<Longrightarrow> reads_message (u_svc U) \<Longrightarrow> twin U (in_sync U)"
  by (simp add: idle_def umtp_ready_def twin_def alike_def unit_with_def in_sync_def)

text \<open>C5. The synchronous mode and the asynchronous one do the same. Take an idle instance and a run of it in
  synchronous mode that ends: submissions, quiet turns with any time passed, turns in which a well-formed or
  a foreign datagram arrives, changed settings. The same events in asynchronous mode, each followed by one turn
  of the message process unit's task, also end, with the same frames sent and the same calls of the services'
  handlers in the same order (the same world), the same sessions, services, answer buffer and variables of
  the task, and with empty queues. The services' handlers must not look behind the message, since the two buffers
  differ there, and no second passes in the turn in which a datagram arrives, since the sessions age before the
  queued datagram is handled.\<close>

theorem sync_same_as_async:
  assumes "idle U m dl" and "vars_ok T" and "takes_frames sendto log" and "reads_message (u_svc U)"
    and "\<forall>e \<in> set evs. mode_event e" and "in_time (last_seconds T) evs"
    and "foldE (node_step sendto) evs (T, in_sync U) = Inr (T', V)"
  shows "\<exists>U' m'. foldE (node_step sendto) (concat (map (\<lambda>e. [e, Ev_mpu 0]) evs)) (T, U) = Inr (T', U')
    \<and> u_world U' = u_world V \<and> u_sess U' = u_sess V \<and> u_svc U' = u_svc V \<and> apdu_trans_blk U' = apdu_trans_blk V
    \<and> u_mpu U' = Some m' \<and> q_pkts Recv_queue m' = [] \<and> q_pkts Send_queue m' = []"
proof -
  from run_twin [OF idle_twin [OF assms(1,4)] assms(2,3,5-7)] obtain U'
    where "foldE (node_step sendto) (concat (map (\<lambda>e. [e, Ev_mpu 0]) evs)) (T, U) = Inr (T', U')" "twin U' V" by blast
  then show ?thesis by (auto simp: twin_def alike_def unit_with_def)
qed

lemma ex_reads: "reads_message ex_registered"
proof -
  have "service_handler ex_registered src sd blk (Some (d @ rest)) (of_nat (length d)) w
      = service_handler ex_registered src sd blk (Some (d @ rest')) (of_nat (length d)) w"
    and "service_rsp_handler ex_registered src i session (Some (d @ rest)) (of_nat (length d)) w
      = service_rsp_handler ex_registered src i session (Some (d @ rest')) (of_nat (length d)) w"
    for src sd blk session i d rest rest' w
    by (cases d; simp add: service_handler_good service_rsp_handler_good ex_registered_facts ex_service_def)+
  then show ?thesis unfolding reads_message_def by blast
qed

lemma submit_in_sync:
  assumes "u_conf V = Some \<lparr>sync_mode = True\<rparr>" and "u_dl V = Some (ex_link a)" and "addr_wf dst"
    and "0 < len" and "len \<le> int MAX_APDU" and "nat len \<le> length bs"
  shows "priv_umtp_apdu_submit ex_net dst bs len V = Inr (0, V\<lparr>u_world := u_world V + 100\<rparr>)"
  using npdu_send_udp [OF _ _ assms(3,6,4,5), of "ex_link a" ex_net "u_world V"] assms(1,2,4)
  by (simp add: priv_umtp_apdu_submit_def ex_node_facts ex_net_def)

text \<open>A request with the data 7 arrives at the service 5 of a synchronous instance.\<close>

lemma request_in_sync:
  assumes "u_conf V = Some \<lparr>sync_mode = True\<rparr>" and "u_dl V = Some (ex_link a)" and "u_svc V = ex_registered"
    and "length (apdu_trans_blk V) = MAX_APDU" and "addr_wf src"
  shows "\<exists>b. umtp_deliver ex_net src ([1, 1, 0, 5, 9, 7] @ rest) 6 V = Inr (V\<lparr>apdu_trans_blk := b, u_world := u_world V + 101\<rparr>)"
proof -
  let ?sd = "\<lparr>sd_service_id = 5, sd_data_len = 1, sd_data = None\<rparr>"
  let ?apdu = "[1, 0, 5, 9, 7] @ rest"
  have one: "apdu_has_session_id 1" by (simp add: apdu_has_session_id_def)
  have h: "service_handler (u_svc V) src \<lparr>sd_service_id = uint (5 :: u8), sd_data_len = 0, sd_data = None\<rparr>
      (drop 4 (apdu_trans_blk V)) (Some (drop 4 ?apdu)) (word_of_int (uint (5 :: u16) - int 4)) (u_world V)
    = Inr (0, ?sd, (drop 4 (apdu_trans_blk V))[0 := 7], u_world V + 1)"
    by (simp add: assms(3) service_handler_good ex_registered_facts ex_service_def)
  obtain b n where eq: "apdu_request ex_net src 1 5 9 4 ?apdu 5 V =
      priv_umtp_apdu_submit ex_net src b (int n) (V\<lparr>apdu_trans_blk := b, u_world := u_world V + 1\<rparr>)"
    and b: "length b = MAX_APDU" "n \<le> MAX_APDU" "take n b = answer 1 5 9 0 (answer_data ?sd ((drop 4 (apdu_trans_blk V))[0 := 7]))"
    by (rule apdu_request_encodes [where flag = 1 and svc = 5 and sid = 9 and apdu = ?apdu and pdu_len = 5,
        unfolded if_P [OF one], OF assms(4) h]) (use assms(4) in \<open>simp_all add: answer_fits_def\<close>)
  have n: "0 < n" using b(3) by (cases n) (simp_all add: answer_def hdr_def)
  have "apdu_handler ex_net src (Some ?apdu) 5 V = Inr (0, V\<lparr>apdu_trans_blk := b, u_world := u_world V + 101\<rparr>)"
    using apdu_handler_hdr [of UMTP_PDU_REQUEST ex_net src 1 5 9 "7 # rest" 5 V] one b n
      submit_in_sync [of "V\<lparr>apdu_trans_blk := b, u_world := u_world V + 1\<rparr>" a src "int n" b] assms(1,2,5)
    by (simp add: eq [simplified] hdr_def)
  then have "umtp_deliver ex_net src ([1, 1, 0, 5, 9, 7] @ rest) 6 V = Inr (V\<lparr>apdu_trans_blk := b, u_world := u_world V + 101\<rparr>)"
    using npdu_handler_version [of 6 ex_net src ?apdu V] assms(1) by (simp add: umtp_deliver_def)
  then show ?thesis by blast
qed

text \<open>The counting network: 100 for the submission and the answer each, 1 for the request handler.\<close>

theorem sync_same_as_async_witness:
  "\<exists>T' U' V. foldE (node_step ex_net) [Ev_submit ex_quiet ex_addr (Some \<lparr>ad_service = 5, confirmed = False, ad_data = [7], ad_data_len = 1\<rparr>),
       Ev_turn 7 (Datagram 2 9 [0x68, 1, 1, 0, 5, 9, 7])] (ex_vars, in_sync (ex_node 1)) = Inr (T', V) \<and> u_world V = 201
    \<and> foldE (node_step ex_net) [Ev_submit ex_quiet ex_addr (Some \<lparr>ad_service = 5, confirmed = False, ad_data = [7], ad_data_len = 1\<rparr>),
       Ev_mpu 0, Ev_turn 7 (Datagram 2 9 [0x68, 1, 1, 0, 5, 9, 7]), Ev_mpu 0] (ex_vars, ex_node 1) = Inr (T', U') \<and> u_world U' = 201"
proof -
  let ?ad = "\<lparr>ad_service = 5, confirmed = False, ad_data = [7], ad_data_len = 1\<rparr>"
  let ?V = "in_sync (ex_node 1)" and ?V1 = "(in_sync (ex_node 1))\<lparr>u_world := 100\<rparr>"
  let ?f = "[0x68, 1, 1, 0, 5, 9, 7] :: u8 list"
  have V: "u_conf ?V = Some \<lparr>sync_mode = True\<rparr>" "u_dl ?V = Some (ex_link 1)" "u_svc ?V = ex_registered" "u_world ?V = 0"
    "length (apdu_trans_blk ?V) = MAX_APDU"
    by (simp_all add: in_sync_def ex_node_facts)
  have last: "last_seconds ex_vars = 7" "addr_wf (task_src ex_vars)" by (simp_all add: ex_vars_def ex_dl_facts(4))
  have sub: "umtp_send_message ex_net ex_quiet ex_addr (Some ?ad) ?V = Inr (0, ?V1)"
    using submit_unconfirmed [of ?ad ex_net ex_quiet ex_addr ?V] V ex_dl_facts(4)
    by (simp add: umtp_send_message_def Let_def submit_in_sync length_hdr flag_facts)
  have "umtp_turn ex_net (7, Datagram 2 9 ?f) (ex_vars, ?V1) =
      bindE (umtp_deliver ex_net (from_addr (task_src ex_vars) 2 9) ([1, 1, 0, 5, 9, 7] @ drop (length ?f - 1) (task_buf ex_vars)) 6 ?V1)
       (\<lambda>W'. Inr (True, ex_vars\<lparr>task_src := from_addr (task_src ex_vars) 2 9, task_buf := [1, 1, 0, 5, 9, 7] @ drop (length ?f - 1) (task_buf ex_vars)\<rparr>, W'))"
    using turn_datagram(2) [of ?V1 "ex_link 1" ex_vars ?f 7 2 9 ex_net] V by (simp add: ex_node_facts last)
  moreover obtain b where "umtp_deliver ex_net (from_addr (task_src ex_vars) 2 9) ([1, 1, 0, 5, 9, 7] @ drop (length ?f - 1) (task_buf ex_vars)) 6 ?V1
      = Inr (?V1\<lparr>apdu_trans_blk := b, u_world := 201\<rparr>)"
    using request_in_sync [of ?V1 1 "from_addr (task_src ex_vars) 2 9" "drop (length ?f - 1) (task_buf ex_vars)"] V from_addr_facts(1) [OF last(2)] by auto
  ultimately obtain T' V where run: "foldE (node_step ex_net) [Ev_submit ex_quiet ex_addr (Some ?ad), Ev_turn 7 (Datagram 2 9 ?f)] (ex_vars, ?V)
      = Inr (T', V)" "u_world V = 201"
    by (simp add: sub)
  have reads: "reads_message (u_svc (ex_node 1))" by (simp add: ex_node_facts ex_reads)
  have evs: "\<forall>e \<in> set [Ev_submit ex_quiet ex_addr (Some ?ad), Ev_turn 7 (Datagram 2 9 ?f)]. mode_event (e :: nat node_event)"
    by (simp add: ex_dl_facts(4))
  have time: "in_time (last_seconds ex_vars) [Ev_submit ex_quiet ex_addr (Some ?ad), Ev_turn 7 (Datagram 2 9 ?f) :: nat node_event]"
    by (simp add: last)
  from sync_same_as_async [OF ex_node_facts(1-3) reads evs time run(1)] run show ?thesis
    unfolding list.map concat.simps append.simps by metis
qed

end
