(* ===== verification/Crypt.thy ===== *)
theory Crypt
  imports Datalink
begin

text \<open>
  Encryption of frames: \<open>core/crypt.c\<close> and the two functions \<open>dludp_encrypt\<close> and \<open>dludp_decrypt\<close> of
  \<open>core/dl_udp.c\<close> that fit the \<open>encrypt\<close> and \<open>decrypt\<close> pointers of a data link.

  OpenSSL is a parameter: the record \<open>openssl\<close> holds one field per function that the code calls, on a
  context \<open>'c\<close> and the world \<open>'w\<close>. What the properties need of it is the predicate
  \<open>aes_gcm\<close>, which states its documented behaviour. \<open>umtp_encrypt\<close> and \<open>umtp_decrypt\<close>
  of \<open>core/crypt.c\<close> are disabled by \<open>#if 0\<close>. The calls that load and free OpenSSL's tables of names and
  error strings, and the printing of an error, are left out.
\<close>

section \<open>OpenSSL\<close>

abbreviation (input) KEY_SIZE :: nat where "KEY_SIZE \<equiv> 32"
abbreviation (input) IV_SIZE :: nat where "IV_SIZE \<equiv> 16"
abbreviation (input) TAG_SIZE :: nat where "TAG_SIZE \<equiv> 16"
abbreviation (input) ITERATIONS :: nat where "ITERATIONS \<equiv> 1000"

definition c_bytes :: "string \<Rightarrow> u8 list" where
  "c_bytes s = map (\<lambda>c. of_nat (of_char c)) s"

definition KEY_SALT :: "u8 list" where "KEY_SALT = c_bytes ''umtp_v0.1''"
definition PASSWDDEFAULT :: "u8 list" where "PASSWDDEFAULT = c_bytes ''Hello Umtp''"

text \<open>
  An update or final call returns its status, the bytes it stored at its output (their number is what it
  stores at \<open>*outl\<close>) and the context. An update gets the array behind its input pointer and the
  length; it may fault on a length that does not fit. \<open>pbkdf2\<close> and \<open>rand_bytes\<close> give \<open>None\<close> when they fail and
  store nothing. \<open>stack_bytes\<close> is what a local array that is never written happens to hold.
\<close>

record ('c, 'w) openssl =
  ctx_new :: "'w \<Rightarrow> 'c option \<times> 'w"
  ctx_free :: "'c \<Rightarrow> 'w \<Rightarrow> 'w"
  ctx_cleanup :: "'c option \<Rightarrow> 'w \<Rightarrow> 'w res"
  set_ivlen :: "nat \<Rightarrow> 'c \<Rightarrow> int \<times> 'c"
  encrypt_cipher :: "'c \<Rightarrow> int \<times> 'c"
  encrypt_key :: "u8 list \<Rightarrow> u8 list \<Rightarrow> 'c \<Rightarrow> int \<times> 'c"
  encrypt_update :: "u8 list \<Rightarrow> int \<Rightarrow> 'c \<Rightarrow> (int \<times> u8 list \<times> 'c) res"
  encrypt_final :: "'c \<Rightarrow> int \<times> u8 list \<times> 'c"
  get_tag :: "nat \<Rightarrow> 'c \<Rightarrow> int \<times> u8 list \<times> 'c"
  decrypt_cipher :: "'c \<Rightarrow> int \<times> 'c"
  decrypt_key :: "u8 list \<Rightarrow> u8 list \<Rightarrow> 'c \<Rightarrow> int \<times> 'c"
  decrypt_update :: "u8 list \<Rightarrow> int \<Rightarrow> 'c \<Rightarrow> (int \<times> u8 list \<times> 'c) res"
  set_tag :: "u8 list \<Rightarrow> 'c \<Rightarrow> int \<times> 'c"
  decrypt_final :: "'c \<Rightarrow> int \<times> u8 list \<times> 'c"
  pbkdf2 :: "u8 list \<Rightarrow> u8 list \<Rightarrow> nat \<Rightarrow> nat \<Rightarrow> u8 list option"
  rand_bytes :: "nat \<Rightarrow> 'w \<Rightarrow> u8 list option \<times> 'w"
  stack_bytes :: "u8 list"

section \<open>The functions of \<open>core/crypt.c\<close>\<close>

text \<open>The status of the derivation is not looked at: a failure leaves the key as it was.\<close>

definition gen_key :: "('c, 'w) openssl \<Rightarrow> u8 list \<Rightarrow> u8 list \<Rightarrow> u8 list" where
  "gen_key E passwd key =
     (case pbkdf2 E passwd KEY_SALT ITERATIONS KEY_SIZE of Some k \<Rightarrow> k | None \<Rightarrow> key)"

text \<open>
  The label \<open>err_out\<close> of both functions: the context is cleaned up, not freed, and the result is 0.
  The results: the return value, the bytes stored at \<open>out\<close>, the array \<open>tag\<close> (for \<open>encrypt\<close>), and the world.
\<close>

definition encrypt_err :: "('c, 'w) openssl \<Rightarrow> 'c option \<Rightarrow> u8 list \<Rightarrow> u8 list \<Rightarrow> 'w
    \<Rightarrow> (int \<times> u8 list \<times> u8 list \<times> 'w) res" where
  "encrypt_err E c out tag w = bindE (ctx_cleanup E c w) (\<lambda>w'. Inr (0, out, tag, w'))"

definition encrypt :: "('c, 'w) openssl \<Rightarrow> u8 list option \<Rightarrow> int \<Rightarrow> u8 list \<Rightarrow> u8 list \<Rightarrow> u8 list \<Rightarrow> 'w
    \<Rightarrow> (int \<times> u8 list \<times> u8 list \<times> 'w) res" where
  "encrypt E inp in_len key iv tag w =
     (case ctx_new E w of
        (None, w1) \<Rightarrow> encrypt_err E None [] tag w1
      | (Some c0, w1) \<Rightarrow>
          (let (r1, c1) = encrypt_cipher E c0 in
           if r1 \<noteq> 1 then encrypt_err E (Some c1) [] tag w1 else
           let (r2, c2) = set_ivlen E IV_SIZE c1 in
           if r2 \<noteq> 1 then encrypt_err E (Some c2) [] tag w1 else
           let (r3, c3) = encrypt_key E key iv c2 in
           if r3 \<noteq> 1 then encrypt_err E (Some c3) [] tag w1 else
           bindE (case inp of Some xs \<Rightarrow> encrypt_update E xs in_len c3 | None \<Rightarrow> Inr (1, [], c3))
             (\<lambda>(r4, ys, c4).
           if r4 \<noteq> 1 then encrypt_err E (Some c4) ys tag w1 else
           let (r5, zs, c5) = encrypt_final E c4 in
           if r5 \<noteq> 1 then encrypt_err E (Some c5) (ys @ zs) tag w1 else
           let (r6, t, c6) = get_tag E TAG_SIZE c5 in
           if r6 \<noteq> 1 then encrypt_err E (Some c6) (ys @ zs) tag w1
           else bindE (arr_write tag 0 t) (\<lambda>tag'.
             Inr (int (length ys) + int (length zs), ys @ zs, tag', ctx_free E c6 w1)))))"

definition decrypt_err :: "('c, 'w) openssl \<Rightarrow> 'c option \<Rightarrow> u8 list \<Rightarrow> 'w \<Rightarrow> (int \<times> u8 list \<times> 'w) res" where
  "decrypt_err E c out w = bindE (ctx_cleanup E c w) (\<lambda>w'. Inr (0, out, w'))"

definition decrypt :: "('c, 'w) openssl \<Rightarrow> u8 list option \<Rightarrow> int \<Rightarrow> u8 list \<Rightarrow> u8 list \<Rightarrow> u8 list \<Rightarrow> 'w
    \<Rightarrow> (int \<times> u8 list \<times> 'w) res" where
  "decrypt E inp in_len tag key iv w =
     (case ctx_new E w of
        (None, w1) \<Rightarrow> decrypt_err E None [] w1
      | (Some c0, w1) \<Rightarrow>
          (let (r1, c1) = decrypt_cipher E c0 in
           if r1 = 0 then decrypt_err E (Some c1) [] w1 else
           let (r2, c2) = set_ivlen E IV_SIZE c1 in
           if r2 = 0 then decrypt_err E (Some c2) [] w1 else
           let (r3, c3) = decrypt_key E key iv c2 in
           if r3 = 0 then decrypt_err E (Some c3) [] w1 else
           bindE (case inp of Some xs \<Rightarrow> decrypt_update E xs in_len c3 | None \<Rightarrow> Inr (1, [], c3))
             (\<lambda>(r4, ys, c4).
           if r4 = 0 then decrypt_err E (Some c4) ys w1 else
           let (r5, c5) = set_tag E tag c4 in
           if r5 = 0 then decrypt_err E (Some c5) ys w1 else
           case decrypt_final E c5 of (ret, zs, c6) \<Rightarrow>
             Inr (if ret > 0 then int (length ys) + int (length zs) else - 1, ys @ zs, ctx_free E c6 w1))))"

section \<open>Encrypted frames\<close>

text \<open>
  The static variables of \<open>dludp_encrypt\<close> and of \<open>dludp_decrypt\<close> (each has its own \<open>key\<close> and \<open>iv\<close>),
  beside the rest of the world.
\<close>

record 'w crypt_state =
  enc_key :: "u8 list"
  enc_iv :: "u8 list"
  dec_key :: "u8 list"
  dec_iv :: "u8 list"
  sys :: 'w

text \<open>A key whose first byte is 0 counts as not derived yet.\<close>

definition current_key :: "('c, 'w) openssl \<Rightarrow> u8 list \<Rightarrow> u8 list" where
  "current_key E key = (if key ! 0 = 0 then gen_key E PASSWDDEFAULT key else key)"

text \<open>
  The result: the return value and what the output holds from its start. On a negative result of
  \<open>encrypt\<close> the place of the tag keeps the zeros of the caller's buffer.
\<close>

definition dludp_encrypt :: "('c, 'w) openssl \<Rightarrow> 'w crypt_state crypt_fun" where
  "dludp_encrypt E input input_len s =
     (let key = current_key E (enc_key s);
          (rnd, w1) = rand_bytes E IV_SIZE (sys s);
          iv = (case rnd of Some b \<Rightarrow> b | None \<Rightarrow> enc_iv s)
      in bindE (encrypt E (Some input) input_len key iv (stack_bytes E) w1) (\<lambda>(len, out, tag, w2).
         let s' = s\<lparr>enc_key := key, enc_iv := iv, sys := w2\<rparr> in
         if len < 0 then Inr (len, iv @ replicate TAG_SIZE 0 @ out, s')
         else Inr (if len > 0 then len + int IV_SIZE + int TAG_SIZE else len, iv @ tag @ out, s')))"

definition dludp_decrypt :: "('c, 'w) openssl \<Rightarrow> 'w crypt_state crypt_fun" where
  "dludp_decrypt E input input_len s =
     (let key = current_key E (dec_key s) in
      bindE (arr_read input 0 (int IV_SIZE)) (\<lambda>iv.
      bindE (arr_read input IV_SIZE (int TAG_SIZE)) (\<lambda>tag.
      bindE (decrypt E (Some (drop (IV_SIZE + TAG_SIZE) input)) (input_len - int IV_SIZE - int TAG_SIZE)
               tag key iv (sys s)) (\<lambda>(len, out, w').
      Inr (len, out, s\<lparr>dec_key := key, dec_iv := iv, sys := w'\<rparr>)))))"

section \<open>What AES-GCM promises\<close>

text \<open>How far a context has come; \<open>True\<close> is encryption.\<close>

datatype gcm_view =
    Fresh
  | Cipher bool
  | Iv_set bool
  | Keyed bool "u8 list" "u8 list"
  | Text bool "u8 list" "u8 list" "u8 list"                 \<comment> \<open>key, iv, the ciphertext so far\<close>
  | Expecting "u8 list" "u8 list" "u8 list" "u8 list"       \<comment> \<open>key, iv, ciphertext, expected tag\<close>
  | Sealed "u8 list" "u8 list" "u8 list"                    \<comment> \<open>key, iv, ciphertext\<close>

text \<open>
  The documented behaviour of the calls in the order in which the code makes them: \<open>v\<close> reads off a
  context how far it has come, \<open>enc\<close> and \<open>dec\<close> are the counter-mode cipher with a key and an initial
  vector of 16 bytes, \<open>mac\<close> the tag of 16 bytes over a ciphertext. Decryption succeeds exactly when the
  tag that was set is the tag of the ciphertext.
\<close>

definition aes_gcm_cipher :: "(u8 list \<Rightarrow> u8 list \<Rightarrow> u8 list \<Rightarrow> u8 list) \<Rightarrow>
    (u8 list \<Rightarrow> u8 list \<Rightarrow> u8 list \<Rightarrow> u8 list) \<Rightarrow> (u8 list \<Rightarrow> u8 list \<Rightarrow> u8 list \<Rightarrow> u8 list) \<Rightarrow> bool" where
  "aes_gcm_cipher enc dec mac \<longleftrightarrow> (\<forall>k iv xs. length (enc k iv xs) = length xs
     \<and> length (dec k iv xs) = length xs \<and> dec k iv (enc k iv xs) = xs \<and> length (mac k iv xs) = TAG_SIZE)"

definition aes_gcm :: "('c, 'w) openssl \<Rightarrow> ('c \<Rightarrow> gcm_view) \<Rightarrow> (u8 list \<Rightarrow> u8 list \<Rightarrow> u8 list \<Rightarrow> u8 list) \<Rightarrow>
    (u8 list \<Rightarrow> u8 list \<Rightarrow> u8 list \<Rightarrow> u8 list) \<Rightarrow> (u8 list \<Rightarrow> u8 list \<Rightarrow> u8 list \<Rightarrow> u8 list) \<Rightarrow> bool" where
  "aes_gcm E v enc dec mac \<longleftrightarrow> aes_gcm_cipher enc dec mac
   \<and> (\<forall>w. \<exists>c w'. ctx_new E w = (Some c, w') \<and> v c = Fresh)
   \<and> (\<forall>c. v c = Fresh \<longrightarrow> (\<exists>c'. encrypt_cipher E c = (1, c') \<and> v c' = Cipher True))
   \<and> (\<forall>c. v c = Fresh \<longrightarrow> (\<exists>c'. decrypt_cipher E c = (1, c') \<and> v c' = Cipher False))
   \<and> (\<forall>c d. v c = Cipher d \<longrightarrow> (\<exists>c'. set_ivlen E IV_SIZE c = (1, c') \<and> v c' = Iv_set d))
   \<and> (\<forall>c k iv. v c = Iv_set True \<longrightarrow> (\<exists>c'. encrypt_key E k iv c = (1, c') \<and> v c' = Keyed True k iv))
   \<and> (\<forall>c k iv. v c = Iv_set False \<longrightarrow> (\<exists>c'. decrypt_key E k iv c = (1, c') \<and> v c' = Keyed False k iv))
   \<and> (\<forall>c k iv xs n. v c = Keyed True k iv \<and> 0 \<le> n \<and> nat n \<le> length xs \<longrightarrow>
        (\<exists>c'. encrypt_update E xs n c = Inr (1, enc k iv (take (nat n) xs), c')
           \<and> v c' = Text True k iv (enc k iv (take (nat n) xs))))
   \<and> (\<forall>c k iv ys. v c = Text True k iv ys \<longrightarrow> (\<exists>c'. encrypt_final E c = (1, [], c') \<and> v c' = Sealed k iv ys))
   \<and> (\<forall>c k iv ys. v c = Sealed k iv ys \<longrightarrow> (\<exists>c'. get_tag E TAG_SIZE c = (1, mac k iv ys, c')))
   \<and> (\<forall>c k iv xs n. v c = Keyed False k iv \<and> 0 \<le> n \<and> nat n \<le> length xs \<longrightarrow>
        (\<exists>c'. decrypt_update E xs n c = Inr (1, dec k iv (take (nat n) xs), c')
           \<and> v c' = Text False k iv (take (nat n) xs)))
   \<and> (\<forall>c k iv ys t. v c = Text False k iv ys \<longrightarrow> (\<exists>c'. set_tag E t c = (1, c') \<and> v c' = Expecting k iv ys t))
   \<and> (\<forall>c k iv ys t. v c = Expecting k iv ys t \<longrightarrow>
        (\<exists>c'. decrypt_final E c = (if t = mac k iv ys then 1 else 0, [], c')))"

lemma cipher_facts:
  assumes "aes_gcm E v enc dec mac"
  shows "length (enc k iv xs) = length xs" "length (dec k iv xs) = length xs"
    "dec k iv (enc k iv xs) = xs" "length (mac k iv xs) = TAG_SIZE"
  using assms by (simp_all add: aes_gcm_def aes_gcm_cipher_def)

lemma gcm_updates:
  assumes "aes_gcm E v enc dec mac"
  shows "v c = Keyed True k iv \<Longrightarrow> n \<le> length xs \<Longrightarrow> \<exists>c'. encrypt_update E xs (int n) c
      = Inr (1, enc k iv (take n xs), c') \<and> v c' = Text True k iv (enc k iv (take n xs))"
    and "v c = Keyed False k iv \<Longrightarrow> n \<le> length xs \<Longrightarrow> \<exists>c'. decrypt_update E xs (int n) c
      = Inr (1, dec k iv (take n xs), c') \<and> v c' = Text False k iv (take n xs)"
  using assms unfolding aes_gcm_def by (metis nat_int of_nat_0_le_iff)+

lemma encrypt_seals:
  assumes "aes_gcm E v enc dec mac" and "length tag = TAG_SIZE"
  shows "\<exists>w'. encrypt E (Some xs) (int (length xs)) k iv tag w
      = Inr (int (length xs), enc k iv xs, mac k iv (enc k iv xs), w')"
proof -
  note gcm = assms(1) [unfolded aes_gcm_def]
  obtain c0 w1 where c0: "ctx_new E w = (Some c0, w1)" "v c0 = Fresh" using gcm by metis
  obtain c1 where c1: "encrypt_cipher E c0 = (1, c1)" "v c1 = Cipher True" using gcm c0(2) by metis
  obtain c2 where c2: "set_ivlen E IV_SIZE c1 = (1, c2)" "v c2 = Iv_set True" using gcm c1(2) by metis
  obtain c3 where c3: "encrypt_key E k iv c2 = (1, c3)" "v c3 = Keyed True k iv" using gcm c2(2) by metis
  obtain c4 where c4: "encrypt_update E xs (int (length xs)) c3 = Inr (1, enc k iv xs, c4)"
      "v c4 = Text True k iv (enc k iv xs)" using gcm_updates(1) [OF assms(1) c3(2), of "length xs" xs] by auto
  obtain c5 where c5: "encrypt_final E c4 = (1, [], c5)" "v c5 = Sealed k iv (enc k iv xs)" using gcm c4(2) by metis
  obtain c6 where c6: "get_tag E TAG_SIZE c5 = (1, mac k iv (enc k iv xs), c6)" using gcm c5(2) by metis
  show ?thesis
    using assms(2) by (simp add: encrypt_def c0 c1 c2 c3 c4 c5 c6 arr_write_def cipher_facts [OF assms(1)])
qed

lemma decrypt_opens:
  assumes "aes_gcm E v enc dec mac" and "n \<le> length ys"
  shows "\<exists>w'. decrypt E (Some ys) (int n) t k iv w
      = Inr (if t = mac k iv (take n ys) then int n else - 1, dec k iv (take n ys), w')"
proof -
  note gcm = assms(1) [unfolded aes_gcm_def]
  let ?ct = "take n ys"
  obtain c0 w1 where c0: "ctx_new E w = (Some c0, w1)" "v c0 = Fresh" using gcm by metis
  obtain c1 where c1: "decrypt_cipher E c0 = (1, c1)" "v c1 = Cipher False" using gcm c0(2) by metis
  obtain c2 where c2: "set_ivlen E IV_SIZE c1 = (1, c2)" "v c2 = Iv_set False" using gcm c1(2) by metis
  obtain c3 where c3: "decrypt_key E k iv c2 = (1, c3)" "v c3 = Keyed False k iv" using gcm c2(2) by metis
  obtain c4 where c4: "decrypt_update E ys (int n) c3 = Inr (1, dec k iv ?ct, c4)"
      "v c4 = Text False k iv ?ct" using gcm_updates(2) [OF assms(1) c3(2) assms(2)] by blast
  obtain c5 where c5: "set_tag E t c4 = (1, c5)" "v c5 = Expecting k iv ?ct t" using gcm c4(2) by metis
  obtain c6 where c6: "decrypt_final E c5 = (if t = mac k iv ?ct then 1 else 0, [], c6)"
    using gcm c5(2) by metis
  show ?thesis
    using assms(2) by (simp add: decrypt_def c0 c1 c2 c3 c4 c5 c6 cipher_facts [OF assms(1)])
qed

section \<open>Frames\<close>

lemma dludp_encrypt_seals:
  assumes "aes_gcm E v enc dec mac" and "length (stack_bytes E) = TAG_SIZE"
    and "k = current_key E (enc_key s)"
    and "iv = (case fst (rand_bytes E IV_SIZE (sys s)) of Some b \<Rightarrow> b | None \<Rightarrow> enc_iv s)"
  shows "\<exists>s'. dludp_encrypt E xs (int (length xs)) s
      = Inr (if xs = [] then 0 else int (length xs) + 32, iv @ mac k iv (enc k iv xs) @ enc k iv xs, s')"
proof -
  obtain rnd w1 where r: "rand_bytes E IV_SIZE (sys s) = (rnd, w1)" by (cases "rand_bytes E IV_SIZE (sys s)")
  obtain w' where "encrypt E (Some xs) (int (length xs)) k iv (stack_bytes E) w1
      = Inr (int (length xs), enc k iv xs, mac k iv (enc k iv xs), w')"
    using encrypt_seals [OF assms(1,2)] by blast
  then show ?thesis
    using assms(4) r by (auto simp: dludp_encrypt_def assms(3) Let_def)
qed

lemma dludp_decrypt_opens:
  assumes "aes_gcm E v enc dec mac" and "length iv = IV_SIZE" and "length t = TAG_SIZE" and "n \<le> length rest"
    and "k = current_key E (dec_key s)"
  shows "\<exists>s'. dludp_decrypt E (iv @ t @ rest) (int n + 32) s
      = Inr (if t = mac k iv (take n rest) then int n else - 1, dec k iv (take n rest), s')"
proof -
  obtain w' where "decrypt E (Some rest) (int n) t k iv (sys s)
      = Inr (if t = mac k iv (take n rest) then int n else - 1, dec k iv (take n rest), w')"
    using decrypt_opens [OF assms(1,4)] by blast
  then show ?thesis
    using assms(2,3) by (simp add: dludp_decrypt_def arr_read_def assms(5) Let_def)
qed

text \<open>Sending and receiving with any pair of functions in the pointers.\<close>

lemma dludp_send_with:
  assumes "0 \<le> socket dl" and "addr_wf dst" and "dl_encrypt dl = Some f"
    and "f pdu n w = Inr (int (length out), out, w')" and "out \<noteq> []" and "length out < MAX_PDU"
  shows "dludp_send_data sendto dl dst pdu n w =
    (case sendto (socket dl) (UMTP_SIGNATURE # out) (fst (dest_of dl dst)) (snd (dest_of dl dst)) w' of
       (m, e, w'') \<Rightarrow> Inr (if m \<noteq> int (length out) + 1 then - e else 0, w''))"
proof -
  obtain buf where buf: "arr_write (replicate MAX_PDU 0) (Suc 0) out = Inr buf"
    and frame: "arr_read (buf[0 := UMTP_SIGNATURE]) 0 (int (length out) + 1) = Inr (UMTP_SIGNATURE # out)"
    using assms(6) by (simp add: arr_write_def arr_read_def nat_add_distrib)
  have dest: "(if addr_len dst = 0 then Inr (broadcast_addr dl, word_of_int (port dl))
      else bindE (dlumtp_decode_address (Some dst)) (\<lambda>(_, r). case r of None \<Rightarrow> Inl Uninit | Some ap \<Rightarrow> Inr ap))
      = Inr (dest_of dl dst)"
    using assms(2) by (simp add: dest_of_def arr_read_def addr_wf_def)
  show ?thesis
    using assms(1,3-5) unfolding dludp_send_data_def dest bindE_Inr
    by (simp add: buf frame split: prod.split)
qed

definition from_host :: "umtp_addr \<Rightarrow> u32 \<Rightarrow> u16 \<Rightarrow> umtp_addr" where
  "from_host src a p = src\<lparr>addr_len := 6, addr := u32_bytes a @ u16_bytes p @ drop 6 (addr src)\<rparr>"

lemma dludp_recv_with:
  assumes "0 \<le> socket dl" and "addr_wf src" and "dl_decrypt dl = Some g" and "length bs < MAX_PDU"
    and "a \<noteq> dl_addr dl \<or> uint p \<noteq> port dl"
  shows "dludp_recv_data (Some dl) (Some src) (Some lpdu) (int MAX_PDU) timeout (Datagram a p (UMTP_SIGNATURE # bs)) w =
    bindE (g (bs @ replicate (MAX_PDU - 1 - length bs) 0) (int (length bs)) w) (\<lambda>(n, out, w').
    bindE (arr_write lpdu 0 out) (\<lambda>lpdu'.
      Inr (if n \<le> 0 then 0 else n,
        Some (src\<lparr>addr_len := 6, addr := u32_bytes a @ u16_bytes p @ drop 6 (addr src)\<rparr>), Some lpdu', w')))"
proof -
  have "min (length bs) 2048 = length bs" using assms(4) by (auto simp: min_def)
  moreover have "take 2048 bs = bs" using assms(4) by simp
  ultimately show ?thesis
    using assms by (auto simp: arr_write_def put_addr_ok Let_def)
qed

section \<open>A library that keeps the promises\<close>

text \<open>A context is its view; the cipher adds the key's first byte, the tag ends with the sum of the ciphertext.\<close>

definition ex_enc :: "u8 list \<Rightarrow> u8 list \<Rightarrow> u8 list \<Rightarrow> u8 list" where
  "ex_enc k iv xs = map (\<lambda>x. x + k ! 0) xs"

definition ex_dec :: "u8 list \<Rightarrow> u8 list \<Rightarrow> u8 list \<Rightarrow> u8 list" where
  "ex_dec k iv xs = map (\<lambda>x. x - k ! 0) xs"

definition ex_mac :: "u8 list \<Rightarrow> u8 list \<Rightarrow> u8 list \<Rightarrow> u8 list" where
  "ex_mac k iv xs = replicate 15 (iv ! 0) @ [sum_list xs]"

definition ex_ssl :: "(gcm_view, unit) openssl" where
  "ex_ssl = \<lparr>ctx_new = (\<lambda>w. (Some Fresh, w)), ctx_free = (\<lambda>c w. w), ctx_cleanup = (\<lambda>c w. Inr w),
     set_ivlen = (\<lambda>n c. case c of Cipher d \<Rightarrow> (1, Iv_set d) | _ \<Rightarrow> (0, c)),
     encrypt_cipher = (\<lambda>c. (1, Cipher True)),
     encrypt_key = (\<lambda>k iv c. (1, Keyed True k iv)),
     encrypt_update = (\<lambda>xs n c. case c of
         Keyed d k iv \<Rightarrow> (let ys = ex_enc k iv (take (nat n) xs) in Inr (1, ys, Text True k iv ys)) | _ \<Rightarrow> Inr (0, [], c)),
     encrypt_final = (\<lambda>c. case c of Text d k iv ys \<Rightarrow> (1, [], Sealed k iv ys) | _ \<Rightarrow> (0, [], c)),
     get_tag = (\<lambda>n c. case c of Sealed k iv ys \<Rightarrow> (1, ex_mac k iv ys, c) | _ \<Rightarrow> (0, [], c)),
     decrypt_cipher = (\<lambda>c. (1, Cipher False)),
     decrypt_key = (\<lambda>k iv c. (1, Keyed False k iv)),
     decrypt_update = (\<lambda>xs n c. if n < 0 then Inl Out_of_bounds else case c of
         Keyed d k iv \<Rightarrow> Inr (1, ex_dec k iv (take (nat n) xs), Text False k iv (take (nat n) xs)) | _ \<Rightarrow> Inr (0, [], c)),
     set_tag = (\<lambda>t c. case c of Text d k iv ys \<Rightarrow> (1, Expecting k iv ys t) | _ \<Rightarrow> (0, c)),
     decrypt_final = (\<lambda>c. case c of
         Expecting k iv ys t \<Rightarrow> (if t = ex_mac k iv ys then 1 else 0, [], c) | _ \<Rightarrow> (0, [], c)),
     pbkdf2 = (\<lambda>pw salt n len. Some (replicate len (pw ! 0))),
     rand_bytes = (\<lambda>n w. (Some (replicate n 9), w)), stack_bytes = replicate 16 0\<rparr>"

definition ex_statics :: "unit crypt_state" where
  "ex_statics = \<lparr>enc_key = replicate 32 0, enc_iv = replicate 16 0, dec_key = replicate 32 0,
     dec_iv = replicate 16 0, sys = ()\<rparr>"

definition ex_secure :: "unit crypt_state umtp_dl" where
  "ex_secure = \<lparr>dl_type = 0, intf = None, socket = 3, port = 11784, ip = None, dl_addr = 0x0100000A,
     broadcast_addr = 0xFFFFFFFF, dl_encrypt = Some (dludp_encrypt ex_ssl), dl_decrypt = Some (dludp_decrypt ex_ssl)\<rparr>"

lemma ex_ssl_gcm: "aes_gcm ex_ssl id ex_enc ex_dec ex_mac"
  unfolding aes_gcm_def aes_gcm_cipher_def
  by (simp add: ex_ssl_def ex_enc_def ex_dec_def ex_mac_def Let_def o_def)

lemma ex_ssl_facts:
  "length (stack_bytes ex_ssl) = 16" "rand_bytes ex_ssl 16 w = (Some (replicate 16 9), w)"
  "current_key ex_ssl (replicate 32 0) = replicate 32 0x48"
  "decrypt_update ex_ssl xs n c = Inl Out_of_bounds \<longleftrightarrow> n < 0"
  by (simp_all add: ex_ssl_def current_key_def gen_key_def PASSWDDEFAULT_def c_bytes_def Let_def
      split: gcm_view.split)

section \<open>Properties\<close>

text \<open>C12. Encrypted frames round trip. With the two functions in the pointers of two data links whose keys
  agree, a payload of 1 to 2016 bytes is sent as one frame, the signature byte, the initial vector,
  the tag and the ciphertext, 33 bytes longer than the payload; and a receiver on another host gets
  from that frame the payload, its length and the sender's address. The keys agree when both ends derive them, and
  also when the derivation fails on both, with the key of zeros; and the vector is the one of the frame before when no random
  bytes could be had.\<close>

theorem crypt_frame_roundtrip:
  assumes "aes_gcm E v enc dec mac" and "length (stack_bytes E) = TAG_SIZE"
    and "current_key E (enc_key s) = k" and "current_key E (dec_key s2) = k"
    and "(case fst (rand_bytes E IV_SIZE (sys s)) of Some b \<Rightarrow> b | None \<Rightarrow> enc_iv s) = iv" and "length iv = IV_SIZE"
    and "0 \<le> socket dl" and "dl_encrypt dl = Some (dludp_encrypt E)" and "addr_wf dst"
    and "0 \<le> socket peer" and "dl_decrypt peer = Some (dludp_decrypt E)" and "addr_wf src"
    and "a \<noteq> dl_addr peer \<or> uint p \<noteq> port peer"
    and "0 < length pdu" and "length pdu \<le> 2016" and "length pdu \<le> length lpdu"
    and "frame = UMTP_SIGNATURE # iv @ mac k iv (enc k iv pdu) @ enc k iv pdu"
  shows "(\<exists>s'. dludp_send_data sendto dl dst pdu (int (length pdu)) s =
        (case sendto (socket dl) frame (fst (dest_of dl dst)) (snd (dest_of dl dst)) s' of
           (n, e, s'') \<Rightarrow> Inr (if n \<noteq> int (length pdu) + 33 then - e else 0, s'')))
    \<and> (\<exists>s2'. dludp_recv_data (Some peer) (Some src) (Some lpdu) (int MAX_PDU) timeout (Datagram a p frame) s2
        = Inr (int (length pdu),
            Some (src\<lparr>addr_len := 6, addr := u32_bytes a @ u16_bytes p @ drop 6 (addr src)\<rparr>),
            Some (pdu @ drop (length pdu) lpdu), s2'))"
proof -
  note facts = cipher_facts [OF assms(1)]
  define out where "out = iv @ mac k iv (enc k iv pdu) @ enc k iv pdu"
  have out: "length out = length pdu + 32" "frame = UMTP_SIGNATURE # out" "out \<noteq> []"
    using assms(6,14,17) by (auto simp: out_def facts)
  obtain s' where s': "dludp_encrypt E pdu (int (length pdu)) s = Inr (int (length out), out, s')"
    using dludp_encrypt_seals [OF assms(1,2) assms(3,5) [symmetric], of pdu] assms(14) out(1)
    by (auto simp: out_def)
  obtain z where z: "out @ z = iv @ mac k iv (enc k iv pdu) @ enc k iv pdu @ z"
     "z = replicate (MAX_PDU - 1 - length out) 0" by (simp add: out_def)
  obtain s2' where s2': "dludp_decrypt E (out @ z) (int (length out)) s2 = Inr (int (length pdu), pdu, s2')"
    using dludp_decrypt_opens [OF assms(1,6) facts(4) [of k iv "enc k iv pdu"] _ assms(4) [symmetric],
        of "length pdu" "enc k iv pdu @ z"]
    by (auto simp: facts z(1) out(1))
  have "dludp_send_data sendto dl dst pdu (int (length pdu)) s =
      (case sendto (socket dl) frame (fst (dest_of dl dst)) (snd (dest_of dl dst)) s' of
         (n, e, s'') \<Rightarrow> Inr (if n \<noteq> int (length pdu) + 33 then - e else 0, s''))"
    using dludp_send_with [OF assms(7,9,8) s' out(3)] assms(15) out(1,2) by (simp add: add.assoc)
  moreover have "dludp_recv_data (Some peer) (Some src) (Some lpdu) (int MAX_PDU) timeout (Datagram a p frame) s2
      = Inr (int (length pdu), Some (src\<lparr>addr_len := 6, addr := u32_bytes a @ u16_bytes p @ drop 6 (addr src)\<rparr>),
          Some (pdu @ drop (length pdu) lpdu), s2')"
    using dludp_recv_with [OF assms(10,12,11) _ assms(13), of out lpdu timeout s2] assms(14-16) out(1) s2'
    unfolding out(2) z(2) by (simp add: arr_write_def del: dludp_recv_data.simps)
  ultimately show ?thesis by blast
qed

theorem crypt_frame_roundtrip_witness:
  "\<exists>frame. (\<exists>s'. dludp_send_data (\<lambda>k f a p w. (int (length f), 0, w)) ex_secure ex_addr [1, 2, 3] 3 ex_statics = Inr (0, s'))
    \<and> length frame = 36 \<and> (\<exists>src' s'. dludp_recv_data (Some ex_secure) (Some ex_addr) (Some [0, 0, 0, 0]) (int MAX_PDU) 1000
         (Datagram 0x0200000A 0x2E08 frame) ex_statics = Inr (3, src', Some [1, 2, 3, 0], s'))"
proof -
  have f: "0 \<le> socket ex_secure" "dl_encrypt ex_secure = Some (dludp_encrypt ex_ssl)"
    "dl_decrypt ex_secure = Some (dludp_decrypt ex_ssl)" "(0x0200000A :: u32) \<noteq> dl_addr ex_secure"
    "enc_key ex_statics = replicate 32 0" "dec_key ex_statics = replicate 32 0" "sys ex_statics = ()"
    by (simp_all add: ex_secure_def ex_statics_def)
  define fr where "fr = UMTP_SIGNATURE # replicate 16 9 @ ex_mac (replicate 32 0x48) (replicate 16 9)
      (ex_enc (replicate 32 0x48) (replicate 16 9) [1, 2, 3]) @ ex_enc (replicate 32 0x48) (replicate 16 9) [1, 2, 3]"
  note rt = crypt_frame_roundtrip [where E = ex_ssl and s = ex_statics and ?s2.0 = ex_statics and dl = ex_secure
      and peer = ex_secure and dst = ex_addr and src = ex_addr and pdu = "[1, 2, 3]" and lpdu = "[0, 0, 0, 0]"
      and frame = fr and sendto = "\<lambda>k f a p w. (int (length f), 0, w)" and a = "0x0200000A" and p = "0x2E08"
      and timeout = 1000 and iv = "replicate 16 9" and k = "replicate 32 0x48",
      OF ex_ssl_gcm]
  have len: "length fr = 36" by (simp add: fr_def ex_mac_def ex_enc_def)
  show ?thesis
    using rt f ex_ssl_facts ex_dl_facts(4) len
    by (intro exI [of _ fr]) (auto simp: fr_def simp del: dludp_recv_data.simps)
qed

text \<open>C23. The check of received frames. A frame with an initial vector, a tag and a ciphertext from another host gives
  the length of the ciphertext exactly when the tag is the one of the ciphertext under the receiver's key, and
  otherwise 0, so that a changed frame is not delivered; but the decrypted bytes are in the caller's buffer in both
  cases. A frame with fewer than 32 bytes behind the signature is not refused. With zeros for the bytes
  that are missing, its first 16 bytes are the initial vector and the next 16 the tag, and \<open>EVP_DecryptUpdate\<close> is called, on the
  context with the receiver's key and that vector, with the negative length that is left, the number of bytes less 32. What that
  call does is what happens: its fault; 0 when it reports failure; and otherwise the tag decides, over
  whatever it produced, which is written to the caller's buffer.\<close>

theorem crypt_frame_checked:
  assumes "aes_gcm E v enc dec mac" and "current_key E (dec_key s) = k"
    and "0 \<le> socket dl" and "dl_decrypt dl = Some (dludp_decrypt E)" and "addr_wf src"
    and "a \<noteq> dl_addr dl \<or> uint p \<noteq> port dl" and "length iv = IV_SIZE" and "length t = TAG_SIZE"
    and "length ct \<le> 2016" and "length ct \<le> length lpdu" and "length short < IV_SIZE + TAG_SIZE"
  defines "buf \<equiv> short @ replicate (2048 - length short) 0"
  defines "deliver \<equiv> \<lambda>n out w'. bindE (arr_write lpdu 0 out) (\<lambda>lpdu'. Inr (n, Some (from_host src a p), Some lpdu',
    s\<lparr>dec_key := k, dec_iv := take IV_SIZE buf, sys := w'\<rparr>))"
  shows "(\<exists>s'. dludp_recv_data (Some dl) (Some src) (Some lpdu) (int MAX_PDU) timeout
          (Datagram a p (UMTP_SIGNATURE # iv @ t @ ct)) s
        = Inr (if t = mac k iv ct then int (length ct) else 0, Some (from_host src a p),
            Some (dec k iv ct @ drop (length ct) lpdu), s'))
    \<and> (\<exists>c0 w1 c1 c2 c. ctx_new E (sys s) = (Some c0, w1) \<and> decrypt_cipher E c0 = (1, c1) \<and> set_ivlen E IV_SIZE c1 = (1, c2)
        \<and> decrypt_key E k (take IV_SIZE buf) c2 = (1, c) \<and> v c = Keyed False k (take IV_SIZE buf)
        \<and> dludp_recv_data (Some dl) (Some src) (Some lpdu) (int MAX_PDU) timeout (Datagram a p (UMTP_SIGNATURE # short)) s =
           (case decrypt_update E (drop (IV_SIZE + TAG_SIZE) buf) (int (length short) - 32) c of
              Inl f \<Rightarrow> Inl f
            | Inr (r4, ys, c4) \<Rightarrow>
                if r4 = 0 then bindE (ctx_cleanup E (Some c4) w1) (deliver 0 ys)
                else (case set_tag E (take TAG_SIZE (drop IV_SIZE buf)) c4 of (r5, c5) \<Rightarrow>
                  if r5 = 0 then bindE (ctx_cleanup E (Some c5) w1) (deliver 0 ys)
                  else (case decrypt_final E c5 of (ret, zs, c6) \<Rightarrow>
                    deliver (if 0 < ret then int (length ys) + int (length zs) else 0) (ys @ zs) (ctx_free E c6 w1)))))"
proof
  note recv = dludp_recv_with [OF assms(3,5,4) _ assms(6)] and facts = cipher_facts [OF assms(1)]
  define z :: "u8 list" where "z = replicate (2048 - length (iv @ t @ ct)) 0"
  obtain s' where s': "dludp_decrypt E ((iv @ t @ ct) @ z) (int (length (iv @ t @ ct))) s
      = Inr (if t = mac k iv ct then int (length ct) else - 1, dec k iv ct, s')"
    using dludp_decrypt_opens [OF assms(1,7,8), of "length ct" "ct @ z" k s] assms(2,7,8)
    by (auto simp: add.commute)
  show "\<exists>s'. dludp_recv_data (Some dl) (Some src) (Some lpdu) (int MAX_PDU) timeout
          (Datagram a p (UMTP_SIGNATURE # iv @ t @ ct)) s
        = Inr (if t = mac k iv ct then int (length ct) else 0, Some (from_host src a p),
            Some (dec k iv ct @ drop (length ct) lpdu), s')"
    using recv [of "iv @ t @ ct" lpdu timeout s] s' assms(7-10)
    by (auto simp: arr_write_def facts z_def from_host_def simp del: dludp_recv_data.simps)
next
  note gcm = assms(1) [unfolded aes_gcm_def]
  have buf: "length buf = 2048" using assms(11) by (simp add: buf_def)
  have reads: "arr_read buf 0 16 = Inr (take IV_SIZE buf)" "arr_read buf IV_SIZE 16 = Inr (take TAG_SIZE (drop IV_SIZE buf))"
    by (simp_all add: arr_read_def buf)
  obtain c0 w1 where c0: "ctx_new E (sys s) = (Some c0, w1)" "v c0 = Fresh" using gcm by metis
  obtain c1 where c1: "decrypt_cipher E c0 = (1, c1)" "v c1 = Cipher False" using gcm c0(2) by metis
  obtain c2 where c2: "set_ivlen E IV_SIZE c1 = (1, c2)" "v c2 = Iv_set False" using gcm c1(2) by metis
  obtain c where c: "decrypt_key E k (take IV_SIZE buf) c2 = (1, c)" "v c = Keyed False k (take IV_SIZE buf)"
    using gcm c2(2) by metis
  have none: "int (length ys) + int (length zs) \<le> 0 \<longleftrightarrow> ys = [] \<and> zs = []" for ys zs :: "u8 list" by (simp flip: of_nat_add)
  have "dludp_recv_data (Some dl) (Some src) (Some lpdu) (int MAX_PDU) timeout (Datagram a p (UMTP_SIGNATURE # short)) s
      = bindE (dludp_decrypt E buf (int (length short)) s) (\<lambda>(n, out, s'). bindE (arr_write lpdu 0 out) (\<lambda>lpdu'.
          Inr (if n \<le> 0 then 0 else n, Some (from_host src a p), Some lpdu', s')))"
    using dludp_recv_with [OF assms(3,5,4) _ assms(6), of short lpdu timeout s] assms(11) by (simp add: buf_def from_host_def del: dludp_recv_data.simps)
  also have "\<dots> = (case decrypt_update E (drop (IV_SIZE + TAG_SIZE) buf) (int (length short) - 32) c of
              Inl f \<Rightarrow> Inl f
            | Inr (r4, ys, c4) \<Rightarrow>
                if r4 = 0 then bindE (ctx_cleanup E (Some c4) w1) (deliver 0 ys)
                else (case set_tag E (take TAG_SIZE (drop IV_SIZE buf)) c4 of (r5, c5) \<Rightarrow>
                  if r5 = 0 then bindE (ctx_cleanup E (Some c5) w1) (deliver 0 ys)
                  else (case decrypt_final E c5 of (ret, zs, c6) \<Rightarrow>
                    deliver (if 0 < ret then int (length ys) + int (length zs) else 0) (ys @ zs) (ctx_free E c6 w1))))"
    using c0(1) c1(1) c2(1) c(1)
    by (cases "decrypt_update E (drop (IV_SIZE + TAG_SIZE) buf) (int (length short) - 32) c")
      (auto simp: dludp_decrypt_def reads assms(2) decrypt_def decrypt_err_def deliver_def bindE_assoc none split: prod.split)
  finally show "\<exists>c0 w1 c1 c2 c. ctx_new E (sys s) = (Some c0, w1) \<and> decrypt_cipher E c0 = (1, c1) \<and> set_ivlen E IV_SIZE c1 = (1, c2)
        \<and> decrypt_key E k (take IV_SIZE buf) c2 = (1, c) \<and> v c = Keyed False k (take IV_SIZE buf)
        \<and> dludp_recv_data (Some dl) (Some src) (Some lpdu) (int MAX_PDU) timeout (Datagram a p (UMTP_SIGNATURE # short)) s =
           (case decrypt_update E (drop (IV_SIZE + TAG_SIZE) buf) (int (length short) - 32) c of
              Inl f \<Rightarrow> Inl f
            | Inr (r4, ys, c4) \<Rightarrow>
                if r4 = 0 then bindE (ctx_cleanup E (Some c4) w1) (deliver 0 ys)
                else (case set_tag E (take TAG_SIZE (drop IV_SIZE buf)) c4 of (r5, c5) \<Rightarrow>
                  if r5 = 0 then bindE (ctx_cleanup E (Some c5) w1) (deliver 0 ys)
                  else (case decrypt_final E c5 of (ret, zs, c6) \<Rightarrow>
                    deliver (if 0 < ret then int (length ys) + int (length zs) else 0) (ys @ zs) (ctx_free E c6 w1))))"
    using c0(1) c1(1) c2(1) c by blast
qed

theorem crypt_frame_checked_witness:
  "(\<exists>src' s'. dludp_recv_data (Some ex_secure) (Some ex_addr) (Some [0, 0, 0, 0]) (int MAX_PDU) 1000
      (Datagram 0x0200000A 0x2E08 (UMTP_SIGNATURE # replicate 16 9 @ replicate 16 7 @ [0x49])) ex_statics
      = Inr (0, src', Some [1, 0, 0, 0], s'))
   \<and> dludp_recv_data (Some ex_secure) (Some ex_addr) (Some [0, 0, 0, 0]) (int MAX_PDU) 1000
      (Datagram 0x0200000A 0x2E08 [0x68, 1]) ex_statics = Inl Out_of_bounds"
proof -
  have f: "0 \<le> socket ex_secure" "dl_decrypt ex_secure = Some (dludp_decrypt ex_ssl)"
    "(0x0200000A :: u32) \<noteq> dl_addr ex_secure" "current_key ex_ssl (dec_key ex_statics) = replicate 32 0x48"
    using ex_ssl_facts(3) by (simp_all add: ex_secure_def ex_statics_def)
  note ck = crypt_frame_checked [where E = ex_ssl and s = ex_statics and dl = ex_secure and src = ex_addr
      and lpdu = "[0, 0, 0, 0]" and a = "0x0200000A" and p = "0x2E08" and timeout = 1000
      and iv = "replicate 16 9" and t = "replicate 16 7" and ct = "[0x49]" and short = "[1]"
      and k = "replicate 32 0x48", OF ex_ssl_gcm f(4,1,2) ex_dl_facts(4)]
  have "(replicate 16 7 :: u8 list) \<noteq> ex_mac k (replicate 16 9) ct" for k ct
    by (auto simp: ex_mac_def numeral_eq_Suc)
  note tag = this
  have neg: "decrypt_update ex_ssl xs (int (length [1 :: u8]) - 32) c = Inl Out_of_bounds" for xs c
    using ex_ssl_facts(4) by simp
  have "(0x0200000A :: u32) \<noteq> dl_addr ex_secure \<or> uint (0x2E08 :: u16) \<noteq> port ex_secure" using f(3) by simp
  note far = this
  have len: "length (replicate 16 9 :: u8 list) = IV_SIZE" "length (replicate 16 7 :: u8 list) = TAG_SIZE"
    "length [0x49 :: u8] \<le> 2016" "length [0x49 :: u8] \<le> length [0, 0, 0, 0 :: u8]" "length [1 :: u8] < IV_SIZE + TAG_SIZE"
    by simp_all
  note both = ck [OF far len]
  have "dludp_recv_data (Some ex_secure) (Some ex_addr) (Some [0, 0, 0, 0]) (int MAX_PDU) 1000
      (Datagram 0x0200000A 0x2E08 (UMTP_SIGNATURE # [1])) ex_statics = Inl Out_of_bounds"
    using conjunct2 [OF both, unfolded neg sum.case] by (elim exE conjE)
  moreover have "\<exists>src' s'. dludp_recv_data (Some ex_secure) (Some ex_addr) (Some [0, 0, 0, 0]) (int MAX_PDU) 1000
      (Datagram 0x0200000A 0x2E08 (UMTP_SIGNATURE # replicate 16 9 @ replicate 16 7 @ [0x49])) ex_statics
      = Inr (0, src', Some [1, 0, 0, 0], s')"
    using conjunct1 [OF both] tag by (auto simp: ex_dec_def simp del: dludp_recv_data.simps)
  ultimately show ?thesis by blast
qed

end
