(* ===== verification/Examples.thy ===== *)
theory Examples
  imports Modes Crypt
begin

text \<open>
  The two example programs \<open>examples/simple_client.c\<close> and \<open>examples/simple_server.c\<close>: their handlers,
  their \<open>main\<close> up to the loop in which it sleeps, and what happens when they talk to each other.

  The static variable \<open>wait\<close> of the client is a field of the world, next to the network \<open>'n\<close>. Printing
  a message is reading it up to its terminating zero, which must lie within its array. \<open>G\<close> holds the static
  variables as the program starts; the service of the program is the object 0.
\<close>

section \<open>The client\<close>

record 'n client =
  wait :: int
  net :: 'n

text \<open>\<open>printf("%s", p)\<close>: the characters that are read.\<close>

definition c_string :: "u8 list \<Rightarrow> u8 list res" where
  "c_string bs = (if 0 \<in> set bs then Inr (takeWhile (\<lambda>x. x \<noteq> 0) bs) else Inl Out_of_bounds)"

text \<open>The client has a request handler too; it is called \<open>simple_server_req_handler\<close> there as well.\<close>

definition client_req_handler :: "'w req_fun" where
  "client_req_handler src sd blk pdu len w = bindE (c_string pdu) (\<lambda>_. Inr (0, sd, blk, w))"

definition simple_client_rsp_handler ::
  "umtp_addr \<Rightarrow> nat option \<Rightarrow> u8 list \<Rightarrow> int \<Rightarrow> 'n client \<Rightarrow> 'n client res"
where
  "simple_client_rsp_handler src session pdu len w = bindE (c_string pdu) (\<lambda>_. Inr (w\<lparr>wait := 0\<rparr>))"

definition simple_client_timeout :: "umtp_addr \<Rightarrow> int \<Rightarrow> u8 list \<Rightarrow> int \<Rightarrow> 'w \<Rightarrow> 'w res" where
  "simple_client_timeout dst service_id data len w = Inr w"

definition simple_client :: "'n client service_type" where
  "simple_client = \<lparr>svc_id = 1, svc_name = Some ''simple client'', req_handler = Some client_req_handler,
     rsp_handler = Some simple_client_rsp_handler, error_handler = None, timeout_handler = Some simple_client_timeout\<rparr>"

text \<open>What the system tells the client: \<open>inet_addr\<close>, the two allocations, and the answers to \<open>umtp_start\<close>.\<close>

record client_os =
  co_inet_addr :: "string \<Rightarrow> u32"
  co_dl :: bool
  co_umtp :: bool
  co_start :: start_os

text \<open>\<open>while (n--)\<close>: \<open>None\<close> when all messages were sent, otherwise the result of \<open>main\<close>.\<close>

fun client_send_loop ::
  "'w sendto_fun \<Rightarrow> (nat \<Rightarrow> (unit, unit) session_state \<Rightarrow> (unit, unit) session_state) \<Rightarrow> umtp_addr \<Rightarrow> apdu_data
   \<Rightarrow> nat \<Rightarrow> 'w umtp \<Rightarrow> (int option \<times> 'w umtp) res"
where
  "client_send_loop sendto env dst data 0 U = Inr (None, U)"
| "client_send_loop sendto env dst data (Suc n) U =
     bindE (umtp_send_message sendto env dst (Some data) U) (\<lambda>(len, U').
       if len < 0 then Inr (Some (- 1), U') else client_send_loop sendto env dst data n U')"

text \<open>\<open>main\<close> up to the loop \<open>while (wait)\<close>: the result of an early return, or the instance.\<close>

definition client_prepare ::
  "'n client sendto_fun \<Rightarrow> (nat \<Rightarrow> (unit, unit) session_state \<Rightarrow> (unit, unit) session_state) \<Rightarrow> client_os
   \<Rightarrow> 'n client umtp \<Rightarrow> (int + 'n client umtp) res"
where
  "client_prepare sendto env os G =
     bindE (dlumtp_encode_address (co_inet_addr os) (Some \<lparr>addr_len = 6, addr = replicate MAX_MAC_LEN 0\<rparr>)
         (Some ''127.0.0.1'') 11784) (\<lambda>(_, dst).
     bindE (arr_write (replicate MAX_APDU 0) 0 (c_bytes ''hello world'' @ [0])) (\<lambda>data.
     case umtp_dludp_create (co_dl os) (Some ''eth0'') (Some ''0.0.0.0'') 10000 of
       None \<Rightarrow> Inr (Inl (- 1))
     | Some dl \<Rightarrow>
         (case umtp_alloc (co_umtp os) (Some \<lparr>sync_mode = True\<rparr>) (Some dl) G of
            None \<Rightarrow> Inr (Inl (- 1))
          | Some U0 \<Rightarrow>
              bindE (service_type_register (u_svc U0) (Some 0)) (\<lambda>(r, S).
              if r \<noteq> 0 then Inr (Inl (- 1))
              else bindE (umtp_start (co_start os) (Some (U0\<lparr>u_svc := S\<rparr>))) (\<lambda>(r, _, um).
              case um of
                None \<Rightarrow> Inl Bad_pointer
              | Some U1 \<Rightarrow>
                  if r \<noteq> 0 then Inr (Inl (- 1))
                  else bindE (client_send_loop sendto env (the dst)
                      \<lparr>ad_service = 1, confirmed = True, ad_data = data, ad_data_len = 12\<rparr> 10 U1) (\<lambda>(r, U2).
                    Inr (case r of Some e \<Rightarrow> Inl e | None \<Rightarrow> Inr U2)))))))"

text \<open>\<open>while (wait) sleep(1)\<close>; \<open>env k\<close> is what the instance's thread does during the \<open>k\<close>-th sleep.\<close>

partial_function (option) client_wait ::
  "(nat \<Rightarrow> 'n client umtp \<Rightarrow> 'n client umtp) \<Rightarrow> nat \<Rightarrow> 'n client umtp \<Rightarrow> (int \<times> 'n client umtp) option"
where
  "client_wait env k U = (if wait (u_world U) = 0 then Some (0, U) else client_wait env (Suc k) (env k U))"

section \<open>The server\<close>

definition simple_server_req_handler :: "'w req_fun" where
  "simple_server_req_handler src sd blk pdu len w =
     bindE (c_string pdu) (\<lambda>_.
     bindE (case sd_data sd of
         None \<Rightarrow> bindE (arr_write blk 0 (c_bytes ''Nihao China'' @ [0])) (\<lambda>b. Inr (sd, b))
       | Some bs \<Rightarrow> bindE (arr_write bs 0 (c_bytes ''Nihao China'' @ [0])) (\<lambda>b. Inr (sd\<lparr>sd_data := Some b\<rparr>, blk)))
       (\<lambda>(sd', blk'). Inr (0, sd'\<lparr>sd_data_len := 12\<rparr>, blk', w)))"

definition simple_server :: "'w service_type" where
  "simple_server = \<lparr>svc_id = 1, svc_name = Some ''simple server'', req_handler = Some simple_server_req_handler,
     rsp_handler = None, error_handler = None, timeout_handler = None\<rparr>"

text \<open>\<open>main\<close> up to its endless loop.\<close>

definition server_prepare :: "bool \<Rightarrow> bool \<Rightarrow> start_os \<Rightarrow> 'w umtp \<Rightarrow> (int + 'w umtp) res" where
  "server_prepare dl_ok umtp_ok os G =
     (case umtp_dludp_create dl_ok (Some ''eth0'') (Some ''0.0.0.0'') (- 1) of
        None \<Rightarrow> Inr (Inl (- 1))
      | Some dl \<Rightarrow>
          (case umtp_alloc umtp_ok (Some \<lparr>sync_mode = False\<rparr>) (Some dl) G of
             None \<Rightarrow> Inr (Inl (- 1))
           | Some U0 \<Rightarrow>
               bindE (service_type_register (u_svc U0) (Some 0)) (\<lambda>(r, S).
               if r \<noteq> 0 then Inr (Inl (- 1))
               else bindE (umtp_start os (Some (U0\<lparr>u_svc := S\<rparr>))) (\<lambda>(r, _, um).
               case um of
                 None \<Rightarrow> Inl Bad_pointer
               | Some U1 \<Rightarrow> Inr (if r \<noteq> 0 then Inl (- 1) else Inr U1)))))"

text \<open>The static variables of either program: no session, no service, and its service object \<open>ty\<close>.\<close>

definition statics :: "'w service_type \<Rightarrow> 'w umtp \<Rightarrow> bool" where
  "statics ty G \<longleftrightarrow> sess_wf (u_sess G) \<and> live (u_sess G) = {} \<and> next_session_id (u_sess G) = 1
     \<and> svc_good (u_svc G) \<and> svc_entries (u_svc G) = Map.empty \<and> svc_fresh (u_svc G) 0 \<and> svc_mem (u_svc G) 0 = Some ty
     \<and> length (apdu_trans_blk G) = MAX_APDU"

section \<open>Sending in synchronous mode\<close>

lemma priv_submit_sync:
  assumes "u_conf V = Some \<lparr>sync_mode = True\<rparr>" and "u_dl V = Some dl" and "0 \<le> socket dl" and "dl_encrypt dl = None"
    and "takes_frames sendto log" and "addr_wf dst" and "0 < len" and "len \<le> int MAX_APDU" and "nat len \<le> length bs"
  shows "priv_umtp_apdu_submit sendto dst bs len V = Inr (0, V\<lparr>u_world := log (u_world V)
     ([UMTP_SIGNATURE, FTTP_PROTOCOL_VERSION] @ take (nat len) bs) (fst (dest_of dl dst)) (snd (dest_of dl dst))\<rparr>)"
  using npdu_send_udp [OF assms(3,4,6,9,7,8), of sendto "u_world V"] assms(1,2,5,7-9)
  by (simp add: priv_umtp_apdu_submit_def takes_frames_def)

lemma sync_send:
  assumes "u_conf V = Some \<lparr>sync_mode = True\<rparr>" and "u_dl V = Some dl" and "0 \<le> socket dl" and "dl_encrypt dl = None"
    and "takes_frames sendto log" and "addr_wf dst" and "sess_wf (u_sess V)" and "0 \<in> set (ids (u_sess V))"
    and "next_session_id (u_sess V) + 256 < INT_MAX" and "confirmed ad" and "0 \<le> ad_data_len ad"
    and "nat (ad_data_len ad) \<le> length (ad_data ad)" and "nat (ad_data_len ad) \<le> 1020"
    and "svc = word_of_int (ad_service ad)" and "d = take (nat (ad_data_len ad)) (ad_data ad)"
  obtains sid S where "umtp_send_message sendto env dst (Some ad) V = Inr (0, V\<lparr>u_sess := S, u_world :=
      log (u_world V) ([UMTP_SIGNATURE, FTTP_PROTOCOL_VERSION, 1, 0, svc, sid] @ d) (fst (dest_of dl dst)) (snd (dest_of dl dst))\<rparr>)"
    and "sid \<noteq> 0" and "sid \<notin> live (u_sess V)" and "live S = insert sid (live (u_sess V))" and "sess_wf S"
    and "next_session_id S \<le> next_session_id (u_sess V) + 256"
proof -
  let ?L = "ad_data_len ad"
  have one: "apdu_has_session_id 1" by (simp add: apdu_has_session_id_def)
  obtain sid S1 where f: "umtp_free_session (u_sess V) = Inr (sid, S1)" "sess_alloc (u_sess V) sid S1" "sid \<noteq> 0"
    "next_session_id S1 \<le> next_session_id (u_sess V) + 256"
    by (rule umtp_free_session_returns [OF assms(7-9)])
  have S1: "sess_wf S1" "live S1 = insert sid (live (u_sess V))" and new: "sid \<notin> live (u_sess V)"
    using sess_alloc_wf [OF f(2) assms(7)] f(2,3) by (simp_all add: sess_alloc_def live_iff)
  let ?msg = "hdr 1 UMTP_PDU_REQUEST svc sid @ d @ replicate (MAX_APDU - 4 - nat ?L) 0"
  have h: "hdr 1 UMTP_PDU_REQUEST svc sid = [1, 0, svc, sid]" by (simp add: hdr_def one)
  have msg: "length ?msg = 1024" using assms(12,13) by (simp add: h assms(15))
  have tk: "take (nat (4 + ?L)) ?msg = [1, 0, svc, sid] @ d"
  proof -
    have "nat (4 + ?L) = length ([1, 0, svc, sid] @ d)" using assms(11,12) by (simp add: assms(15))
    then show ?thesis unfolding h append_assoc [symmetric] by (simp only: take_append) simp
  qed
  define n where "n = (word_of_int (4 + ?L) :: u16)"
  have "uint n = 4 + ?L" unfolding n_def by (rule uint_of_int_small) (use assms(11,13) in simp_all)
  then have n: "unat n \<le> length ?msg" "unat n \<le> MAX_PDU" unfolding msg using assms(13) by (simp_all add: unat_eq_nat_uint)
  have "sid \<in> live S1" by (simp add: S1(2))
  then obtain k s S where S: "umtp_session_set sid (Some ()) () dst ?msg n S1 = Inr S" "sess_wf S" "ids S = ids S1"
    "S = S1\<lparr>sessions := (sessions S1)[k := s]\<rparr>"
    by (rule umtp_session_set_ok [OF S1(1) _ n, where t = "Some ()" and u = "()" and dst = dst])
  have bounds: "0 < 4 + ?L" "4 + ?L \<le> int MAX_APDU" "nat (4 + ?L) \<le> length ?msg" using assms(11,13) msg by simp_all
  have "umtp_send_message sendto env dst (Some ad) V = priv_umtp_apdu_submit sendto dst ?msg (4 + ?L) (V\<lparr>u_sess := S\<rparr>)"
    using submit_confirmed [OF assms(10-12) wait_session_free [OF f(1,3)], where sendto = sendto and dst = dst and env = env] S(1) assms(13)
    by (simp add: umtp_send_message_def Let_def n_def assms(14,15))
  also have "\<dots> = Inr (0, V\<lparr>u_sess := S, u_world := log (u_world V) ([UMTP_SIGNATURE, FTTP_PROTOCOL_VERSION, 1, 0, svc, sid] @ d)
      (fst (dest_of dl dst)) (snd (dest_of dl dst))\<rparr>)"
    using priv_submit_sync [of "V\<lparr>u_sess := S\<rparr>", OF _ _ assms(3-6) bounds] assms(1,2) unfolding tk by simp
  finally show ?thesis
    using that [of sid S] S f(3,4) new S1(2) by (simp add: live_def)
qed

lemma live_room:
  assumes "sess_wf S" and "card (live S) < 255"
  shows "0 \<in> set (ids S)"
proof (rule ccontr)
  assume no: "0 \<notin> set (ids S)"
  then have "filter (\<lambda>i. i \<noteq> 0) (ids S) = ids S" by (intro filter_True) auto
  then have "distinct (ids S)" "length (ids S) = 255" using assms(1) by (simp_all add: sess_wf_def ids_def)
  moreover have "live S = set (ids S)" using no by (auto simp: live_def)
  ultimately show False using assms(2) by (simp add: distinct_card)
qed

text \<open>The loop sends its \<open>n\<close> messages, each with a session number of its own.\<close>

lemma client_sends_all:
  assumes "u_conf V = Some \<lparr>sync_mode = True\<rparr>" and "u_dl V = Some dl" and "0 \<le> socket dl" and "dl_encrypt dl = None"
    and "takes_frames sendto log" and "addr_wf dst" and "sess_wf (u_sess V)" and "card (live (u_sess V)) + n \<le> 255"
    and "next_session_id (u_sess V) + 256 * int n < INT_MAX" and "confirmed ad" and "0 \<le> ad_data_len ad"
    and "nat (ad_data_len ad) \<le> length (ad_data ad)" and "nat (ad_data_len ad) \<le> 1020"
    and "svc = word_of_int (ad_service ad)" and "d = take (nat (ad_data_len ad)) (ad_data ad)"
  shows "\<exists>sids S. client_send_loop sendto env dst ad n V = Inr (None, V\<lparr>u_sess := S, u_world :=
      foldl (\<lambda>w sid. log w ([UMTP_SIGNATURE, FTTP_PROTOCOL_VERSION, 1, 0, svc, sid] @ d) (fst (dest_of dl dst)) (snd (dest_of dl dst)))
        (u_world V) sids\<rparr>)
    \<and> length sids = n \<and> distinct sids \<and> 0 \<notin> set sids \<and> set sids \<inter> live (u_sess V) = {} \<and> live S = live (u_sess V) \<union> set sids \<and> sess_wf S"
  using assms(1,2,7-9)
proof (induction n arbitrary: V)
  case 0
  then show ?case by (intro exI [of _ "[]"] exI [of _ "u_sess V"]) simp
next
  case (Suc n)
  have room: "0 \<in> set (ids (u_sess V))" by (rule live_room) (use Suc.prems(3,4) in simp_all)
  have next1: "next_session_id (u_sess V) + 256 < INT_MAX" using Suc.prems(5) by simp
  obtain sid S where s: "umtp_send_message sendto env dst (Some ad) V = Inr (0, V\<lparr>u_sess := S, u_world :=
      log (u_world V) ([UMTP_SIGNATURE, FTTP_PROTOCOL_VERSION, 1, 0, svc, sid] @ d) (fst (dest_of dl dst)) (snd (dest_of dl dst))\<rparr>)"
    "sid \<noteq> 0" "sid \<notin> live (u_sess V)" "live S = insert sid (live (u_sess V))" "sess_wf S"
    "next_session_id S \<le> next_session_id (u_sess V) + 256"
    by (rule sync_send [OF Suc.prems(1,2) assms(3-6) Suc.prems(3) room next1 assms(10-15)])
  let ?V = "V\<lparr>u_sess := S, u_world := log (u_world V) ([UMTP_SIGNATURE, FTTP_PROTOCOL_VERSION, 1, 0, svc, sid] @ d)
      (fst (dest_of dl dst)) (snd (dest_of dl dst))\<rparr>"
  have "finite (live (u_sess V))" by (simp add: live_def)
  then have "card (live (u_sess ?V)) + n \<le> 255" using Suc.prems(4) s(3,4) by simp
  moreover have "next_session_id (u_sess ?V) + 256 * int n < INT_MAX" using Suc.prems(5) s(6) by simp
  ultimately obtain sids S' where "client_send_loop sendto env dst ad n ?V = Inr (None, ?V\<lparr>u_sess := S', u_world :=
      foldl (\<lambda>w sid. log w ([UMTP_SIGNATURE, FTTP_PROTOCOL_VERSION, 1, 0, svc, sid] @ d) (fst (dest_of dl dst)) (snd (dest_of dl dst)))
        (u_world ?V) sids\<rparr>)" "length sids = n" "distinct sids" "0 \<notin> set sids" "set sids \<inter> live (u_sess ?V) = {}"
    "live S' = live (u_sess ?V) \<union> set sids" "sess_wf S'"
    using Suc.IH [of ?V] Suc.prems(1,2) s(5) by auto
  then show ?case
    using s(1-4) by (intro exI [of _ "sid # sids"] exI [of _ S']) auto
qed

section \<open>The client alone\<close>

text \<open>The data link that the client creates, and the address that it sends to.\<close>

abbreviation client_link :: "'w umtp_dl" where
  "client_link \<equiv> the (umtp_dludp_create True (Some ''eth0'') (Some ''0.0.0.0'') 10000)"

abbreviation (input) hello :: "u8 list" where
  "hello \<equiv> c_bytes ''hello world'' @ [0]"

lemma hello_length: "length (c_bytes s) = length s"
  by (simp add: c_bytes_def)

lemma client_registers:
  assumes "statics ty G" and "req_handler ty \<noteq> None"
  obtains S where "service_type_register (u_svc G) (Some 0) = Inr (0, S)" and "svc_good S" and "svc_mem S = svc_mem (u_svc G)"
    and "svc_entries S = [svc_id ty \<mapsto> 0]"
proof -
  have G: "svc_good (u_svc G)" "svc_entries (u_svc G) = Map.empty" "svc_fresh (u_svc G) 0" "svc_key (u_svc G) 0 = svc_id ty"
    using assms(1) by (simp_all add: statics_def svc_key_def)
  obtain xs where xs: "svc_order (u_svc G) xs" using G(1) by (auto simp: svc_good_def)
  have none: "svc_entries (u_svc G) (svc_key (u_svc G) 0) = None" using G(2) by simp
  obtain S where S: "service_type_register (u_svc G) (Some 0) = Inr (0, S)" "svc_mem S = svc_mem (u_svc G)"
    by (rule svc_register_ok [OF xs G(3) none])
  obtain S' where S': "service_type_register (u_svc G) (Some 0) = Inr (0, S')" "svc_good S'"
    "svc_entries S' = (svc_entries (u_svc G))(svc_key (u_svc G) 0 \<mapsto> 0)"
    using svc.add_law [OF G(1,3) none] by blast
  have "S' = S" using S(1) S'(1) by simp
  then show ?thesis using that S S' G(2,4) by simp
qed

lemma client_prepared:
  fixes G :: "'n client umtp" and dl :: "'n client umtp_dl"
  assumes "statics simple_client G" and "co_dl os" and "co_umtp os" and "so_task (co_start os) = 0"
    and "dludp_init (so_init (co_start os)) (Some client_link) = Inr (0, [], Some dl)" and "0 < socket dl"
    and "takes_frames sendto log"
  obtains U sids where "client_prepare sendto env os G = Inr (Inr U)" and "length sids = 10" and "distinct sids" and "0 \<notin> set sids"
    and "live (u_sess U) = set sids" and "sess_wf (u_sess U)" and "svc_good (u_svc U)" and "svc_entries (u_svc U) = [1 \<mapsto> 0]"
    and "svc_mem (u_svc U) 0 = Some simple_client" and "u_running U" and "u_conf U = Some \<lparr>sync_mode = True\<rparr>" and "u_dl U = Some dl"
    and "u_world U = foldl (\<lambda>w sid. log w ([UMTP_SIGNATURE, FTTP_PROTOCOL_VERSION, 1, 0, 1, sid] @ hello)
        (co_inet_addr os ''127.0.0.1'') (htons 11784)) (u_world G) sids"
proof -
  let ?ip = "co_inet_addr os ''127.0.0.1''"
  let ?dst = "\<lparr>addr_len = 6, addr = u32_bytes ?ip @ u16_bytes (htons 11784) @ [0]\<rparr>"
  let ?data = "hello @ replicate 1012 0"
  let ?ad = "\<lparr>ad_service = 1, confirmed = True, ad_data = ?data, ad_data_len = 12\<rparr>"
  have enc: "dlumtp_encode_address (co_inet_addr os) (Some \<lparr>addr_len = 6, addr = replicate MAX_MAC_LEN 0\<rparr>) (Some ''127.0.0.1'') 11784
      = Inr (6, Some ?dst)"
    by (simp add: put_addr_def arr_write_def)
  have dat: "arr_write (replicate MAX_APDU 0) 0 hello = Inr ?data"
    by (simp add: arr_write_def hello_length)
  have dst: "addr_wf ?dst" "dest_of dl ?dst = (?ip, htons 11784)" by (simp_all add: addr_wf_def dest_of_def)
  obtain S where S: "service_type_register (u_svc G) (Some 0) = Inr (0, S)" "svc_good S" "svc_entries S = [1 \<mapsto> 0]" "svc_mem S = svc_mem (u_svc G)"
    by (rule client_registers [OF assms(1)]) (simp_all add: simple_client_def)
  let ?U = "G\<lparr>u_conf := Some \<lparr>sync_mode = True\<rparr>, u_svc := S, u_mpu := None, u_dl := Some dl, u_running := True\<rparr>"
  have link: "dl_encrypt dl = None" using dludp_init_keeps [OF assms(5)] by (simp add: umtp_dludp_create_def)
  have U: "u_conf ?U = Some \<lparr>sync_mode = True\<rparr>" "u_dl ?U = Some dl" "sess_wf (u_sess ?U)" "card (live (u_sess ?U)) + 10 \<le> 255"
    "next_session_id (u_sess ?U) + 256 * int 10 < INT_MAX"
    using assms(1) by (simp_all add: statics_def)
  have ad: "confirmed ?ad" "0 \<le> ad_data_len ?ad" "nat (ad_data_len ?ad) \<le> length (ad_data ?ad)" "nat (ad_data_len ?ad) \<le> 1020"
    "(1 :: u8) = word_of_int (ad_service ?ad)" "hello = take (nat (ad_data_len ?ad)) (ad_data ?ad)"
    by (simp_all add: hello_length)
  have "0 \<le> socket dl" using assms(6) by simp
  from client_sends_all [OF U(1,2) this link assms(7) dst(1) U(3-5) ad, of env] obtain sids S'
    where loop: "client_send_loop sendto env ?dst ?ad 10 ?U = Inr (None, ?U\<lparr>u_sess := S', u_world :=
      foldl (\<lambda>w sid. log w ([UMTP_SIGNATURE, FTTP_PROTOCOL_VERSION, 1, 0, 1, sid] @ hello) (fst (dest_of dl ?dst)) (snd (dest_of dl ?dst)))
        (u_world ?U) sids\<rparr>)" "length sids = 10" "distinct sids" "0 \<notin> set sids" "live S' = live (u_sess ?U) \<union> set sids" "sess_wf S'"
    by blast
  have none: "live (u_sess G) = {}" using assms(1) by (simp add: statics_def)
  have "client_prepare sendto env os G = Inr (Inr (?U\<lparr>u_sess := S', u_world :=
      foldl (\<lambda>w sid. log w ([UMTP_SIGNATURE, FTTP_PROTOCOL_VERSION, 1, 0, 1, sid] @ hello) (fst (dest_of dl ?dst)) (snd (dest_of dl ?dst)))
        (u_world ?U) sids\<rparr>))"
    using enc dat S(1) assms(2-5) loop(1)
    by (simp add: client_prepare_def umtp_alloc_def umtp_dludp_create_def umtp_start_def start_mpu_def Let_def
        del: dludp_init.simps dlumtp_encode_address.simps client_send_loop.simps)
  then show ?thesis
    by (rule that) (use loop(2-6) dst(2) none S assms(1) in \<open>simp_all add: statics_def\<close>)
qed

text \<open>The client gets its messages out. When nothing fails, \<open>main\<close> of the client registers its service, starts a
  synchronous instance, and puts exactly ten frames on the network before it waits: the header of a
  confirmed request for service 1 with a session number of its own, and the twelve bytes of the
  greeting, to port 11784 of the address 127.0.0.1. Exactly these ten sessions are then in use.\<close>

theorem client_prepare_sends:
  fixes G :: "'n client umtp" and dl :: "'n client umtp_dl"
  assumes "statics simple_client G" and "co_dl os" and "co_umtp os" and "so_task (co_start os) = 0"
    and "dludp_init (so_init (co_start os)) (Some client_link) = Inr (0, [], Some dl)" and "0 < socket dl"
    and "takes_frames sendto log"
  shows "\<exists>U sids. client_prepare sendto env os G = Inr (Inr U) \<and> length sids = 10 \<and> distinct sids \<and> 0 \<notin> set sids
    \<and> live (u_sess U) = set sids \<and> service_type_get (u_svc U) 1 = Inr (Some 0) \<and> u_running U
    \<and> u_world U = foldl (\<lambda>w sid. log w ([UMTP_SIGNATURE, FTTP_PROTOCOL_VERSION, 1, 0, 1, sid] @ hello)
        (co_inet_addr os ''127.0.0.1'') (htons 11784)) (u_world G) sids"
  by (rule client_prepared [OF assms, of env]) (auto simp: svc.get_law)

text \<open>A network that records frames, and the static variables of a program with the service \<open>ty\<close>.\<close>

type_synonym tape = "u8 list list"

definition ex_wire :: "tape client sendto_fun" where
  "ex_wire fd frame a p w = (int (length frame), 0, w\<lparr>net := net w @ [frame]\<rparr>)"

definition ex_statics :: "tape client service_type \<Rightarrow> tape client umtp" where
  "ex_statics ty = \<lparr>u_conf = None, u_dl = None, u_mpu = None, u_running = False, u_sess = ex_sess,
     u_svc = \<lparr>svc_links = [Svc_head \<mapsto> \<lparr>lnext = Svc_head, lprev = Svc_head\<rparr>, Svc_list 0 \<mapsto> \<lparr>lnext = Svc_nil, lprev = Svc_nil\<rparr>],
       svc_mem = [0 \<mapsto> ty]\<rparr>,
     apdu_trans_blk = replicate MAX_APDU 0, u_world = \<lparr>wait = 1, net = []\<rparr>\<rparr>"

lemma ex_statics_ok: "req_handler ty \<noteq> None \<Longrightarrow> statics ty (ex_statics ty)"
proof -
  assume r: "req_handler ty \<noteq> None"
  let ?S = "u_svc (ex_statics ty)"
  have o: "svc_order ?S []" by (simp add: svc_order_def ex_statics_def dlist_def link_defs)
  have "svc_entries ?S = Map.empty" by (rule ext) (simp add: svc_entries_find [OF o])
  moreover have "svc_good ?S" using o by (auto simp: svc_good_def)
  moreover have "live ex_sess = {}" by (auto simp: live_def ex_sess_facts)
  ultimately show ?thesis
    using r by (simp add: statics_def svc_fresh_def) (simp add: ex_statics_def ex_sess_facts)
qed

definition ex_client_os :: client_os where
  "ex_client_os = \<lparr>co_inet_addr = (\<lambda>_. 0x0100007F), co_dl = True, co_umtp = True, 
     co_start = (ex_os_start 0)\<lparr>so_init := ex_os\<lparr>os_bind := (\<lambda>_. (0, 0))\<rparr>\<rparr>\<rparr>"

lemma foldl_tape: "foldl (\<lambda>w x. w\<lparr>net := net w @ [f x]\<rparr>) w0 xs = w0\<lparr>net := net w0 @ map f xs\<rparr>"
  by (induction xs arbitrary: w0) simp_all

theorem client_prepare_sends_witness:
  "\<exists>U. client_prepare ex_wire ex_quiet ex_client_os (ex_statics simple_client) = Inr (Inr U)
     \<and> length (net (u_world U)) = 10 \<and> wait (u_world U) = 1 \<and> card (live (u_sess U)) = 10"
proof -
  have st: "statics simple_client (ex_statics (simple_client :: tape client service_type))"
    by (rule ex_statics_ok) (simp add: simple_client_def)
  have log: "takes_frames ex_wire (\<lambda>w f _ _. w\<lparr>net := net w @ [f]\<rparr>)" by (simp add: takes_frames_def ex_wire_def)
  obtain dl :: "tape client umtp_dl" where dl: "dludp_init (so_init (co_start ex_client_os)) (Some client_link) = Inr (0, [], Some dl)" "0 < socket dl"
    by (simp add: ex_client_os_def ex_os_start_def ex_os_def umtp_dludp_create_def get_local_address_ioctl_def
        get_local_ifr_ioctl_def htons_def Let_def)
  have os: "co_dl ex_client_os" "co_umtp ex_client_os" "so_task (co_start ex_client_os) = 0"
    by (simp_all add: ex_client_os_def ex_os_start_def)
  from client_prepare_sends [OF st os dl log, of ex_quiet] obtain U and sids :: "u8 list" where
    "client_prepare ex_wire ex_quiet ex_client_os (ex_statics simple_client) = Inr (Inr U)" "length sids = 10" "distinct sids"
    "live (u_sess U) = set sids" "length (net (u_world U)) = 10" "wait (u_world U) = 1"
    unfolding foldl_tape by (auto simp: ex_statics_def)
  then show ?thesis by (auto simp: distinct_card)
qed

section \<open>The client and the server\<close>

text \<open>A started server: asynchronous, idle, and with its service.\<close>

lemma server_prepare_idle:
  fixes G :: "'w umtp" and dl :: "'w umtp_dl"
  assumes "statics simple_server G" and "so_mpu os = Some (m, a, b)" and "mpu_memory m a b" and "so_mpu_task os = 0" and "so_task os = 0"
    and "dludp_init (so_init os) (Some (the (umtp_dludp_create True (Some ''eth0'') (Some ''0.0.0.0'') (- 1)))) = Inr (0, [], Some dl)"
    and "0 < socket dl"
  obtains V m' where "server_prepare True True os G = Inr (Inr V)" and "idle V m' dl" and "svc_entries (u_svc V) = [1 \<mapsto> 0]"
    and "svc_mem (u_svc V) 0 = Some simple_server" and "u_world V = u_world G"
proof -
  obtain S where S: "service_type_register (u_svc G) (Some 0) = Inr (0, S)" "svc_good S" "svc_mem S = svc_mem (u_svc G)" "svc_entries S = [1 \<mapsto> 0]"
    by (rule client_registers [OF assms(1)]) (simp_all add: simple_server_def)
  obtain m0 where m0: "mpu_create (Some (m, a, b)) = (0, Some m0)" "mpu_wf m0" "\<forall>q. q_pkts q m0 = []"
    by (rule mpu_create_ok [OF assms(3)])
  let ?m = "m0\<lparr>mpu_running := 1\<rparr>"
  let ?V = "G\<lparr>u_conf := Some \<lparr>sync_mode = False\<rparr>, u_svc := S, u_mpu := Some ?m, u_dl := Some dl, u_running := True\<rparr>"
  have "server_prepare True True os G = Inr (Inr ?V)"
    using m0(1) assms(2,4-6) S(1)
    by (simp add: server_prepare_def umtp_alloc_def umtp_dludp_create_def umtp_start_def start_mpu_def mpu_start_def Let_def
        del: dludp_init.simps)
  moreover have "dl_encrypt dl = None" "dl_decrypt dl = None"
    using dludp_init_keeps [OF assms(6)] by (simp_all add: umtp_dludp_create_def)
  then have "idle ?V ?m dl"
    using m0(2,3) assms(1,7) S(2) by (simp add: idle_def umtp_ready_def statics_def mpu_running_wf)
  ultimately show ?thesis using that [of ?V ?m] assms(1) S(3,4) by (simp add: statics_def)
qed

text \<open>A turn of the client in which an answer arrives for its session \<open>sid\<close>.\<close>

lemma client_turn:
  assumes "u_conf C = Some \<lparr>sync_mode = True\<rparr>" and "u_dl C = Some dl" and "0 \<le> socket dl" and "dl_decrypt dl = None"
    and "vars_ok T" and "\<not> (a = dl_addr dl \<and> uint p = port dl)" and "sess_wf (u_sess C)" and "svc_good (u_svc C)"
    and "svc_entries (u_svc C) 1 = Some 0" and "svc_mem (u_svc C) 0 = Some simple_client" and "length d \<le> 1020"
    and "type = UMTP_PDU_ERROR \<and> d \<noteq> [] \<and> w = u_world C \<or> type = UMTP_PDU_RESPONSE \<and> 0 \<in> set d \<and> w = (u_world C)\<lparr>wait := 0\<rparr>"
  obtains T' S where "umtp_turn sendto (last_seconds T, Datagram a p ([UMTP_SIGNATURE, FTTP_PROTOCOL_VERSION, 1, type, 1, sid] @ d)) (T, C)
      = Inr (True, T', C\<lparr>u_world := w, u_sess := S\<rparr>)" and "live S = live (u_sess C) - {sid}"
    and "sess_wf S" and "vars_ok T'" and "last_seconds T' = last_seconds T"
proof -
  let ?msg = "[1, type, 1, sid] @ d"
  let ?src = "from_addr (task_src T) a p"
  let ?f = "UMTP_SIGNATURE # FTTP_PROTOCOL_VERSION # ?msg"
  let ?rest = "drop (length ?f - 1) (task_buf T)"
  let ?T = "T\<lparr>task_src := ?src, task_buf := (FTTP_PROTOCOL_VERSION # ?msg) @ ?rest\<rparr>"
  have one: "apdu_has_session_id 1" by (simp add: apdu_has_session_id_def)
  have h: "[1, type, 1, sid] = hdr 1 type 1 sid" by (simp add: hdr_def one)
  have f: "?f \<noteq> []" "length ?f \<le> MAX_MPU_DATA" "tl ?f \<noteq> []" "(word_of_int (last_seconds T - last_seconds T) :: u32) = 0"
    "\<not> (a = dl_addr dl \<and> uint p = port dl \<or> hd ?f \<noteq> UMTP_SIGNATURE)" using assms(6,11) by simp_all
  have step: "umtp_turn sendto (last_seconds T, Datagram a p ?f) (T, C)
      = bindE (umtp_deliver sendto ?src ((FTTP_PROTOCOL_VERSION # ?msg) @ ?rest) (int (length (FTTP_PROTOCOL_VERSION # ?msg))) C)
         (\<lambda>C'. Inr (True, ?T, C'))"
    using turn_datagram(2) [OF assms(2-5) f(1,2,4,5,3), of sendto] by (simp only: list.sel)
  have small: "length ?msg < 65535" "?msg \<noteq> []" using assms(11) by simp_all
  obtain S where S: "clear_session 1 sid (C\<lparr>u_world := w\<rparr>) = Inr (0, C\<lparr>u_world := w, u_sess := S\<rparr>)" "live S = live (u_sess C) - {sid}" "sess_wf S"
    using clear_session_ok [of "C\<lparr>u_world := w\<rparr>" 1 sid] assms(7) one by auto
  have u: "uint (1 :: u8) = 1" by simp
  have "apdu_handler sendto ?src (Some ([1, type, 1, sid] @ d @ ?rest)) (of_nat (length [1, type, 1, sid] + length d)) C
      = clear_session 1 (if apdu_has_session_id 1 then sid else 0) (C\<lparr>u_world := w\<rparr>)"
    by (rule apdu_answer_dispatch [OF assms(8) h _ _ _ refl])
      (use assms(9-12) in \<open>auto simp: u simple_client_def simple_client_rsp_handler_def c_string_def\<close>)
  then have "umtp_deliver sendto ?src ((FTTP_PROTOCOL_VERSION # ?msg) @ ?rest) (int (length (FTTP_PROTOCOL_VERSION # ?msg))) C
      = Inr (C\<lparr>u_world := w, u_sess := S\<rparr>)"
    unfolding deliver_in_sync [OF assms(1) small] using S(1) by (simp add: one)
  moreover have "vars_ok ?T" using assms(5,11) from_addr_facts(1) by (simp add: vars_ok_def)
  ultimately show ?thesis using that [of ?T S] step S(2,3) by simp
qed

lemma client_wait_forever:
  assumes "wait (u_world U) \<noteq> 0" and "\<And>k U. wait (u_world (env k U)) = wait (u_world U)"
  shows "client_wait env k U = None"
proof -
  have "wait (u_world V) = 0" if "client_wait env k V = Some y" for k V y
  proof (rule client_wait.raw_induct [where P = "\<lambda>e k V y. e = env \<longrightarrow> wait (u_world V) = 0", rule_format, OF _ that refl])
    fix loop e k and V :: "'a client umtp" and y :: "int \<times> 'a client umtp"
    assume IH: "\<And>e k V y. loop e k V = Some y \<Longrightarrow> e = env \<Longrightarrow> wait (u_world V) = 0"
      and body: "(if wait (u_world V) = 0 then Some (0, V) else loop e (Suc k) (e k V)) = Some y" and e: "e = env"
    show "wait (u_world V) = 0"
    proof (rule ccontr)
      assume "wait (u_world V) \<noteq> 0"
      then have "loop env (Suc k) (env k V) = Some y" using body e by simp
      from IH [OF this refl] assms(2) \<open>wait (u_world V) \<noteq> 0\<close> show False by simp
    qed
  qed
  then show ?thesis using assms(1) by (metis not_Some_eq)
qed

text \<open>The two frames of the exchange. The server takes a turn of its task and one of its message process unit
  for a frame, the client, which is synchronous, a turn of its task.\<close>

definition hello_frame :: "u8 \<Rightarrow> u8 list" where
  "hello_frame sid = [UMTP_SIGNATURE, FTTP_PROTOCOL_VERSION, 1, UMTP_PDU_REQUEST, 1, sid] @ hello"

definition greeting_frame :: "u8 \<Rightarrow> u8 list" where
  "greeting_frame sid = [UMTP_SIGNATURE, FTTP_PROTOCOL_VERSION, 1, UMTP_PDU_RESPONSE, 1, sid] @ c_bytes ''Nihao China'' @ [0]"

definition server_receives :: "u32 \<Rightarrow> u16 \<Rightarrow> int \<Rightarrow> u8 list list \<Rightarrow> 'w node_event list" where
  "server_receives a p now frames = concat (map (\<lambda>f. [Ev_turn now (Datagram a p f), Ev_mpu 0]) frames)"

definition client_receives :: "u32 \<Rightarrow> u16 \<Rightarrow> int \<Rightarrow> u8 list list \<Rightarrow> 'w node_event list" where
  "client_receives a p now frames = map (\<lambda>f. Ev_turn now (Datagram a p f)) frames"

lemma server_one:
  assumes "idle V m dl" and "svc_entries (u_svc V) = [1 \<mapsto> 0]" and "svc_mem (u_svc V) 0 = Some simple_server"
    and "takes_frames sendto log" and "vars_ok T" and "\<not> (a = dl_addr dl \<and> uint p = port dl)"
  obtains T' V1 V2 m2 where "umtp_turn sendto (last_seconds T, Datagram a p (hello_frame sid)) (T, V) = Inr (True, T', V1)"
    and "umtp_mpu_turn sendto 0 V1 = Inr V2" and "idle V2 m2 dl" and "u_svc V2 = u_svc V" and "vars_ok T'"
    and "last_seconds T' = last_seconds T" and "u_world V2 = log (u_world V) (greeting_frame sid) a p"
proof -
  let ?hi = "c_bytes ''Nihao China'' @ [0]"
  let ?sd = "\<lparr>sd_service_id = 1, sd_data_len = 12, sd_data = None\<rparr>"
  let ?part = "?hi @ drop (length ?hi) (drop 4 (apdu_trans_blk V))"
  have blk: "length (apdu_trans_blk V) = MAX_APDU" using assms(1) by (simp add: idle_def umtp_ready_def)
  have len: "length hello \<le> 1020" "hello \<noteq> []" by (simp_all add: hello_length)
  have k: "svc_entries (u_svc V) (uint (1 :: u8)) = Some 0" by (simp add: assms(2))
  have h: "the (req_handler (the (svc_mem (u_svc V) 0))) (from_addr (task_src T) a p)
      \<lparr>sd_service_id = uint (1 :: u8), sd_data_len = 0, sd_data = None\<rparr> (drop 4 (apdu_trans_blk V)) (hello @ rest) (int (length hello)) (u_world V)
    = Inr (0, ?sd, ?part, u_world V)" for rest
    using blk by (simp add: assms(3) simple_server_def simple_server_req_handler_def c_string_def arr_write_def hello_length)
  have part: "length ?part = MAX_APDU - 4" "(0 :: int) = 0 \<Longrightarrow> answer_fits ?sd ?part"
    using blk by (simp_all add: hello_length answer_fits_def)
  have ans: "[UMTP_SIGNATURE, FTTP_PROTOCOL_VERSION] @ answer 1 1 sid 0 (answer_data ?sd ?part) = greeting_frame sid"
    by (simp add: answer_def hdr_def apdu_has_session_id_def answer_data_def hello_length greeting_frame_def)
  obtain T' V1 V2 m2 where s: "umtp_turn sendto (last_seconds T, Datagram a p ([UMTP_SIGNATURE, FTTP_PROTOCOL_VERSION, 1, 0, 1, sid] @ hello)) (T, V)
      = Inr (True, T', V1)" "umtp_mpu_turn sendto 0 V1 = Inr V2" "idle V2 m2 dl" "u_svc V2 = u_svc V" "vars_ok T'"
    "last_seconds T' = last_seconds T"
    "u_world V2 = log (u_world V) ([UMTP_SIGNATURE, FTTP_PROTOCOL_VERSION] @ answer 1 1 sid 0 (answer_data ?sd ?part)) a p"
    by (rule server_answers [OF assms(1,4-6) len k h part])
  show ?thesis by (rule that [OF _ s(2-6)]) (use s(1,7) in \<open>simp_all only: hello_frame_def ans\<close>)
qed

lemma server_run:
  assumes "svc_entries (u_svc V) = [1 \<mapsto> 0]" and "svc_mem (u_svc V) 0 = Some simple_server"
    and "takes_frames sendto log" and "\<not> (a = dl_addr dl \<and> uint p = port dl)" and "idle V m dl" and "vars_ok T"
  shows "\<exists>T' V'. foldE (node_step sendto) (server_receives a p (last_seconds T) (map hello_frame ss)) (T, V) = Inr (T', V')
    \<and> u_world V' = foldl (\<lambda>w f. log w f a p) (u_world V) (map greeting_frame ss)"
  using assms(1,2,5,6)
proof (induction ss arbitrary: T V m)
  case Nil
  then show ?case by (simp add: server_receives_def)
next
  case (Cons sid ss)
  obtain T1 V1 V2 m2 where s: "umtp_turn sendto (last_seconds T, Datagram a p (hello_frame sid)) (T, V) = Inr (True, T1, V1)"
    "umtp_mpu_turn sendto 0 V1 = Inr V2" "idle V2 m2 dl" "u_svc V2 = u_svc V" "vars_ok T1" "last_seconds T1 = last_seconds T"
    "u_world V2 = log (u_world V) (greeting_frame sid) a p"
    by (rule server_one [OF Cons.prems(3,1,2) assms(3) Cons.prems(4) assms(4)])
  have "svc_entries (u_svc V2) = [1 \<mapsto> 0]" "svc_mem (u_svc V2) 0 = Some simple_server" by (simp_all only: s(4) Cons.prems(1,2))
  from Cons.IH [OF this s(3,5)] s(1,2,6,7) show ?case by (simp add: server_receives_def)
qed

lemma client_run:
  fixes C :: "'n client umtp"
  assumes "0 \<le> socket dl" and "dl_decrypt dl = None" and "\<not> (a = dl_addr dl \<and> uint p = port dl)"
    and "u_conf C = Some \<lparr>sync_mode = True\<rparr>" and "u_dl C = Some dl" and "sess_wf (u_sess C)" and "svc_good (u_svc C)"
    and "svc_entries (u_svc C) 1 = Some 0" and "svc_mem (u_svc C) 0 = Some simple_client" and "vars_ok T"
  shows "\<exists>T' C'. foldE (node_step sendto) (client_receives a p (last_seconds T) (map greeting_frame ss)) (T, C) = Inr (T', C')
    \<and> live (u_sess C') = live (u_sess C) - set ss \<and> u_world C' = (if ss = [] then u_world C else (u_world C)\<lparr>wait := 0\<rparr>)"
  using assms(4-)
proof (induction ss arbitrary: T C)
  case Nil
  then show ?case by (simp add: client_receives_def)
next
  case (Cons sid ss)
  let ?w = "(u_world C)\<lparr>wait := 0\<rparr>"
  obtain T1 S where t: "umtp_turn sendto (last_seconds T, Datagram a p (greeting_frame sid)) (T, C)
      = Inr (True, T1, C\<lparr>u_world := ?w, u_sess := S\<rparr>)" "live S = live (u_sess C) - {sid}" "sess_wf S" "vars_ok T1"
      "last_seconds T1 = last_seconds T"
    by (rule client_turn [OF Cons.prems(1,2) assms(1,2) Cons.prems(7) assms(3) Cons.prems(3-6),
          of "c_bytes ''Nihao China'' @ [0]" UMTP_PDU_RESPONSE ?w sendto sid])
      (use that in \<open>simp_all add: hello_length greeting_frame_def\<close>)
  let ?C = "C\<lparr>u_world := ?w, u_sess := S\<rparr>"
  have "\<exists>T' C'. foldE (node_step sendto) (client_receives a p (last_seconds T1) (map greeting_frame ss)) (T1, ?C) = Inr (T', C')
    \<and> live (u_sess C') = live (u_sess ?C) - set ss \<and> u_world C' = (if ss = [] then u_world ?C else (u_world ?C)\<lparr>wait := 0\<rparr>)"
    by (rule Cons.IH) (use Cons.prems t(3,4) in simp_all)
  then show ?case using t(1,2,5) by (auto simp: client_receives_def)
qed

text \<open>C3. The examples talk to each other. Both \<open>main\<close>s get to their loops when nothing fails; the client has
  put ten frames on the network then, each with a session number of its own. These frames, received by the
  server one after the other, in any order, some of them lost or repeated, are answered by one frame each,
  in that order: a RESPONSE for the same session with the twelve bytes of the server's greeting. These
  frames, received by the client in any order, some of them lost or repeated, free exactly the
  sessions they name, and after any of them \<open>wait\<close> is 0, so the client's loop ends and \<open>main\<close> returns 0. Until
  something clears \<open>wait\<close> the loop does not end. (No second passes during these turns, and the
  message process unit of the server handles a frame before the next one is received.)\<close>

theorem examples_finish:
  fixes Gc :: "'n client umtp" and dc :: "'n client umtp_dl" and Gs :: "'w umtp" and dv :: "'w umtp_dl"
  assumes "statics simple_client Gc" and "co_dl co" and "co_umtp co" and "so_task (co_start co) = 0"
    and "dludp_init (so_init (co_start co)) (Some client_link) = Inr (0, [], Some dc)" and "0 < socket dc"
    and "takes_frames sendto log" and "wait (u_world Gc) = 1" and "\<And>w f a p. wait (log w f a p) = wait w"
    and "vars_ok Tc" and "\<not> (av = dl_addr dc \<and> uint pv = port dc)"
    and "statics simple_server Gs" and "so_mpu os = Some (m, a, b)" and "mpu_memory m a b" and "so_mpu_task os = 0" and "so_task os = 0"
    and "dludp_init (so_init os) (Some (the (umtp_dludp_create True (Some ''eth0'') (Some ''0.0.0.0'') (- 1)))) = Inr (0, [], Some dv)"
    and "0 < socket dv" and "takes_frames sendtov logv" and "vars_ok Tv" and "\<not> (ac = dl_addr dv \<and> uint pc = port dv)"
  shows "\<exists>U V sids. client_prepare sendto env co Gc = Inr (Inr U) \<and> length sids = 10 \<and> distinct sids \<and> live (u_sess U) = set sids
    \<and> u_world U = foldl (\<lambda>w f. log w f (co_inet_addr co ''127.0.0.1'') (htons 11784)) (u_world Gc) (map hello_frame sids)
    \<and> server_prepare True True os Gs = Inr (Inr V)
    \<and> (\<forall>ss. set ss \<subseteq> set sids \<longrightarrow>
        (\<exists>Tv' V'. foldE (node_step sendtov) (server_receives ac pc (last_seconds Tv) (map hello_frame ss)) (Tv, V) = Inr (Tv', V')
          \<and> u_world V' = foldl (\<lambda>w f. logv w f ac pc) (u_world Gs) (map greeting_frame ss))
      \<and> (\<exists>Tc' U'. foldE (node_step sendto) (client_receives av pv (last_seconds Tc) (map greeting_frame ss)) (Tc, U) = Inr (Tc', U')
          \<and> live (u_sess U') = set sids - set ss
          \<and> (ss \<noteq> [] \<longrightarrow> (\<forall>env k. client_wait env k U' = Some (0, U')))))
    \<and> (\<forall>env. (\<forall>k W. wait (u_world (env k W)) = wait (u_world W)) \<longrightarrow> client_wait env 0 U = None)"
proof -
  obtain U sids where U: "client_prepare sendto env co Gc = Inr (Inr U)" "length sids = 10" "distinct sids" "live (u_sess U) = set sids"
    "sess_wf (u_sess U)" "svc_good (u_svc U)" "svc_entries (u_svc U) = [1 \<mapsto> 0]" "svc_mem (u_svc U) 0 = Some simple_client"
    "u_conf U = Some \<lparr>sync_mode = True\<rparr>" "u_dl U = Some dc"
    and sent: "u_world U = foldl (\<lambda>w sid. log w ([UMTP_SIGNATURE, FTTP_PROTOCOL_VERSION, 1, 0, 1, sid] @ hello)
        (co_inet_addr co ''127.0.0.1'') (htons 11784)) (u_world Gc) sids"
    by (rule client_prepared [OF assms(1-7)])
  have world: "u_world U = foldl (\<lambda>w f. log w f (co_inet_addr co ''127.0.0.1'') (htons 11784)) (u_world Gc) (map hello_frame sids)"
    unfolding sent foldl_map hello_frame_def ..
  have "wait (foldl (\<lambda>w f. log w f a p) w fs) = wait w" for a p w fs
    by (induction fs arbitrary: w) (simp_all add: assms(9))
  then have busy: "wait (u_world U) = 1" unfolding world by (simp add: assms(8))
  obtain V m' where V: "server_prepare True True os Gs = Inr (Inr V)" "idle V m' dv" "svc_entries (u_svc V) = [1 \<mapsto> 0]"
    "svc_mem (u_svc V) 0 = Some simple_server" "u_world V = u_world Gs"
    by (rule server_prepare_idle [OF assms(12-18)])
  note server = server_run [OF V(3,4) assms(19,21) V(2) assms(20), unfolded V(5)]
  have link: "0 \<le> socket dc" "dl_decrypt dc = None"
    using assms(6) dludp_init_keeps [OF assms(5)] by (simp_all add: umtp_dludp_create_def)
  have entry: "svc_entries (u_svc U) 1 = Some 0" by (simp add: U(7))
  have client: "\<exists>Tc' U'. foldE (node_step sendto) (client_receives av pv (last_seconds Tc) (map greeting_frame ss)) (Tc, U) = Inr (Tc', U')
      \<and> live (u_sess U') = set sids - set ss \<and> (ss \<noteq> [] \<longrightarrow> (\<forall>env k. client_wait env k U' = Some (0, U')))" for ss
    using client_run [OF link assms(11) U(9,10,5,6) entry U(8) assms(10), of sendto ss]
    by (elim exE conjE, intro exI conjI) (assumption | simp add: U(4) client_wait.simps)+
  have "client_wait env 0 U = None" if "\<forall>k W. wait (u_world (env k W)) = wait (u_world W)" for env
    by (rule client_wait_forever) (use busy that in simp_all)
  then show ?thesis using U(1-4) world V(1) server client by blast
qed

text \<open>Both programs with nothing else in their static variables, over networks that record frames: what the client
  has sent goes to the server, and what the server answers goes back to the client.\<close>

theorem examples_finish_witness:
  "\<exists>U V Tv' V' Tc' U'. client_prepare ex_wire ex_quiet ex_client_os (ex_statics simple_client) = Inr (Inr U)
     \<and> server_prepare True True (ex_os_start 0) (ex_statics simple_server) = Inr (Inr V) \<and> length (net (u_world U)) = 10
     \<and> foldE (node_step ex_wire) (server_receives 2 9 7 (net (u_world U))) (ex_vars, V) = Inr (Tv', V')
     \<and> foldE (node_step ex_wire) (client_receives 2 9 7 (net (u_world V'))) (ex_vars, U) = Inr (Tc', U')
     \<and> live (u_sess U') = {} \<and> client_wait (\<lambda>k U. U) 0 U' = Some (0, U') \<and> client_wait (\<lambda>k U. U) 0 U = None"
proof -
  let ?Gs = "ex_statics simple_server" and ?Gc = "ex_statics (simple_client :: tape client service_type)"
  have st: "statics simple_server ?Gs" "statics simple_client ?Gc"
    by (rule ex_statics_ok; simp add: simple_server_def simple_client_def)+
  have log: "takes_frames ex_wire (\<lambda>w f _ _. w\<lparr>net := net w @ [f]\<rparr>)" by (simp add: takes_frames_def ex_wire_def)
  have kept: "wait (w\<lparr>net := net w @ [f]\<rparr>) = wait w" for w :: "tape client" and f by simp
  obtain dc :: "tape client umtp_dl" where dc: "dludp_init (so_init (co_start ex_client_os)) (Some client_link) = Inr (0, [], Some dc)"
    "0 < socket dc" "dl_addr dc = 0x0100000A"
    by (simp add: ex_client_os_def ex_os_start_def ex_os_def umtp_dludp_create_def get_local_address_ioctl_def
        get_local_ifr_ioctl_def htons_def Let_def)
  obtain dv :: "tape client umtp_dl" where dv: "dludp_init (so_init (ex_os_start 0)) (Some (the (umtp_dludp_create True (Some ''eth0'') (Some ''0.0.0.0'') (- 1))))
      = Inr (0, [], Some dv)" "0 < socket dv" "dl_addr dv = 0x0100000A"
    by (simp add: ex_os_start_def ex_os_def umtp_dludp_create_def get_local_address_ioctl_def get_local_ifr_ioctl_def htons_def Let_def)
  have co: "co_dl ex_client_os" "co_umtp ex_client_os" "so_task (co_start ex_client_os) = 0"
    by (simp_all add: ex_client_os_def ex_os_start_def)
  have os: "so_mpu (ex_os_start 0) = Some (ex_raw, 4096, 40960)" "so_mpu_task (ex_os_start 0) = 0" "so_task (ex_os_start 0) = 0"
    by (simp_all add: ex_os_start_def)
  have mem: "mpu_memory ex_raw 4096 40960" by (simp add: mpu_memory_def ex_raw_def ex_packet_def)
  have l: "last_seconds ex_vars = 7" by (simp add: ex_vars_def)
  have one: "wait (u_world ?Gc) = 1" "net (u_world ?Gc) = []" "net (u_world ?Gs) = []" by (simp_all add: ex_statics_def)
  have far: "\<not> (2 = dl_addr dc \<and> uint (9 :: u16) = port dc)" "\<not> (2 = dl_addr dv \<and> uint (9 :: u16) = port dv)" using dc(3) dv(3) by simp_all
  obtain U V and sids :: "u8 list" where U: "client_prepare ex_wire ex_quiet ex_client_os ?Gc = Inr (Inr U)" "length sids = 10"
      "u_world U = (u_world ?Gc)\<lparr>net := map hello_frame sids\<rparr>"
    and V: "server_prepare True True (ex_os_start 0) ?Gs = Inr (Inr V)"
    and each: "\<forall>ss. set ss \<subseteq> set sids \<longrightarrow>
        (\<exists>Tv' V'. foldE (node_step ex_wire) (server_receives 2 9 7 (map hello_frame ss)) (ex_vars, V) = Inr (Tv', V')
          \<and> u_world V' = (u_world ?Gs)\<lparr>net := map greeting_frame ss\<rparr>)
      \<and> (\<exists>Tc' U'. foldE (node_step ex_wire) (client_receives 2 9 7 (map greeting_frame ss)) (ex_vars, U) = Inr (Tc', U')
          \<and> live (u_sess U') = set sids - set ss \<and> (ss \<noteq> [] \<longrightarrow> (\<forall>env k. client_wait env k U' = Some (0, U'))))"
    and stuck: "\<forall>env. (\<forall>k (W :: tape client umtp). wait (u_world (env k W)) = wait (u_world W)) \<longrightarrow> client_wait env 0 U = None"
    using examples_finish [OF st(2) co dc(1,2) log one(1) kept ex_node_facts(2) far(1) st(1) os(1) mem os(2,3) dv(1,2) log ex_node_facts(2) far(2),
        of ex_quiet, unfolded l foldl_tape [where f = "\<lambda>x. x"] one list.map_ident append_Nil]
    by (elim exE conjE)
  have "set sids \<subseteq> set sids" ..
  note all = mp [OF spec [OF each] this]
  obtain Tv' V' where v: "foldE (node_step ex_wire) (server_receives 2 9 7 (map hello_frame sids)) (ex_vars, V) = Inr (Tv', V')"
    "u_world V' = (u_world ?Gs)\<lparr>net := map greeting_frame sids\<rparr>"
    using conjunct1 [OF all] by (elim exE conjE)
  obtain Tc' U' where c: "foldE (node_step ex_wire) (client_receives 2 9 7 (map greeting_frame sids)) (ex_vars, U) = Inr (Tc', U')"
    "live (u_sess U') = set sids - set sids" "sids \<noteq> [] \<longrightarrow> (\<forall>env k. client_wait env k U' = Some (0, U'))"
    using conjunct2 [OF all] by (elim exE conjE)
  have nets: "net (u_world U) = map hello_frame sids" "net (u_world V') = map greeting_frame sids" using U(3) v(2) by simp_all
  have "sids \<noteq> []" using U(2) by auto
  then have "client_wait (\<lambda>k U. U) 0 U' = Some (0, U')" using c(3) by blast
  moreover have "client_wait (\<lambda>k U. U) 0 U = None" using stuck by simp
  moreover have "live (u_sess U') = {}" using c(2) by simp
  moreover have "length (net (u_world U)) = 10" using U(2) by (simp add: nets)
  ultimately show ?thesis using U(1) V v(1) c(1) unfolding nets [symmetric] by blast
qed

end
