(* ===== verification/Debug.thy ===== *)
theory Debug
  imports Umtp_Prelude
begin

text \<open>
  The debugging aids of \<open>include/debug.h\<close>: the macro \<open>debug\<close> and the function \<open>dump_hex\<close>. What is printed is the
  result, a string. \<open>DEBUGING_ENABLED\<close> is 1, as in the file; \<open>isprint\<close> is that of the C locale. The lemmas show
  that the bytes can be read back from a dump, which \<open>undump\<close> does.
\<close>

section \<open>The code\<close>

abbreviation (input) "ERROR_LEVEL \<equiv> (1 :: int)"
abbreviation (input) "DEBUG_LEVEL \<equiv> (4 :: int)"

text \<open>\<open>file\<close> and \<open>line\<close> are what \<open>__FILE__\<close> and the number \<open>__LINE__\<close> print as, \<open>msg\<close> the formatted message.\<close>

definition debug :: "int \<Rightarrow> string \<Rightarrow> string \<Rightarrow> string \<Rightarrow> string" where
  "debug level file line msg =
     (if level \<le> DEBUG_LEVEL
      then if level = DEBUG_LEVEL \<or> level = ERROR_LEVEL then file @ '':'' @ line @ '' '' @ msg else msg
      else [])"

definition hex_digit :: "nat \<Rightarrow> char" where
  "hex_digit n = ''0123456789abcdef'' ! n"

text \<open>\<open>"%02x "\<close>\<close>

definition hex_byte :: "u8 \<Rightarrow> string" where
  "hex_byte b = [hex_digit (unat b div 16), hex_digit (unat b mod 16), CHR '' '']"

definition is_print :: "u8 \<Rightarrow> bool" where
  "is_print b \<longleftrightarrow> 32 \<le> b \<and> b \<le> 126"

abbreviation (input) "TAB \<equiv> CHR 0x09"
abbreviation (input) "NEWLINE \<equiv> CHR 0x0A"

definition shown :: "u8 \<Rightarrow> char" where
  "shown b = (if is_print b then char_of (unat b) else CHR ''.'')"

text \<open>The two inner loops, with \<open>n = base + 16 - i\<close> turns left.\<close>

fun dump_bytes :: "u8 list \<Rightarrow> int \<Rightarrow> int \<Rightarrow> nat \<Rightarrow> string res" where
  "dump_bytes buf len i 0 = Inr []"
| "dump_bytes buf len i (Suc n) =
     (if i < len
      then bindE (arr_get buf (nat i)) (\<lambda>b. bindE (dump_bytes buf len (i + 1) n) (\<lambda>s. Inr (hex_byte b @ s)))
      else bindE (dump_bytes buf len (i + 1) n) (\<lambda>s. Inr (TAB # s)))"

fun dump_chars :: "u8 list \<Rightarrow> int \<Rightarrow> int \<Rightarrow> nat \<Rightarrow> string res" where
  "dump_chars buf len i 0 = Inr []"
| "dump_chars buf len i (Suc n) =
     (if i < len
      then bindE (arr_get buf (nat i)) (\<lambda>b. bindE (dump_chars buf len (i + 1) n) (\<lambda>s.
        Inr (shown b # s)))
      else Inr [])"

text \<open>The outer loop; \<open>base + 16\<close> is computed in \<open>int\<close>.\<close>

function dump_lines :: "u8 list \<Rightarrow> int \<Rightarrow> int \<Rightarrow> string res" where
  "dump_lines buf len base =
     (if base < len
      then if base + 16 > INT_MAX then Inl Signed_overflow
           else bindE (dump_bytes buf len base 16) (\<lambda>s1.
                bindE (dump_chars buf len base 16) (\<lambda>s2.
                bindE (dump_lines buf len (base + 16)) (\<lambda>s3. Inr (s1 @ TAB # s2 @ NEWLINE # s3))))
      else Inr [])"
  by pat_completeness auto
termination by (relation "measure (\<lambda>(buf, len, base). nat (len - base))") auto

text \<open>\<open>fp\<close> says whether the stream is not NULL.\<close>

definition dump_hex :: "bool \<Rightarrow> u8 list \<Rightarrow> int \<Rightarrow> string res" where
  "dump_hex fp buf len = (if \<not> fp then Inr [] else dump_lines buf len 0)"

declare dump_lines.simps [simp del]

section \<open>Reading a dump\<close>

definition unhex :: "char \<Rightarrow> nat option" where
  "unhex c = map_of (zip ''0123456789abcdef'' [0..<16]) c"

text \<open>Two digits and a space are a byte, as long as there are any in the line; the rest of the line is skipped.\<close>

fun undump :: "bool \<Rightarrow> string \<Rightarrow> u8 list" where
  "undump True (a # b # c # s) =
     (case unhex a of None \<Rightarrow> undump False (b # c # s)
      | Some x \<Rightarrow> (case unhex b of None \<Rightarrow> undump False (c # s) | Some y \<Rightarrow> of_nat (16 * x + y) # undump True s))"
| "undump False (c # s) = undump (c = NEWLINE) s"
| "undump _ _ = []"

text \<open>A line, for up to 16 bytes.\<close>

definition line_text :: "u8 list \<Rightarrow> string" where
  "line_text bs = concat (map hex_byte bs) @ replicate (16 - length bs) TAB
     @ TAB # map shown bs @ [NEWLINE]"

lemma unhex_digit: "n < 16 \<Longrightarrow> unhex (hex_digit n) = Some n"
proof -
  have "\<forall>n \<in> set [0..<16]. unhex (hex_digit n) = Some n" by code_simp
  then show "n < 16 \<Longrightarrow> unhex (hex_digit n) = Some n" by simp
qed

lemma undump_bytes: "undump True (concat (map hex_byte bs) @ s) = bs @ undump True s"
proof (induction bs)
  case (Cons b bs)
  have "unat b < 256" using unsigned_less [of b] by simp
  then have "unhex (hex_digit (unat b div 16)) = Some (unat b div 16)" "unhex (hex_digit (unat b mod 16)) = Some (unat b mod 16)"
    by (auto intro!: unhex_digit)
  moreover have "16 * (unat b div 16) + unat b mod 16 = unat b" by simp
  ultimately show ?case using Cons by (simp add: hex_byte_def del: of_nat_add of_nat_mult)
qed simp

lemma undump_skip: "NEWLINE \<notin> set s \<Longrightarrow> undump False (s @ NEWLINE # t) = undump True t"
  by (induction s) auto

lemma shown_not_newline: "shown b \<noteq> NEWLINE"
proof (cases "is_print b")
  case True
  then have b: "32 \<le> unat b" "unat b < 256" using unsigned_less [of b] by (simp_all add: is_print_def word_le_nat_alt)
  show ?thesis
  proof
    assume "shown b = NEWLINE"
    then have "of_char (char_of (unat b)) = (of_char NEWLINE :: nat)" using True by (simp add: shown_def)
    then show False using b by simp
  qed
qed (simp add: shown_def)

lemma undump_line:
  assumes "bs \<noteq> []"
  shows "undump True (line_text bs @ t) = bs @ undump True t"
proof -
  let ?c = "map shown bs"
  have "NEWLINE \<notin> set ?c" using shown_not_newline by (auto simp: eq_commute)
  then have skip: "undump False (ws @ ?c @ NEWLINE # t) = undump True t" if "set ws \<subseteq> {TAB}" for ws
    using undump_skip [of "ws @ ?c" t] that by auto
  have tab: "unhex TAB = None" by (simp add: unhex_def upt_rec)
  obtain d ds where c: "?c = d # ds" using assms by (cases bs) auto
  have "undump True (replicate k TAB @ TAB # ?c @ NEWLINE # t) = undump True t" for k
  proof (cases k)
    case 0
    obtain e es where e: "ds @ NEWLINE # t = e # es" by (cases ds) auto
    have "undump False (d # e # es) = undump True t" using skip [of "[]"] unfolding c append_Nil append_Cons e by simp
    then show ?thesis unfolding 0 c append_Cons e by (simp add: tab)
  next
    case (Suc k')
    have "\<exists>a b s. replicate k' TAB @ TAB # ?c @ NEWLINE # t = a # b # s" unfolding c
    proof (cases k')
      case (Suc m)
      then show "\<exists>a b s. replicate k' TAB @ TAB # (d # ds) @ NEWLINE # t = a # b # s" by (cases m) auto
    qed simp
    then obtain a b s where s: "replicate k' TAB @ TAB # ?c @ NEWLINE # t = a # b # s" by blast
    have "undump False (replicate k' TAB @ TAB # ?c @ NEWLINE # t) = undump True t"
      using skip [of "replicate k' TAB @ [TAB]"] by (simp add: set_replicate_conv_if)
    then show ?thesis unfolding Suc replicate_Suc append_Cons s by (simp add: tab)
  qed
  then show ?thesis using undump_bytes [of bs] by (simp add: line_text_def)
qed

lemma hex_byte_no_newline: "NEWLINE \<notin> set (hex_byte b)"
proof -
  have "\<forall>n \<in> set [0..<16]. NEWLINE \<noteq> hex_digit n" by code_simp
  then have digit: "NEWLINE \<noteq> hex_digit n" if "n < 16" for n using that by simp
   have "unat b < 256" using unsigned_less [of b] by simp
  then have "unat b div 16 < 16" "unat b mod 16 < 16" by simp_all
  from this [THEN digit] show ?thesis by (simp add: hex_byte_def)
qed

lemma line_text_newline: "length (filter (\<lambda>c. c = NEWLINE) (line_text bs)) = 1"
proof -
  have "filter (\<lambda>c. c = NEWLINE) (concat (map hex_byte bs)) = []" "filter (\<lambda>c. c = NEWLINE) (map shown bs) = []"
    using hex_byte_no_newline shown_not_newline by (auto simp: filter_empty_conv)
  then show ?thesis by (simp add: line_text_def)
qed

section \<open>The lines that are printed\<close>

lemma take_drop_step: "i < length xs \<Longrightarrow> take (Suc n) (drop i xs) = xs ! i # take n (drop (Suc i) xs)"
  by (simp only: Cons_nth_drop_Suc [symmetric] take_Suc_Cons)

lemma dump_bytes_text:
  assumes "0 \<le> i" and "nat len \<le> length buf"
  shows "dump_bytes buf len i n = Inr (concat (map hex_byte (take n (drop (nat i) (take (nat len) buf))))
    @ replicate (n - (nat len - nat i)) TAB)"
  using assms(1)
proof (induction n arbitrary: i)
  case (Suc n)
  have IH: "dump_bytes buf len (i + 1) n = Inr (concat (map hex_byte (take n (drop (Suc (nat i)) (take (nat len) buf))))
    @ replicate (n - (nat len - Suc (nat i))) TAB)" using Suc.IH [of "i + 1"] Suc.prems by (simp add: nat_add_distrib)
  show ?case
  proof (cases "i < len")
    case True
    then have i: "nat i < length (take (nat len) buf)" using Suc.prems assms(2) by simp
    have "nat i < nat len" using True Suc.prems by simp
    then have eq: "Suc n - (nat len - nat i) = n - (nat len - Suc (nat i))" by linarith
    have "nat i < length buf" "take (nat len) buf ! nat i = buf ! nat i" using i by simp_all
    then show ?thesis
      unfolding take_drop_step [OF i] eq using True IH by simp
  next
    case False
    then have "nat len - nat i = 0" by simp
    then show ?thesis using False IH by simp
  qed
qed simp

lemma dump_chars_text:
  assumes "0 \<le> i" and "nat len \<le> length buf"
  shows "dump_chars buf len i n = Inr (map shown (take n (drop (nat i) (take (nat len) buf))))"
  using assms(1)
proof (induction n arbitrary: i)
  case (Suc n)
  show ?case
  proof (cases "i < len")
    case True
    then have i: "nat i < length (take (nat len) buf)" using Suc.prems assms(2) by simp
    have "nat i < length buf" "take (nat len) buf ! nat i = buf ! nat i" "nat (i + 1) = Suc (nat i)" using i Suc.prems by simp_all
    then show ?thesis
      unfolding take_drop_step [OF i] using True Suc.IH [of "i + 1"] Suc.prems by simp
  qed simp
qed simp

lemma lines_count: "0 < n \<Longrightarrow> 1 + (n - 16 + 15) div 16 = (n + 15) div (16 :: nat)"
proof (cases "n \<le> 16")
  case True
  assume "0 < n"
  then obtain k where k: "n = Suc k" by (cases n) auto
  then have "k div 16 = 0" using True by simp
  moreover have "(k + 16) div 16 = k div 16 + 1" by (rule div_add_self2) simp
  ultimately show ?thesis using k True by simp
next
  case False
  then obtain m where m: "n = m + 16" by (metis le_add_diff_inverse2 nat_le_linear)
  have "((m + 15) + 16) div 16 = (m + 15) div 16 + 1" by (rule div_add_self2) simp
  then show ?thesis by (simp add: m)
qed

lemma dump_lines_text:
  assumes "0 \<le> base" and "nat len \<le> length buf" and "len + 16 \<le> INT_MAX" and "rest = drop (nat base) (take (nat len) buf)"
  shows "\<exists>out. dump_lines buf len base = Inr out \<and> undump True out = rest
    \<and> length (filter (\<lambda>c. c = NEWLINE) out) = (length rest + 15) div 16"
  using assms
proof (induction "length rest" arbitrary: base rest rule: less_induct)
  case less
  let ?bs = "take 16 rest"
  show ?case
  proof (cases "base < len")
    case False
    then have "rest = []" using less.prems(1,4) by simp
    then show ?thesis using False by (simp add: dump_lines.simps [of buf len base])
  next
    case True
    then have ne: "rest \<noteq> []" and lr: "length rest = nat len - nat base" using less.prems by simp_all
    have n16: "nat (base + 16) = 16 + nat base" using less.prems(1) by (simp add: nat_add_distrib)
    have rest': "drop 16 rest = drop (nat (base + 16)) (take (nat len) buf)" by (simp add: less.prems(4) n16)
    have "length (drop 16 rest) < length rest" using ne by (cases rest) simp_all
    then obtain out where out: "dump_lines buf len (base + 16) = Inr out" "undump True out = drop 16 rest"
      "length (filter (\<lambda>c. c = NEWLINE) out) = (length (drop 16 rest) + 15) div 16"
      using less.hyps [OF _ _ less.prems(2,3) rest'] less.prems(1) by auto
    have pad: "16 - (nat len - nat base) = 16 - length ?bs" using lr by (simp add: min_def)
    have d1: "dump_bytes buf len base 16 = Inr (concat (map hex_byte ?bs) @ replicate (16 - length ?bs) TAB)"
      using dump_bytes_text [OF less.prems(1,2), of 16] unfolding less.prems(4) [symmetric] pad .
    have d2: "dump_chars buf len base 16 = Inr (map shown ?bs)"
      using dump_chars_text [OF less.prems(1,2), of 16] unfolding less.prems(4) [symmetric] .
    have small: "\<not> base + 16 > INT_MAX" using True less.prems(3) by simp
    have "dump_lines buf len base = Inr (line_text ?bs @ out)"
      unfolding dump_lines.simps [of buf len base] if_P [OF True] if_not_P [OF small] d1 d2 out(1) bindE_Inr line_text_def
      by (simp only: append_assoc append_Cons append_Nil)
    moreover have "undump True (line_text ?bs @ out) = rest" using undump_line [of ?bs out] ne out(2) by (simp only: take_eq_Nil append_take_drop_id) simp
    moreover have "length (filter (\<lambda>c. c = NEWLINE) (line_text ?bs)) = 1" by (rule line_text_newline)
    then have "length (filter (\<lambda>c. c = NEWLINE) (line_text ?bs @ out)) = (length rest + 15) div 16"
      using out(3) lines_count [of "length rest"] ne by simp
    ultimately show ?thesis by blast
  qed
qed

section \<open>Properties\<close>

text \<open>C37. A dump can be read back. For a buffer of at least \<open>len\<close> bytes, with \<open>len + 16\<close> within an \<open>int\<close>, \<open>dump_hex\<close> prints one line for every 16 bytes, or part of them, and
  the hexadecimal columns of these lines give the first \<open>len\<close> bytes, whatever the bytes are, also where
  they look like digits, spaces or ends of lines. Nothing is printed for a NULL stream or a length of 0 or less.\<close>

theorem dump_hex_roundtrip:
  assumes "nat len \<le> length buf" and "len + 16 \<le> INT_MAX"
  shows "(\<exists>out. dump_hex True buf len = Inr out \<and> undump True out = take (nat len) buf
      \<and> length (filter (\<lambda>c. c = NEWLINE) out) = (nat len + 15) div 16)
    \<and> dump_hex False buf len = Inr [] \<and> (len \<le> 0 \<longrightarrow> dump_hex True buf len = Inr [])"
  using dump_lines_text [of 0 len buf "take (nat len) buf"] assms
  by (auto simp: dump_hex_def dump_lines.simps [of buf len 0] min_def)

theorem dump_hex_roundtrip_witness:
  "\<exists>out. dump_hex True [0x30, 0x0A, 0x20, 0xFF] 3 = Inr out \<and> undump True out = [0x30, 0x0A, 0x20]"
  using dump_hex_roundtrip [of 3 "[0x30, 0x0A, 0x20, 0xFF]"] by auto

end
