(* ===== verification/Initcall.thy ===== *)
theory Initcall
  imports Umtp_Prelude
begin

text \<open>
  The experiment with linker sections of \<open>examples/initcall/haha.c\<close>. Every \<open>func_init\<close> puts a pointer to a function
  into the section \<open>.myown\<close>, and \<open>do_initcalls\<close> calls what lies between the two symbols that the linker
  script \<open>my.lds\<close> sets around the section. The section is a list of functions on the standard output; its
  order is the linker's. The addresses that the program prints for tracing are kept.
\<close>

text \<open>What is written to descriptor 1, and the pointers printed to \<open>stderr\<close>.\<close>

record std_streams =
  written :: string
  traced :: "nat list"

type_synonym myown_call = "std_streams \<Rightarrow> std_streams"

definition mspec1 :: myown_call where
  "mspec1 w = w\<lparr>written := written w @ ''aha!'' @ [CHR 0x0A]\<rparr>"

definition mspec2 :: myown_call where
  "mspec2 w = w\<lparr>written := written w @ ''aloha!'' @ [CHR 0x0A]\<rparr>"

definition mspec3 :: myown_call where
  "mspec3 w = w\<lparr>written := written w @ ''hello!'' @ [CHR 0x0A]\<rparr>"

text \<open>The three uses of \<open>func_init\<close>, in the order of the file.\<close>

definition myown :: "myown_call list" where
  "myown = [mspec1, mspec2, mspec3]"

text \<open>The \<open>do\<close> loop, which tests its condition after the call. \<open>at\<close> is the address of \<open>_myown_start\<close>;
  a pointer has 8 bytes.\<close>

function call_loop :: "nat \<Rightarrow> myown_call list \<Rightarrow> nat \<Rightarrow> std_streams \<Rightarrow> std_streams res" where
  "call_loop at calls i w =
     bindE (arr_get calls i) (\<lambda>f.
       let w' = f (w\<lparr>traced := traced w @ [at + 8 * i]\<rparr>) in
       if Suc i < length calls then call_loop at calls (Suc i) w' else Inr w')"
  by pat_completeness auto
termination by (relation "measure (\<lambda>(at, calls, i, w). length calls - i)") auto

definition do_initcalls :: "nat \<Rightarrow> myown_call list \<Rightarrow> std_streams \<Rightarrow> std_streams res" where
  "do_initcalls at calls w = call_loop at calls 0 w"

definition initcall_main :: "nat \<Rightarrow> std_streams \<Rightarrow> (int \<times> std_streams) res" where
  "initcall_main at w = bindE (do_initcalls at myown w) (\<lambda>w'. Inr (0, w'))"

declare call_loop.simps [simp del]

text \<open>Every function is called once, in the order of the section, when there is one. The loop does not
  test for an empty section: there it calls what lies behind it.\<close>

lemma call_loop_fold:
  "i < length calls \<Longrightarrow> call_loop at calls i w =
     Inr (fold (\<lambda>(j, f) w. f (w\<lparr>traced := traced w @ [at + 8 * j]\<rparr>)) (drop i (List.enumerate 0 calls)) w)"
proof (induction "length calls - i" arbitrary: i w)
  case (Suc n)
  have d: "drop i (List.enumerate 0 calls) = (i, calls ! i) # drop (Suc i) (List.enumerate 0 calls)"
    using Cons_nth_drop_Suc [of i "List.enumerate 0 calls"] Suc.prems by (simp add: nth_enumerate_eq)
  show ?case
  proof (cases "Suc i < length calls")
    case True
    then show ?thesis
      using Suc.hyps(1) [of "Suc i"] Suc.hyps(2) Suc.prems by (simp add: call_loop.simps [of at calls i] d Let_def)
  next
    case False
    then have "drop (Suc i) (List.enumerate 0 calls) = []" by simp
    then show ?thesis using False Suc.prems by (simp add: call_loop.simps [of at calls i] d Let_def)
  qed
qed simp

lemma do_initcalls_order:
  "do_initcalls at calls w =
     (if calls = [] then Inl Out_of_bounds
      else Inr (fold (\<lambda>(j, f) w. f (w\<lparr>traced := traced w @ [at + 8 * j]\<rparr>)) (List.enumerate 0 calls) w))"
  using call_loop_fold [of 0 calls at w] by (simp add: do_initcalls_def call_loop.simps [of at calls 0] arr_get_def)

lemma initcall_main_prints:
  "initcall_main at w = Inr (0, w\<lparr>written := written w @ ''aha!'' @ [CHR 0x0A] @ ''aloha!'' @ [CHR 0x0A] @ ''hello!'' @ [CHR 0x0A],
     traced := traced w @ [at, at + 8, at + 16]\<rparr>)"
  by (simp add: initcall_main_def do_initcalls_order myown_def mspec1_def mspec2_def mspec3_def)

end
